(* ===== verification/Prelude.thy ===== *)
theory Prelude
  imports
    Complex_Main
    "HOL-Library.AList"
    "HOL-Library.List_Lexorder"
    "HOL-Library.Char_ord"
    "HOL-Library.Product_Lexorder"
begin

text \<open>
  What every component of the model shares: Python dictionaries as insertion-ordered
  association lists, Python's rounding and number formatting, string helpers, and the
  collections of facts the component proofs draw on.
\<close>

named_theorems dict_simps \<open>facts on dictionaries, for the simplifier\<close>
named_theorems step_defs \<open>definitions of the operations of a component\<close>

section \<open>Dictionaries\<close>

text \<open>
  A Python \<open>dict\<close> keeps the insertion order of its keys and overwrites a value in place.
  It is an association list with distinct keys: lookup is \<open>map_of\<close>, \<open>d[k] = v\<close> is
  \<open>AList.update\<close>.
\<close>

type_synonym ('k, 'v) dict = "('k \<times> 'v) list"

abbreviation dict_get :: "('k, 'v) dict \<Rightarrow> 'k \<Rightarrow> 'v option" where
  "dict_get d k \<equiv> map_of d k"

abbreviation dict_set :: "'k \<Rightarrow> 'v \<Rightarrow> ('k, 'v) dict \<Rightarrow> ('k, 'v) dict" where
  "dict_set k v d \<equiv> AList.update k v d"

abbreviation dict_keys :: "('k, 'v) dict \<Rightarrow> 'k list" where
  "dict_keys d \<equiv> map fst d"

abbreviation dict_values :: "('k, 'v) dict \<Rightarrow> 'v list" where
  "dict_values d \<equiv> map snd d"

definition dict_ok :: "('k, 'v) dict \<Rightarrow> bool" where
  "dict_ok d \<longleftrightarrow> distinct (dict_keys d)"

definition dict_has :: "('k, 'v) dict \<Rightarrow> 'k \<Rightarrow> bool" where
  "dict_has d k \<longleftrightarrow> k \<in> set (dict_keys d)"

text \<open>\<open>d.get(k, default)\<close> and \<open>d.setdefault(k, v)\<close>.\<close>

definition dict_get_default :: "('k, 'v) dict \<Rightarrow> 'k \<Rightarrow> 'v \<Rightarrow> 'v" where
  "dict_get_default d k v = (case dict_get d k of None \<Rightarrow> v | Some w \<Rightarrow> w)"

definition dict_setdefault :: "'k \<Rightarrow> 'v \<Rightarrow> ('k, 'v) dict \<Rightarrow> ('k, 'v) dict" where
  "dict_setdefault k v d = (if dict_has d k then d else d @ [(k, v)])"

lemma dict_ok_Nil [simp]: "dict_ok []"
  by (simp add: dict_ok_def)

lemma dict_ok_set [simp, intro]: "dict_ok d \<Longrightarrow> dict_ok (dict_set k v d)"
  by (simp add: dict_ok_def distinct_update)

lemma dict_get_set [simp, dict_simps]:
  "dict_get (dict_set k v d) k' = (if k' = k then Some v else dict_get d k')"
  by (simp add: update_conv')

lemma set_dict_keys_set [simp, dict_simps]:
  "set (dict_keys (dict_set k v d)) = insert k (set (dict_keys d))"
  using dom_update [of k v d] by (simp add: image_image)

lemma dict_has_set [simp, dict_simps]: "dict_has (dict_set k v d) k' \<longleftrightarrow> k' = k \<or> dict_has d k'"
  unfolding dict_has_def by (simp only: set_dict_keys_set) auto

lemma dict_has_Nil [simp]: "\<not> dict_has [] k"
  by (simp add: dict_has_def)

lemma dict_has_get: "dict_has d k \<longleftrightarrow> (\<exists>v. dict_get d k = Some v)"
  unfolding dict_has_def by (metis map_of_eq_None_iff not_None_eq set_map)

lemma dict_get_None_iff [dict_simps]: "dict_get d k = None \<longleftrightarrow> \<not> dict_has d k"
  by (simp add: dict_has_get)

lemma dict_get_default_set [simp]:
  "dict_get_default (dict_set k v d) k' w = (if k' = k then v else dict_get_default d k' w)"
  by (simp add: dict_get_default_def)

lemma dict_keys_set_present: "dict_has d k \<Longrightarrow> dict_keys (dict_set k v d) = dict_keys d"
  unfolding dict_has_def by (induction d) auto

lemma dict_set_absent: "\<not> dict_has d k \<Longrightarrow> dict_set k v d = d @ [(k, v)]"
  unfolding dict_has_def by (induction d) auto

lemma dict_set_same: "dict_get d k = Some v \<Longrightarrow> dict_set k v d = d"
  by (induction d) (auto split: if_splits)

lemma dict_setdefault_get [simp]:
  "dict_get (dict_setdefault k v d) k' =
     (if k' = k \<and> \<not> dict_has d k then Some v else dict_get d k')"
  by (auto simp: dict_setdefault_def map_add_def dict_has_get split: option.splits)

lemma dict_setdefault_has [simp]: "dict_has (dict_setdefault k v d) k' \<longleftrightarrow> k' = k \<or> dict_has d k'"
  by (auto simp: dict_setdefault_def dict_has_def)

lemma dict_setdefault_ok [simp, intro]: "dict_ok d \<Longrightarrow> dict_ok (dict_setdefault k v d)"
  by (auto simp: dict_setdefault_def dict_ok_def dict_has_def)

lemma dict_get_in: "dict_ok d \<Longrightarrow> (k, v) \<in> set d \<longleftrightarrow> dict_get d k = Some v"
  by (simp add: dict_ok_def)

section \<open>Numbers\<close>

text \<open>
  Python's \<open>float\<close> values are modelled by the exact rationals: sums, products and
  comparisons are those of the numbers, without binary rounding error. \<open>round\<close> with a
  number of digits and the conversion of seconds to microseconds round half to even, as
  Python's do.
\<close>

definition round_half_even :: "rat \<Rightarrow> int" where
  "round_half_even q =
     (let f = \<lfloor>q\<rfloor>; d = q - of_int f in
      if d < 1 / 2 then f else if 1 / 2 < d then f + 1 else if even f then f else f + 1)"

definition py_round :: "rat \<Rightarrow> nat \<Rightarrow> rat" where
  "py_round q n = of_int (round_half_even (q * 10 ^ n)) / 10 ^ n"

lemma round_half_even_of_int [simp]: "round_half_even (of_int k) = k"
  by (simp add: round_half_even_def)

lemma round_half_even_mono: "p \<le> q \<Longrightarrow> round_half_even p \<le> round_half_even q"
proof -
  assume "p \<le> q"
  then consider "\<lfloor>p\<rfloor> = \<lfloor>q\<rfloor>" | "\<lfloor>p\<rfloor> + 1 \<le> \<lfloor>q\<rfloor>"
    using floor_mono [of p q] by linarith
  then show ?thesis
  proof cases
    case 1
    with \<open>p \<le> q\<close> show ?thesis by (auto simp: round_half_even_def Let_def)
  next
    case 2
    have "round_half_even p \<le> \<lfloor>p\<rfloor> + 1" and "\<lfloor>q\<rfloor> \<le> round_half_even q"
      by (auto simp: round_half_even_def Let_def)
    with 2 show ?thesis by linarith
  qed
qed

lemma py_round_mono: "p \<le> q \<Longrightarrow> py_round p n \<le> py_round q n"
  by (simp add: py_round_def divide_right_mono round_half_even_mono mult_right_mono)

lemma round_half_even_error: "\<bar>of_int (round_half_even q) - q\<bar> \<le> 1 / 2"
  using of_int_floor_le [of q] floor_less_iff [of q "\<lfloor>q\<rfloor> + 1"]
  by (auto simp: round_half_even_def Let_def abs_if; linarith)

text \<open>\<open>timedelta(seconds=q)\<close> in microseconds.\<close>

definition seconds_to_us :: "rat \<Rightarrow> int" where
  "seconds_to_us q = round_half_even (q * 1000000)"

lemma seconds_to_us_nonneg: "0 \<le> q \<Longrightarrow> 0 \<le> seconds_to_us q"
  using round_half_even_mono [of 0 "q * 1000000"] round_half_even_of_int [of 0]
  by (simp add: seconds_to_us_def)

section \<open>Strings\<close>

text \<open>
  A Python \<open>str\<close> is a list of characters with code points below 256. Typographic
  characters of the source's literals are written in ASCII.
\<close>

fun nat_digits :: "nat \<Rightarrow> string" where
  "nat_digits n =
     (if n < 10 then [char_of (48 + n)] else nat_digits (n div 10) @ [char_of (48 + n mod 10)])"

declare nat_digits.simps [simp del]

lemma digit_chars [simp]:
  "char_of (48::nat) = CHR ''0''" "char_of (49::nat) = CHR ''1''" "char_of (50::nat) = CHR ''2''"
  "char_of (51::nat) = CHR ''3''" "char_of (52::nat) = CHR ''4''" "char_of (53::nat) = CHR ''5''"
  "char_of (54::nat) = CHR ''6''" "char_of (55::nat) = CHR ''7''" "char_of (56::nat) = CHR ''8''"
  "char_of (57::nat) = CHR ''9''"
  by code_simp+

definition int_str :: "int \<Rightarrow> string" where
  "int_str i = (if i < 0 then ''-'' @ nat_digits (nat (- i)) else nat_digits (nat i))"

text \<open>Zero-padded decimal of at least \<open>w\<close> digits (the format \<open>{n:0w}\<close>).\<close>

definition pad_nat :: "nat \<Rightarrow> nat \<Rightarrow> string" where
  "pad_nat w n = (let s = nat_digits n in replicate (w - length s) CHR ''0'' @ s)"

text \<open>The format \<open>{x:.2f}\<close>.\<close>

definition fixed2 :: "rat \<Rightarrow> string" where
  "fixed2 q =
     (let k = round_half_even (q * 100); a = nat \<bar>k\<bar> in
      (if q < 0 then ''-'' else '''') @ nat_digits (a div 100) @ ''.'' @ pad_nat 2 (a mod 100))"

text \<open>\<open>s.split(".", 1)[0]\<close>: everything before the first dot.\<close>

definition before_dot :: "string \<Rightarrow> string" where
  "before_dot s = takeWhile (\<lambda>c. c \<noteq> CHR ''.'') s"

lemma before_dot_dotted [simp]:
  "CHR ''.'' \<notin> set h \<Longrightarrow> before_dot (h @ CHR ''.'' # t) = h"
  unfolding before_dot_def by (induction h) auto

section \<open>Sorting by a key\<close>

text \<open>
  Sorting by a key that tells the elements apart gives the same list for every order of
  the input.
\<close>

lemma sort_key_order_independent:
  assumes "inj_on f (set xs)" and "distinct xs" and "distinct ys" and "set xs = set ys"
  shows "sort_key f xs = sort_key f ys"
proof (rule map_inj_on)
  show "map f (sort_key f xs) = map f (sort_key f ys)"
    using assms by (intro sorted_distinct_set_unique) (auto simp: distinct_map)
  show "inj_on f (set (sort_key f xs) \<union> set (sort_key f ys))"
    using assms by simp
qed

lemma sorted_map_nth_mono:
  "sorted (map f xs) \<Longrightarrow> i \<le> j \<Longrightarrow> j < length xs \<Longrightarrow> f (xs ! i) \<le> f (xs ! j)"
  using sorted_nth_mono [of "map f xs" i j] by simp

section \<open>Counting in an updated list\<close>

lemma length_filter_update:
  "i < length xs \<Longrightarrow> length (filter P (xs[i := x])) + of_bool (P (xs ! i)) = length (filter P xs) + of_bool (P x)"
proof (induction xs arbitrary: i)
  case (Cons y xs)
  show ?case
  proof (cases i)
    case (Suc j)
    with Cons.IH [of j] Cons.prems show ?thesis by simp
  qed simp
qed simp

section \<open>Runs of a step function\<close>

text \<open>The state after a list of operations.\<close>

abbreviation run :: "('s \<Rightarrow> 'e \<Rightarrow> 's) \<Rightarrow> 's \<Rightarrow> 'e list \<Rightarrow> 's" where
  "run step s es \<equiv> foldl step s es"

end
