(* ===== verification/Errors.thy ===== *)
theory Errors
  imports Prelude
begin

text \<open>
  The error hierarchy of \<open>runtime/errors.py\<close> and \<open>providers/errors.py\<close>: one
  constructor per class, the class attribute \<open>code\<close>, the base class, and what
  \<open>isinstance\<close> decides from them. An exception in flight is a class with its message;
  a call that may raise returns \<open>exn + 'a\<close>.
\<close>

datatype error_class =
    AineError | ConfigurationError | ValidationError | NotFoundError | PermissionDeniedError
  | InfrastructureError | DeterminismViolation | SandboxViolation
  | ProviderError | ProviderRateLimited | ProviderCreditExhaustedError | ProviderTimeout
  | ProviderUnavailable | NoProviderAvailable

fun err_code :: "error_class \<Rightarrow> string" where
  "err_code AineError = ''aine.unknown''"
| "err_code ConfigurationError = ''aine.config''"
| "err_code ValidationError = ''aine.validation''"
| "err_code NotFoundError = ''aine.not_found''"
| "err_code PermissionDeniedError = ''aine.permission_denied''"
| "err_code InfrastructureError = ''aine.infrastructure''"
| "err_code DeterminismViolation = ''aine.determinism_violation''"
| "err_code SandboxViolation = ''aine.sandbox_violation''"
| "err_code ProviderError = ''aine.provider.error''"
| "err_code ProviderRateLimited = ''aine.provider.rate_limited''"
| "err_code ProviderCreditExhaustedError = ''aine.provider.credit_exhausted''"
| "err_code ProviderTimeout = ''aine.provider.timeout''"
| "err_code ProviderUnavailable = ''aine.provider.unavailable''"
| "err_code NoProviderAvailable = ''aine.provider.none_available''"

text \<open>The base class; \<open>None\<close> for the root, whose base is \<open>Exception\<close>.\<close>

fun base_class :: "error_class \<Rightarrow> error_class option" where
  "base_class AineError = None"
| "base_class ProviderError = Some InfrastructureError"
| "base_class ProviderRateLimited = Some ProviderError"
| "base_class ProviderCreditExhaustedError = Some ProviderError"
| "base_class ProviderTimeout = Some ProviderError"
| "base_class ProviderUnavailable = Some ProviderError"
| "base_class NoProviderAvailable = Some AineError"
| "base_class _ = Some AineError"

fun class_depth :: "error_class \<Rightarrow> nat" where
  "class_depth AineError = 0"
| "class_depth ProviderError = 2"
| "class_depth ProviderRateLimited = 3"
| "class_depth ProviderCreditExhaustedError = 3"
| "class_depth ProviderTimeout = 3"
| "class_depth ProviderUnavailable = 3"
| "class_depth _ = 1"

lemma class_depth_base: "base_class c = Some b \<Longrightarrow> class_depth b < class_depth c"
  by (cases c) auto

text \<open>\<open>issubclass\<close>: follow the base classes.\<close>

function issubclass :: "error_class \<Rightarrow> error_class \<Rightarrow> bool" where
  "issubclass c d \<longleftrightarrow> c = d \<or> (case base_class c of None \<Rightarrow> False | Some b \<Rightarrow> issubclass b d)"
  by pat_completeness auto
termination
  by (relation "measure (\<lambda>(c, d). class_depth c)") (auto simp: class_depth_base)

declare issubclass.simps [simp del]

lemma issubclass_refl [simp, intro]: "issubclass c c"
  by (subst issubclass.simps) simp

lemma issubclass_root: "issubclass c AineError"
  by (cases c) (simp_all add: issubclass.simps)

lemma issubclass_ProviderError [simp]:
  "issubclass c ProviderError \<longleftrightarrow>
     c \<in> {ProviderError, ProviderRateLimited, ProviderCreditExhaustedError, ProviderTimeout,
          ProviderUnavailable}"
  by (cases c) (simp_all add: issubclass.simps)

lemma issubclass_RateLimited [simp]:
  "issubclass c ProviderRateLimited \<longleftrightarrow> c = ProviderRateLimited"
  by (cases c) (simp_all add: issubclass.simps)

lemma issubclass_CreditExhausted [simp]:
  "issubclass c ProviderCreditExhaustedError \<longleftrightarrow> c = ProviderCreditExhaustedError"
  by (cases c) (simp_all add: issubclass.simps)

text \<open>
  An exception: one of the project's classes, or any other subclass of \<open>Exception\<close>
  by its type name.
\<close>

datatype exn = Exn error_class string | PyExn string string

fun exn_message :: "exn \<Rightarrow> string" where
  "exn_message (Exn c m) = m"
| "exn_message (PyExn n m) = m"

fun isinstance_exn :: "exn \<Rightarrow> error_class \<Rightarrow> bool" where
  "isinstance_exn (Exn c m) d = issubclass c d"
| "isinstance_exn (PyExn n m) d = False"

text \<open>Sequencing of calls that may raise.\<close>

abbreviation try_bind :: "exn + 'a \<Rightarrow> ('a \<Rightarrow> exn + 'b) \<Rightarrow> exn + 'b" where
  "try_bind r f \<equiv> (case r of Inl e \<Rightarrow> Inl e | Inr x \<Rightarrow> f x)"

lemma err_code_inj: "err_code c = err_code d \<longleftrightarrow> c = d"
  by (cases c; cases d) simp_all

end
