(* ===== verification/Interfaces.thy ===== *)
theory Interfaces
  imports Errors
begin

text \<open>
  The interfaces the components share, as locales. Each is interpreted on the model's own
  definitions in the theory of the component that provides it.

  \<^item> \<open>guarded_registry\<close>: a catalogue whose \<open>register\<close> refuses a key it already holds.
    Provided by the provider registry, the agent registry, the component registry and the
    event registry.
  \<^item> \<open>keyed_store\<close>: a durable store with the laws of lookup after save.
  \<^item> \<open>invariant_system\<close>: operations that keep an invariant.
  \<^item> \<open>counted_system\<close>: such a system whose observable counter never decreases and never
    passes a bound.
\<close>

section \<open>Registries that refuse duplicates\<close>

locale guarded_registry =
  fixes entry :: "'s \<Rightarrow> 'k \<Rightarrow> 'v option"
    and register :: "'k \<Rightarrow> 'v \<Rightarrow> 's \<Rightarrow> exn + 's"
  assumes register_fresh:
      "entry s k = None \<Longrightarrow> \<exists>s'. register k v s = Inr s' \<and> entry s' = (entry s)(k \<mapsto> v)"
    and register_taken:
      "entry s k = Some w \<Longrightarrow> register k v s = Inr s' \<Longrightarrow> w = v \<and> entry s' = entry s"
begin

text \<open>Registering a sequence of entries, stopping at the first error.\<close>

fun register_all :: "('k \<times> 'v) list \<Rightarrow> 's \<Rightarrow> exn + 's" where
  "register_all [] s = Inr s"
| "register_all ((k, v) # kvs) s = try_bind (register k v s) (register_all kvs)"

lemma register_entry: "register k v s = Inr s' \<Longrightarrow> entry s' = (entry s)(k \<mapsto> v)"
proof (cases "entry s k")
  case None
  then show "register k v s = Inr s' \<Longrightarrow> entry s' = (entry s)(k \<mapsto> v)"
    using register_fresh [of s k v] by auto
next
  case (Some w)
  then show "register k v s = Inr s' \<Longrightarrow> entry s' = (entry s)(k \<mapsto> v)"
    using register_taken [of s k w v s'] by (auto simp: fun_eq_iff)
qed

lemma register_keeps:
  "register k v s = Inr s' \<Longrightarrow> entry s k' = Some w \<Longrightarrow> entry s' k' = Some w"
  using register_entry [of k v s s'] register_taken [of s k w v s'] by (cases "k' = k") auto

text \<open>An entry once registered stays what it was.\<close>

lemma register_all_keeps:
  "register_all kvs s = Inr s' \<Longrightarrow> entry s k = Some v \<Longrightarrow> entry s' k = Some v"
proof (induction kvs arbitrary: s)
  case (Cons kv kvs)
  obtain a b where kv: "kv = (a, b)" by (cases kv)
  from Cons.prems(1) kv obtain t where t: "register a b s = Inr t" "register_all kvs t = Inr s'"
    by (auto split: sum.splits)
  from register_keeps [OF t(1) Cons.prems(2)] have "entry t k = Some v" .
  with Cons.IH [OF t(2)] show ?case .
qed simp

text \<open>Afterwards every registered key is bound to its entry, and nothing else changed.\<close>

lemma register_all_entry:
  "register_all kvs s = Inr s' \<Longrightarrow>
     entry s' k = (case map_of kvs k of Some v \<Rightarrow> Some v | None \<Rightarrow> entry s k)"
proof (induction kvs arbitrary: s)
  case (Cons kv kvs)
  obtain a b where kv: "kv = (a, b)" by (cases kv)
  from Cons.prems(1) kv obtain t where t: "register a b s = Inr t" "register_all kvs t = Inr s'"
    by (auto split: sum.splits)
  note ent = register_entry [OF t(1)]
  show ?case
  proof (cases "k = a")
    case True
    with ent have "entry t k = Some b" by simp
    with register_all_keeps [OF t(2)] True kv show ?thesis by simp
  next
    case False
    with ent have "entry t k = entry s k" by simp
    with Cons.IH [OF t(2)] False kv show ?thesis by (auto split: option.split)
  qed
qed simp

text \<open>A sequence of distinct free keys is accepted.\<close>

lemma register_all_accepts:
  "distinct (map fst kvs) \<Longrightarrow> \<forall>k \<in> set (map fst kvs). entry s k = None \<Longrightarrow>
     \<exists>s'. register_all kvs s = Inr s'"
proof (induction kvs arbitrary: s)
  case (Cons kv kvs)
  obtain k v where kv: "kv = (k, v)" by (cases kv)
  with Cons.prems(2) obtain t where t: "register k v s = Inr t" "entry t = (entry s)(k \<mapsto> v)"
    using register_fresh [of s k v] by auto
  with Cons.prems kv have "\<forall>k \<in> set (map fst kvs). entry t k = None" by auto
  with Cons.IH [of t] Cons.prems(1) kv t(1) show ?case by auto
qed simp

end

text \<open>A registry that also refuses to register the same entry again.\<close>

locale strict_registry = guarded_registry entry register
  for entry :: "'s \<Rightarrow> 'k \<Rightarrow> 'v option" and register :: "'k \<Rightarrow> 'v \<Rightarrow> 's \<Rightarrow> exn + 's" +
  assumes register_refuses: "entry s k = Some w \<Longrightarrow> \<exists>e. register k v s = Inl e"
begin

lemma register_Inr_iff: "(\<exists>s'. register k v s = Inr s') \<longleftrightarrow> entry s k = None"
  using register_fresh [of s k v] register_refuses [of s k _ v] by (cases "entry s k") auto

lemma register_all_Inr_iff:
  "(\<exists>s'. register_all kvs s = Inr s') \<longleftrightarrow>
     distinct (map fst kvs) \<and> (\<forall>k \<in> set (map fst kvs). entry s k = None)"
proof (induction kvs arbitrary: s)
  case (Cons kv kvs)
  obtain k v where kv: "kv = (k, v)" by (cases kv)
  show ?case
  proof (cases "entry s k")
    case None
    then obtain t where t: "register k v s = Inr t" "entry t = (entry s)(k \<mapsto> v)"
      using register_fresh by blast
    then show ?thesis using Cons.IH [of t] None kv by auto
  next
    case (Some w)
    then show ?thesis using register_refuses [OF Some, of v] kv by auto
  qed
qed simp

end

section \<open>Keyed stores\<close>

locale keyed_store =
  fixes get :: "'s \<Rightarrow> 'k \<Rightarrow> 'v option"
    and put :: "'k \<Rightarrow> 'v \<Rightarrow> 's \<Rightarrow> 's"
  assumes get_put: "get (put k v s) = (get s)(k \<mapsto> v)"
begin

lemma get_put_same: "get (put k v s) k = Some v"
  by (simp add: get_put)

lemma get_put_other: "k' \<noteq> k \<Longrightarrow> get (put k v s) k' = get s k'"
  by (simp add: get_put)

text \<open>After a sequence of writes, the last write of a key is what is read.\<close>

lemma get_fold_put:
  "get (fold (\<lambda>(k, v). put k v) kvs s) = get s ++ map_of (rev kvs)"
proof (induction kvs arbitrary: s)
  case (Cons kv kvs)
  then show ?case
    by (cases kv) (auto simp: get_put fun_eq_iff map_add_def split: option.splits)
qed simp

end

section \<open>Invariants of operations\<close>

locale invariant_system =
  fixes step :: "'s \<Rightarrow> 'e \<Rightarrow> 's"
    and inv :: "'s \<Rightarrow> bool"
  assumes step_inv: "inv s \<Longrightarrow> inv (step s e)"
begin

lemma run_inv: "inv s \<Longrightarrow> inv (run step s es)"
  by (induction es arbitrary: s) (auto intro: step_inv)

lemma run_inv_prefix: "inv s \<Longrightarrow> inv (run step s (take n es))"
  by (rule run_inv)

end

locale counted_system = invariant_system step inv
  for step :: "'s \<Rightarrow> 'e \<Rightarrow> 's" and inv :: "'s \<Rightarrow> bool" +
  fixes counter :: "'s \<Rightarrow> 'k \<Rightarrow> int"
    and bound :: int
  assumes counter_step: "inv s \<Longrightarrow> counter s k \<le> counter (step s e) k"
    and counter_bound: "inv s \<Longrightarrow> counter s k \<le> bound"
begin

lemma counter_run: "inv s \<Longrightarrow> counter s k \<le> counter (run step s es) k"
proof (induction es arbitrary: s)
  case (Cons e es)
  have "counter s k \<le> counter (step s e) k" by (rule counter_step [OF Cons.prems])
  also have "\<dots> \<le> counter (run step (step s e) es) k"
    by (rule Cons.IH [OF step_inv [OF Cons.prems]])
  finally show ?case by simp
qed simp

lemma counter_run_bound: "inv s \<Longrightarrow> counter (run step s es) k \<le> bound"
  by (rule counter_bound [OF run_inv])

end

end
