(* ===== verification/Py_Value.thy ===== *)
theory Py_Value
  imports Errors
begin

text \<open>
  Python values as they occur in task payloads, event fields and JSON: \<open>None\<close>, booleans,
  integers, floats, strings, lists and string-keyed dictionaries, with \<open>str\<close>, \<open>repr\<close>,
  \<open>int\<close> and truth testing on them, and the ISO format of UTC timestamps.
\<close>

datatype pyval =
    PNone
  | PBool bool
  | PInt int
  | PFloat rat
  | PStr string
  | PList "pyval list"
  | PDict "(string \<times> pyval) list"

section \<open>repr and str\<close>

definition hex_digit :: "nat \<Rightarrow> char" where
  "hex_digit n = (if n < 10 then char_of (48 + n) else char_of (87 + n))"

abbreviation backslash :: char where "backslash \<equiv> CHR 0x5C"
abbreviation squote :: char where "squote \<equiv> CHR 0x27"
abbreviation dquote :: char where "dquote \<equiv> CHR 0x22"

definition repr_char :: "char \<Rightarrow> char \<Rightarrow> string" where
  "repr_char q c =
     (if c = q \<or> c = backslash then [backslash, c]
      else if c = CHR 0x09 then [backslash, CHR ''t'']
      else if c = CHR 0x0A then [backslash, CHR ''n'']
      else if c = CHR 0x0D then [backslash, CHR ''r'']
      else let n = of_char c :: nat in
        if n < 32 \<or> (127 \<le> n \<and> n \<le> 160) \<or> n = 173
        then [backslash, CHR ''x'', hex_digit (n div 16), hex_digit (n mod 16)]
        else [c])"

definition repr_str :: "string \<Rightarrow> string" where
  "repr_str s =
     (let q = (if squote \<in> set s \<and> dquote \<notin> set s then dquote else squote)
      in [q] @ concat (map (repr_char q) s) @ [q])"

text \<open>
  A rational stands for the float whose shortest decimal representation it is, so
  \<open>repr\<close> prints its decimal expansion: positional for exponents from \<open>-4\<close> to \<open>15\<close>,
  scientific otherwise.
\<close>

definition float_scale :: "rat \<Rightarrow> nat" where
  "float_scale a =
     (case List.find (\<lambda>k. a * 10 ^ k = of_int \<lfloor>a * 10 ^ k\<rfloor>) [0..<330] of None \<Rightarrow> 17 | Some k \<Rightarrow> k)"

definition strip_zeros :: "string \<Rightarrow> string" where
  "strip_zeros s = rev (dropWhile (\<lambda>c. c = CHR ''0'') (rev s))"

definition repr_float :: "rat \<Rightarrow> string" where
  "repr_float q =
     (if q = 0 then ''0.0'' else
      let a = \<bar>q\<bar>; k = float_scale a; ds = nat_digits (nat \<lfloor>a * 10 ^ k\<rfloor>);
          p = int (length ds) - int k; d = strip_zeros ds; n = length d;
          body =
            (if -4 < p \<and> p \<le> 16 then
               (if p \<le> 0 then ''0.'' @ replicate (nat (- p)) CHR ''0'' @ d
                else if n \<le> nat p then d @ replicate (nat p - n) CHR ''0'' @ ''.0''
                else take (nat p) d @ ''.'' @ drop (nat p) d)
             else
               take 1 d @ (if n = 1 then '''' else ''.'' @ drop 1 d) @ ''e'' @
               (if p - 1 < 0 then ''-'' else ''+'') @ pad_nat 2 (nat \<bar>p - 1\<bar>))
      in (if q < 0 then ''-'' else '''') @ body)"

definition comma_join :: "string list \<Rightarrow> string" where
  "comma_join ss = (case ss of [] \<Rightarrow> '''' | s # rest \<Rightarrow> s @ concat (map (\<lambda>t. '', '' @ t) rest))"

fun py_repr :: "pyval \<Rightarrow> string" where
  "py_repr PNone = ''None''"
| "py_repr (PBool b) = (if b then ''True'' else ''False'')"
| "py_repr (PInt i) = int_str i"
| "py_repr (PFloat q) = repr_float q"
| "py_repr (PStr s) = repr_str s"
| "py_repr (PList vs) = ''['' @ comma_join (map py_repr vs) @ '']''"
| "py_repr (PDict kvs) =
     ''{'' @ comma_join (map (\<lambda>(k, v). repr_str k @ '': '' @ py_repr v) kvs) @ ''}''"

fun py_str :: "pyval \<Rightarrow> string" where
  "py_str (PStr s) = s"
| "py_str v = py_repr v"

section \<open>Truth value and int\<close>

fun py_truthy :: "pyval \<Rightarrow> bool" where
  "py_truthy PNone \<longleftrightarrow> False"
| "py_truthy (PBool b) \<longleftrightarrow> b"
| "py_truthy (PInt i) \<longleftrightarrow> i \<noteq> 0"
| "py_truthy (PFloat q) \<longleftrightarrow> q \<noteq> 0"
| "py_truthy (PStr s) \<longleftrightarrow> s \<noteq> []"
| "py_truthy (PList vs) \<longleftrightarrow> vs \<noteq> []"
| "py_truthy (PDict kvs) \<longleftrightarrow> kvs \<noteq> []"

definition is_space :: "char \<Rightarrow> bool" where
  "is_space c \<longleftrightarrow>
     (let n = of_char c :: nat in (9 \<le> n \<and> n \<le> 13) \<or> (28 \<le> n \<and> n \<le> 32) \<or> n = 133 \<or> n = 160)"

definition py_strip :: "string \<Rightarrow> string" where
  "py_strip s = rev (dropWhile is_space (rev (dropWhile is_space s)))"

definition is_digit :: "char \<Rightarrow> bool" where
  "is_digit c \<longleftrightarrow> (let n = of_char c :: nat in 48 \<le> n \<and> n \<le> 57)"

text \<open>Digits with single underscores between them; \<open>None\<close> if the literal is malformed.\<close>

fun parse_digits :: "nat \<Rightarrow> string \<Rightarrow> nat option" where
  "parse_digits acc [] = Some acc"
| "parse_digits acc (c # cs) =
     (if is_digit c then parse_digits (10 * acc + (of_char c - 48)) cs
      else if c = CHR ''_'' then
        (case cs of [] \<Rightarrow> None
         | d # ds \<Rightarrow> if is_digit d then parse_digits (10 * acc + (of_char d - 48)) ds else None)
      else None)"

definition parse_nat :: "string \<Rightarrow> nat option" where
  "parse_nat s =
     (case s of [] \<Rightarrow> None
      | c # cs \<Rightarrow> if is_digit c then parse_digits (of_char c - 48) cs else None)"

definition parse_int :: "string \<Rightarrow> int option" where
  "parse_int s =
     (case py_strip s of [] \<Rightarrow> None
      | c # cs \<Rightarrow>
          if c = CHR ''-'' then map_option (\<lambda>n. - int n) (parse_nat cs)
          else if c = CHR ''+'' then map_option int (parse_nat cs)
          else map_option int (parse_nat (c # cs)))"

fun py_int :: "pyval \<Rightarrow> exn + int" where
  "py_int (PBool b) = Inr (if b then 1 else 0)"
| "py_int (PInt i) = Inr i"
| "py_int (PFloat q) = Inr (if q < 0 then \<lceil>q\<rceil> else \<lfloor>q\<rfloor>)"
| "py_int (PStr s) =
     (case parse_int s of
        Some i \<Rightarrow> Inr i
      | None \<Rightarrow> Inl (PyExn ''ValueError''
          (''invalid literal for int() with base 10: '' @ repr_str s)))"
| "py_int v = Inl (PyExn ''TypeError''
     ''int() argument must be a string, a bytes-like object or a real number'')"

section \<open>Decimal digits\<close>

definition digits_value :: "string \<Rightarrow> int" where
  "digits_value ds = foldl (\<lambda>acc c. 10 * acc + (of_char c - 48)) 0 ds"

lemma digits_value_append: "digits_value (ds @ [c]) = 10 * digits_value ds + (of_char c - 48)"
  by (simp add: digits_value_def)

lemma nat_digits_facts:
  "digits_value (nat_digits n) = int n \<and> list_all is_digit (nat_digits n) \<and> nat_digits n \<noteq> []"
proof (induction n rule: nat_digits.induct)
  case (1 n)
  have digit: "is_digit (char_of (48 + k))" "of_char (char_of (48 + k) :: char) = (48 + int k)"
    if "k < 10" for k :: nat
  proof -
    have "(of_char (char_of (48 + k) :: char) :: int) = int (of_char (char_of (48 + k) :: char))"
      by (simp only: of_nat_of_char)
    with that show "of_char (char_of (48 + k) :: char) = (48 + int k)" "is_digit (char_of (48 + k))"
      by (simp_all add: is_digit_def Let_def of_char_of)
  qed
  show ?case
  proof (cases "n < 10")
    case True
    then show ?thesis using digit [of n] by (simp add: nat_digits.simps digits_value_def)
  next
    case False
    have "10 * int (n div 10) + int (n mod 10) = int n" by presburger
    with 1 False digit [of "n mod 10"] show ?thesis
      by (simp add: nat_digits.simps [of n] digits_value_append)
  qed
qed

lemma takeWhile_stop: "list_all P xs \<Longrightarrow> \<not> P y \<Longrightarrow> takeWhile P (xs @ y # ys) = xs"
  by (induction xs) auto

section \<open>Timestamps\<close>

text \<open>
  A \<open>datetime\<close> in UTC is its number of microseconds since 1970-01-01, so that
  comparison and adding a \<open>timedelta\<close> are those of the integers. The ISO format goes
  through the civil date (proleptic Gregorian calendar, years counted from March).
\<close>

type_synonym time = int

definition civil_from_days :: "int \<Rightarrow> int \<times> int \<times> int" where
  "civil_from_days z0 =
     (let z = z0 + 719468; era = z div 146097; doe = z mod 146097;
          yoe = (doe - doe div 1460 + doe div 36524 - doe div 146096) div 365;
          doy = doe - (365 * yoe + yoe div 4 - yoe div 100);
          mp = (5 * doy + 2) div 153;
          d = doy - (153 * mp + 2) div 5 + 1;
          m = (if mp < 10 then mp + 3 else mp - 9);
          y = yoe + era * 400 + (if m \<le> 2 then 1 else 0)
      in (y, m, d))"

definition isoformat :: "time \<Rightarrow> string" where
  "isoformat t =
     (let us = t mod 1000000; s = t div 1000000; sod = s mod 86400;
          (y, m, d) = civil_from_days (s div 86400)
      in pad_nat 4 (nat y) @ ''-'' @ pad_nat 2 (nat m) @ ''-'' @ pad_nat 2 (nat d) @ ''T'' @
         pad_nat 2 (nat (sod div 3600)) @ '':'' @ pad_nat 2 (nat (sod div 60 mod 60)) @ '':'' @
         pad_nat 2 (nat (sod mod 60)) @
         (if us = 0 then '''' else ''.'' @ pad_nat 6 (nat us)) @ ''+00:00'')"

end
