(* ===== verification/Events.thy ===== *)
theory Events
  imports Interfaces Py_Value
begin

text \<open>
  The versioned domain events of \<open>events/\<close>: the topics and the registry of
  \<open>events/schema.py\<close>, the envelope of \<open>events/base.py\<close>, and for every module of
  \<open>events/domain/\<close> one datatype with a constructor per event class (its payload fields in
  source order), the class attributes of each constructor, and the payload it dumps to.

  The metadata an event carries is a record of its own; its generated fields (identifier,
  correlation identifier, time) are arguments. The registry is the state after the
  decorator \<open>register_event\<close> has run on the classes imported so far. Shown: importing
  every module registers every class without a duplicate, a registered class is never
  replaced, and the key under which a class is registered is the one its envelopes carry.
\<close>

section \<open>events/schema.py: topics\<close>

datatype event_topic =
    TOPIC_WORKFLOW | TOPIC_AGENT | TOPIC_CODEGEN | TOPIC_REVIEW | TOPIC_TESTING | TOPIC_REPAIR
  | TOPIC_MEMORY | TOPIC_SCHEDULER | TOPIC_PROVIDER | TOPIC_WORKER | TOPIC_CHAINING

fun topic_value :: "event_topic \<Rightarrow> string" where
  "topic_value TOPIC_WORKFLOW = ''aine.workflow''"
| "topic_value TOPIC_AGENT = ''aine.agent''"
| "topic_value TOPIC_CODEGEN = ''aine.codegen''"
| "topic_value TOPIC_REVIEW = ''aine.review''"
| "topic_value TOPIC_TESTING = ''aine.testing''"
| "topic_value TOPIC_REPAIR = ''aine.repair''"
| "topic_value TOPIC_MEMORY = ''aine.memory''"
| "topic_value TOPIC_SCHEDULER = ''aine.scheduler''"
| "topic_value TOPIC_PROVIDER = ''aine.provider''"
| "topic_value TOPIC_WORKER = ''aine.worker''"
| "topic_value TOPIC_CHAINING = ''aine.chaining''"

text \<open>An event class: its name and its class attributes.\<close>

record event_class =
  class_name :: string
  event_type :: string
  event_version :: int
  event_topic :: event_topic

text \<open>No class of the source overrides the default \<open>event_version\<close> of 1.\<close>

definition mk_class :: "string \<Rightarrow> string \<Rightarrow> event_topic \<Rightarrow> event_class" where
  "mk_class n ty tp =
     \<lparr>class_name = n, event_type = ty, event_version = 1, event_topic = tp\<rparr>"

definition dump_opt :: "('a \<Rightarrow> pyval) \<Rightarrow> 'a option \<Rightarrow> pyval" where
  "dump_opt f x = (case x of None \<Rightarrow> PNone | Some v \<Rightarrow> f v)"

section \<open>events/domain/agent_lifecycle.py\<close>

datatype agent_event =
    AgentInvoked \<comment> \<open>run_id, workflow_id, agent_name, agent_version, inputs_hash\<close>
      string string string string string
  | AgentRunCompleted \<comment> \<open>run_id, agent_name, duration_ms, outputs_hash, tokens_used\<close>
      string string int string "int option"
  | AgentRunFailed \<comment> \<open>run_id, agent_name, error_code, error_message, retryable\<close>
      string string string string bool

fun agent_event_class :: "agent_event \<Rightarrow> event_class" where
  "agent_event_class (AgentInvoked _ _ _ _ _) =
     mk_class ''AgentInvoked'' ''agent.invoked'' TOPIC_AGENT"
| "agent_event_class (AgentRunCompleted _ _ _ _ _) =
     mk_class ''AgentRunCompleted'' ''agent.run_completed'' TOPIC_AGENT"
| "agent_event_class (AgentRunFailed _ _ _ _ _) =
     mk_class ''AgentRunFailed'' ''agent.run_failed'' TOPIC_AGENT"

definition agent_event_classes :: "event_class list" where
  "agent_event_classes =
     [mk_class ''AgentInvoked'' ''agent.invoked'' TOPIC_AGENT,
      mk_class ''AgentRunCompleted'' ''agent.run_completed'' TOPIC_AGENT,
      mk_class ''AgentRunFailed'' ''agent.run_failed'' TOPIC_AGENT]"

fun agent_event_payload :: "agent_event \<Rightarrow> (string, pyval) dict" where
  "agent_event_payload (AgentInvoked x_run_id x_workflow_id x_agent_name x_agent_version x_inputs_hash) =
     [(''run_id'', PStr x_run_id),
      (''workflow_id'', PStr x_workflow_id),
      (''agent_name'', PStr x_agent_name),
      (''agent_version'', PStr x_agent_version),
      (''inputs_hash'', PStr x_inputs_hash)]"
| "agent_event_payload (AgentRunCompleted x_run_id x_agent_name x_duration_ms x_outputs_hash x_tokens_used) =
     [(''run_id'', PStr x_run_id),
      (''agent_name'', PStr x_agent_name),
      (''duration_ms'', PInt x_duration_ms),
      (''outputs_hash'', PStr x_outputs_hash),
      (''tokens_used'', dump_opt PInt x_tokens_used)]"
| "agent_event_payload (AgentRunFailed x_run_id x_agent_name x_error_code x_error_message x_retryable) =
     [(''run_id'', PStr x_run_id),
      (''agent_name'', PStr x_agent_name),
      (''error_code'', PStr x_error_code),
      (''error_message'', PStr x_error_message),
      (''retryable'', PBool x_retryable)]"

section \<open>events/domain/code_generation.py\<close>

datatype codegen_event =
    CodeGenerationRequested \<comment> \<open>request_id, repo, target_branch, spec_ref, language\<close>
      string string string string string
  | CodeGenerationCompleted \<comment> \<open>request_id, repo, branch, commit_sha, files_changed, lines_added, lines_removed\<close>
      string string string string int int int
  | CodeGenerationFailed \<comment> \<open>request_id, error_code, error_message, stage\<close>
      string string string string

fun codegen_event_class :: "codegen_event \<Rightarrow> event_class" where
  "codegen_event_class (CodeGenerationRequested _ _ _ _ _) =
     mk_class ''CodeGenerationRequested'' ''codegen.requested'' TOPIC_CODEGEN"
| "codegen_event_class (CodeGenerationCompleted _ _ _ _ _ _ _) =
     mk_class ''CodeGenerationCompleted'' ''codegen.completed'' TOPIC_CODEGEN"
| "codegen_event_class (CodeGenerationFailed _ _ _ _) =
     mk_class ''CodeGenerationFailed'' ''codegen.failed'' TOPIC_CODEGEN"

definition codegen_event_classes :: "event_class list" where
  "codegen_event_classes =
     [mk_class ''CodeGenerationRequested'' ''codegen.requested'' TOPIC_CODEGEN,
      mk_class ''CodeGenerationCompleted'' ''codegen.completed'' TOPIC_CODEGEN,
      mk_class ''CodeGenerationFailed'' ''codegen.failed'' TOPIC_CODEGEN]"

fun codegen_event_payload :: "codegen_event \<Rightarrow> (string, pyval) dict" where
  "codegen_event_payload (CodeGenerationRequested x_request_id x_repo x_target_branch x_spec_ref x_language) =
     [(''request_id'', PStr x_request_id),
      (''repo'', PStr x_repo),
      (''target_branch'', PStr x_target_branch),
      (''spec_ref'', PStr x_spec_ref),
      (''language'', PStr x_language)]"
| "codegen_event_payload (CodeGenerationCompleted x_request_id x_repo x_branch x_commit_sha x_files_changed x_lines_added x_lines_removed) =
     [(''request_id'', PStr x_request_id),
      (''repo'', PStr x_repo),
      (''branch'', PStr x_branch),
      (''commit_sha'', PStr x_commit_sha),
      (''files_changed'', PInt x_files_changed),
      (''lines_added'', PInt x_lines_added),
      (''lines_removed'', PInt x_lines_removed)]"
| "codegen_event_payload (CodeGenerationFailed x_request_id x_error_code x_error_message x_stage) =
     [(''request_id'', PStr x_request_id),
      (''error_code'', PStr x_error_code),
      (''error_message'', PStr x_error_message),
      (''stage'', PStr x_stage)]"

section \<open>events/domain/code_review.py\<close>

datatype severity_literal = Info | Low | Medium | High | Critical

fun severity_literal_value :: "severity_literal \<Rightarrow> string" where
  "severity_literal_value Info = ''info''"
| "severity_literal_value Low = ''low''"
| "severity_literal_value Medium = ''medium''"
| "severity_literal_value High = ''high''"
| "severity_literal_value Critical = ''critical''"

datatype decision_literal = Approve | RequestChanges | Comment

fun decision_literal_value :: "decision_literal \<Rightarrow> string" where
  "decision_literal_value Approve = ''approve''"
| "decision_literal_value RequestChanges = ''request_changes''"
| "decision_literal_value Comment = ''comment''"

datatype review_event =
    CodeReviewRequested \<comment> \<open>review_id, repo, pr_number, head_sha, reviewer_profile\<close>
      string string int string string
  | ReviewFindingProduced \<comment> \<open>review_id, file_path, line, severity, rule, summary\<close>
      string string "int option" severity_literal string string
  | CodeReviewCompleted \<comment> \<open>review_id, decision, findings_total, duration_ms\<close>
      string decision_literal int int

fun review_event_class :: "review_event \<Rightarrow> event_class" where
  "review_event_class (CodeReviewRequested _ _ _ _ _) =
     mk_class ''CodeReviewRequested'' ''review.requested'' TOPIC_REVIEW"
| "review_event_class (ReviewFindingProduced _ _ _ _ _ _) =
     mk_class ''ReviewFindingProduced'' ''review.finding_produced'' TOPIC_REVIEW"
| "review_event_class (CodeReviewCompleted _ _ _ _) =
     mk_class ''CodeReviewCompleted'' ''review.completed'' TOPIC_REVIEW"

definition review_event_classes :: "event_class list" where
  "review_event_classes =
     [mk_class ''CodeReviewRequested'' ''review.requested'' TOPIC_REVIEW,
      mk_class ''ReviewFindingProduced'' ''review.finding_produced'' TOPIC_REVIEW,
      mk_class ''CodeReviewCompleted'' ''review.completed'' TOPIC_REVIEW]"

fun review_event_payload :: "review_event \<Rightarrow> (string, pyval) dict" where
  "review_event_payload (CodeReviewRequested x_review_id x_repo x_pr_number x_head_sha x_reviewer_profile) =
     [(''review_id'', PStr x_review_id),
      (''repo'', PStr x_repo),
      (''pr_number'', PInt x_pr_number),
      (''head_sha'', PStr x_head_sha),
      (''reviewer_profile'', PStr x_reviewer_profile)]"
| "review_event_payload (ReviewFindingProduced x_review_id x_file_path x_line x_severity x_rule x_summary) =
     [(''review_id'', PStr x_review_id),
      (''file_path'', PStr x_file_path),
      (''line'', dump_opt PInt x_line),
      (''severity'', PStr (severity_literal_value x_severity)),
      (''rule'', PStr x_rule),
      (''summary'', PStr x_summary)]"
| "review_event_payload (CodeReviewCompleted x_review_id x_decision x_findings_total x_duration_ms) =
     [(''review_id'', PStr x_review_id),
      (''decision'', PStr (decision_literal_value x_decision)),
      (''findings_total'', PInt x_findings_total),
      (''duration_ms'', PInt x_duration_ms)]"

section \<open>events/domain/repair.py\<close>

datatype repair_event =
    RepairProposed \<comment> \<open>repair_id, target_ref, diagnosis, patch_diff_hash\<close>
      string string string string
  | RepairAttempted \<comment> \<open>repair_id, attempt, success, duration_ms\<close>
      string int bool int
  | RepairValidated \<comment> \<open>repair_id, validation_method, passed\<close>
      string string bool

fun repair_event_class :: "repair_event \<Rightarrow> event_class" where
  "repair_event_class (RepairProposed _ _ _ _) =
     mk_class ''RepairProposed'' ''repair.proposed'' TOPIC_REPAIR"
| "repair_event_class (RepairAttempted _ _ _ _) =
     mk_class ''RepairAttempted'' ''repair.attempted'' TOPIC_REPAIR"
| "repair_event_class (RepairValidated _ _ _) =
     mk_class ''RepairValidated'' ''repair.validated'' TOPIC_REPAIR"

definition repair_event_classes :: "event_class list" where
  "repair_event_classes =
     [mk_class ''RepairProposed'' ''repair.proposed'' TOPIC_REPAIR,
      mk_class ''RepairAttempted'' ''repair.attempted'' TOPIC_REPAIR,
      mk_class ''RepairValidated'' ''repair.validated'' TOPIC_REPAIR]"

fun repair_event_payload :: "repair_event \<Rightarrow> (string, pyval) dict" where
  "repair_event_payload (RepairProposed x_repair_id x_target_ref x_diagnosis x_patch_diff_hash) =
     [(''repair_id'', PStr x_repair_id),
      (''target_ref'', PStr x_target_ref),
      (''diagnosis'', PStr x_diagnosis),
      (''patch_diff_hash'', PStr x_patch_diff_hash)]"
| "repair_event_payload (RepairAttempted x_repair_id x_attempt x_success x_duration_ms) =
     [(''repair_id'', PStr x_repair_id),
      (''attempt'', PInt x_attempt),
      (''success'', PBool x_success),
      (''duration_ms'', PInt x_duration_ms)]"
| "repair_event_payload (RepairValidated x_repair_id x_validation_method x_passed) =
     [(''repair_id'', PStr x_repair_id),
      (''validation_method'', PStr x_validation_method),
      (''passed'', PBool x_passed)]"

section \<open>events/domain/testing.py\<close>

datatype testing_event =
    TestRunRequested \<comment> \<open>run_id, repo, ref, framework, selectors\<close>
      string string string string "string list"
  | TestRunCompleted \<comment> \<open>run_id, passed, failed, skipped, duration_ms, coverage_pct\<close>
      string int int int int "rat option"
  | TestRunFailed \<comment> \<open>run_id, error_code, error_message, stage\<close>
      string string string string

fun testing_event_class :: "testing_event \<Rightarrow> event_class" where
  "testing_event_class (TestRunRequested _ _ _ _ _) =
     mk_class ''TestRunRequested'' ''testing.run_requested'' TOPIC_TESTING"
| "testing_event_class (TestRunCompleted _ _ _ _ _ _) =
     mk_class ''TestRunCompleted'' ''testing.run_completed'' TOPIC_TESTING"
| "testing_event_class (TestRunFailed _ _ _ _) =
     mk_class ''TestRunFailed'' ''testing.run_failed'' TOPIC_TESTING"

definition testing_event_classes :: "event_class list" where
  "testing_event_classes =
     [mk_class ''TestRunRequested'' ''testing.run_requested'' TOPIC_TESTING,
      mk_class ''TestRunCompleted'' ''testing.run_completed'' TOPIC_TESTING,
      mk_class ''TestRunFailed'' ''testing.run_failed'' TOPIC_TESTING]"

fun testing_event_payload :: "testing_event \<Rightarrow> (string, pyval) dict" where
  "testing_event_payload (TestRunRequested x_run_id x_repo x_ref x_framework x_selectors) =
     [(''run_id'', PStr x_run_id),
      (''repo'', PStr x_repo),
      (''ref'', PStr x_ref),
      (''framework'', PStr x_framework),
      (''selectors'', PList (map PStr x_selectors))]"
| "testing_event_payload (TestRunCompleted x_run_id x_passed x_failed x_skipped x_duration_ms x_coverage_pct) =
     [(''run_id'', PStr x_run_id),
      (''passed'', PInt x_passed),
      (''failed'', PInt x_failed),
      (''skipped'', PInt x_skipped),
      (''duration_ms'', PInt x_duration_ms),
      (''coverage_pct'', dump_opt PFloat x_coverage_pct)]"
| "testing_event_payload (TestRunFailed x_run_id x_error_code x_error_message x_stage) =
     [(''run_id'', PStr x_run_id),
      (''error_code'', PStr x_error_code),
      (''error_message'', PStr x_error_message),
      (''stage'', PStr x_stage)]"

section \<open>events/domain/workflow.py\<close>

datatype workflow_event =
    WorkflowStarted \<comment> \<open>workflow_id, definition, definition_version, inputs_hash\<close>
      string string string string
  | WorkflowStateTransitioned \<comment> \<open>workflow_id, from_state, to_state, trigger\<close>
      string string string string
  | WorkflowCompleted \<comment> \<open>workflow_id, outputs_hash, duration_ms\<close>
      string string int
  | WorkflowFailed \<comment> \<open>workflow_id, failed_state, error_code, error_message\<close>
      string string string string
  | WorkflowCancelled \<comment> \<open>workflow_id, reason\<close>
      string string

fun workflow_event_class :: "workflow_event \<Rightarrow> event_class" where
  "workflow_event_class (WorkflowStarted _ _ _ _) =
     mk_class ''WorkflowStarted'' ''workflow.started'' TOPIC_WORKFLOW"
| "workflow_event_class (WorkflowStateTransitioned _ _ _ _) =
     mk_class ''WorkflowStateTransitioned'' ''workflow.state_transitioned'' TOPIC_WORKFLOW"
| "workflow_event_class (WorkflowCompleted _ _ _) =
     mk_class ''WorkflowCompleted'' ''workflow.completed'' TOPIC_WORKFLOW"
| "workflow_event_class (WorkflowFailed _ _ _ _) =
     mk_class ''WorkflowFailed'' ''workflow.failed'' TOPIC_WORKFLOW"
| "workflow_event_class (WorkflowCancelled _ _) =
     mk_class ''WorkflowCancelled'' ''workflow.cancelled'' TOPIC_WORKFLOW"

definition workflow_event_classes :: "event_class list" where
  "workflow_event_classes =
     [mk_class ''WorkflowStarted'' ''workflow.started'' TOPIC_WORKFLOW,
      mk_class ''WorkflowStateTransitioned'' ''workflow.state_transitioned'' TOPIC_WORKFLOW,
      mk_class ''WorkflowCompleted'' ''workflow.completed'' TOPIC_WORKFLOW,
      mk_class ''WorkflowFailed'' ''workflow.failed'' TOPIC_WORKFLOW,
      mk_class ''WorkflowCancelled'' ''workflow.cancelled'' TOPIC_WORKFLOW]"

fun workflow_event_payload :: "workflow_event \<Rightarrow> (string, pyval) dict" where
  "workflow_event_payload (WorkflowStarted x_workflow_id x_definition x_definition_version x_inputs_hash) =
     [(''workflow_id'', PStr x_workflow_id),
      (''definition'', PStr x_definition),
      (''definition_version'', PStr x_definition_version),
      (''inputs_hash'', PStr x_inputs_hash)]"
| "workflow_event_payload (WorkflowStateTransitioned x_workflow_id x_from_state x_to_state x_trigger) =
     [(''workflow_id'', PStr x_workflow_id),
      (''from_state'', PStr x_from_state),
      (''to_state'', PStr x_to_state),
      (''trigger'', PStr x_trigger)]"
| "workflow_event_payload (WorkflowCompleted x_workflow_id x_outputs_hash x_duration_ms) =
     [(''workflow_id'', PStr x_workflow_id),
      (''outputs_hash'', PStr x_outputs_hash),
      (''duration_ms'', PInt x_duration_ms)]"
| "workflow_event_payload (WorkflowFailed x_workflow_id x_failed_state x_error_code x_error_message) =
     [(''workflow_id'', PStr x_workflow_id),
      (''failed_state'', PStr x_failed_state),
      (''error_code'', PStr x_error_code),
      (''error_message'', PStr x_error_message)]"
| "workflow_event_payload (WorkflowCancelled x_workflow_id x_reason) =
     [(''workflow_id'', PStr x_workflow_id),
      (''reason'', PStr x_reason)]"

section \<open>events/domain/architecture.py\<close>

datatype architecture_event =
    ArchitectureReviewed \<comment> \<open>target, kind, score, finding_count, provider\<close>
      string string int int string
  | ArchitectureDriftDetected \<comment> \<open>target, previous_score, current_score, delta\<close>
      string int int int
  | SpecGenerated \<comment> \<open>target, kind, provider, section_count\<close>
      string string string int

fun architecture_event_class :: "architecture_event \<Rightarrow> event_class" where
  "architecture_event_class (ArchitectureReviewed _ _ _ _ _) =
     mk_class ''ArchitectureReviewed'' ''architecture.reviewed'' TOPIC_REVIEW"
| "architecture_event_class (ArchitectureDriftDetected _ _ _ _) =
     mk_class ''ArchitectureDriftDetected'' ''architecture.drift_detected'' TOPIC_REVIEW"
| "architecture_event_class (SpecGenerated _ _ _ _) =
     mk_class ''SpecGenerated'' ''architecture.spec_generated'' TOPIC_REVIEW"

definition architecture_event_classes :: "event_class list" where
  "architecture_event_classes =
     [mk_class ''ArchitectureReviewed'' ''architecture.reviewed'' TOPIC_REVIEW,
      mk_class ''ArchitectureDriftDetected'' ''architecture.drift_detected'' TOPIC_REVIEW,
      mk_class ''SpecGenerated'' ''architecture.spec_generated'' TOPIC_REVIEW]"

fun architecture_event_payload :: "architecture_event \<Rightarrow> (string, pyval) dict" where
  "architecture_event_payload (ArchitectureReviewed x_target x_kind x_score x_finding_count x_provider) =
     [(''target'', PStr x_target),
      (''kind'', PStr x_kind),
      (''score'', PInt x_score),
      (''finding_count'', PInt x_finding_count),
      (''provider'', PStr x_provider)]"
| "architecture_event_payload (ArchitectureDriftDetected x_target x_previous_score x_current_score x_delta) =
     [(''target'', PStr x_target),
      (''previous_score'', PInt x_previous_score),
      (''current_score'', PInt x_current_score),
      (''delta'', PInt x_delta)]"
| "architecture_event_payload (SpecGenerated x_target x_kind x_provider x_section_count) =
     [(''target'', PStr x_target),
      (''kind'', PStr x_kind),
      (''provider'', PStr x_provider),
      (''section_count'', PInt x_section_count)]"

section \<open>events/domain/chaining.py\<close>

datatype chaining_event =
    NextTaskGenerated \<comment> \<open>parent_task_id, new_task_id, new_task_type, trigger, depth\<close>
      string string string string int
  | RepairTaskCreated \<comment> \<open>failed_task_id, repair_task_id, attempt, depth\<close>
      string string int int
  | EscalationRaised \<comment> \<open>task_id, reason, depth\<close>
      string string int
  | ChainTerminated \<comment> \<open>root_task_id, reason, depth\<close>
      string string int

fun chaining_event_class :: "chaining_event \<Rightarrow> event_class" where
  "chaining_event_class (NextTaskGenerated _ _ _ _ _) =
     mk_class ''NextTaskGenerated'' ''chaining.next_generated'' TOPIC_CHAINING"
| "chaining_event_class (RepairTaskCreated _ _ _ _) =
     mk_class ''RepairTaskCreated'' ''chaining.repair_created'' TOPIC_CHAINING"
| "chaining_event_class (EscalationRaised _ _ _) =
     mk_class ''EscalationRaised'' ''chaining.escalation_raised'' TOPIC_CHAINING"
| "chaining_event_class (ChainTerminated _ _ _) =
     mk_class ''ChainTerminated'' ''chaining.terminated'' TOPIC_CHAINING"

definition chaining_event_classes :: "event_class list" where
  "chaining_event_classes =
     [mk_class ''NextTaskGenerated'' ''chaining.next_generated'' TOPIC_CHAINING,
      mk_class ''RepairTaskCreated'' ''chaining.repair_created'' TOPIC_CHAINING,
      mk_class ''EscalationRaised'' ''chaining.escalation_raised'' TOPIC_CHAINING,
      mk_class ''ChainTerminated'' ''chaining.terminated'' TOPIC_CHAINING]"

fun chaining_event_payload :: "chaining_event \<Rightarrow> (string, pyval) dict" where
  "chaining_event_payload (NextTaskGenerated x_parent_task_id x_new_task_id x_new_task_type x_trigger x_depth) =
     [(''parent_task_id'', PStr x_parent_task_id),
      (''new_task_id'', PStr x_new_task_id),
      (''new_task_type'', PStr x_new_task_type),
      (''trigger'', PStr x_trigger),
      (''depth'', PInt x_depth)]"
| "chaining_event_payload (RepairTaskCreated x_failed_task_id x_repair_task_id x_attempt x_depth) =
     [(''failed_task_id'', PStr x_failed_task_id),
      (''repair_task_id'', PStr x_repair_task_id),
      (''attempt'', PInt x_attempt),
      (''depth'', PInt x_depth)]"
| "chaining_event_payload (EscalationRaised x_task_id x_reason x_depth) =
     [(''task_id'', PStr x_task_id),
      (''reason'', PStr x_reason),
      (''depth'', PInt x_depth)]"
| "chaining_event_payload (ChainTerminated x_root_task_id x_reason x_depth) =
     [(''root_task_id'', PStr x_root_task_id),
      (''reason'', PStr x_reason),
      (''depth'', PInt x_depth)]"

section \<open>events/domain/healing.py\<close>

datatype healing_event =
    FailureAnalyzed \<comment> \<open>task_id, category, signature_key, deterministic_fixable, occurrences\<close>
      string string string bool int
  | RepairDecisionMade \<comment> \<open>task_id, action, attempt, reason\<close>
      string string int string
  | RolledBack \<comment> \<open>task_id, to_ref, reason\<close>
      string string string
  | RepairEscalated \<comment> \<open>task_id, reason, attempts\<close>
      string string int

fun healing_event_class :: "healing_event \<Rightarrow> event_class" where
  "healing_event_class (FailureAnalyzed _ _ _ _ _) =
     mk_class ''FailureAnalyzed'' ''healing.failure_analyzed'' TOPIC_REPAIR"
| "healing_event_class (RepairDecisionMade _ _ _ _) =
     mk_class ''RepairDecisionMade'' ''healing.repair_decided'' TOPIC_REPAIR"
| "healing_event_class (RolledBack _ _ _) =
     mk_class ''RolledBack'' ''healing.rolled_back'' TOPIC_REPAIR"
| "healing_event_class (RepairEscalated _ _ _) =
     mk_class ''RepairEscalated'' ''healing.escalated'' TOPIC_REPAIR"

definition healing_event_classes :: "event_class list" where
  "healing_event_classes =
     [mk_class ''FailureAnalyzed'' ''healing.failure_analyzed'' TOPIC_REPAIR,
      mk_class ''RepairDecisionMade'' ''healing.repair_decided'' TOPIC_REPAIR,
      mk_class ''RolledBack'' ''healing.rolled_back'' TOPIC_REPAIR,
      mk_class ''RepairEscalated'' ''healing.escalated'' TOPIC_REPAIR]"

fun healing_event_payload :: "healing_event \<Rightarrow> (string, pyval) dict" where
  "healing_event_payload (FailureAnalyzed x_task_id x_category x_signature_key x_deterministic_fixable x_occurrences) =
     [(''task_id'', PStr x_task_id),
      (''category'', PStr x_category),
      (''signature_key'', PStr x_signature_key),
      (''deterministic_fixable'', PBool x_deterministic_fixable),
      (''occurrences'', PInt x_occurrences)]"
| "healing_event_payload (RepairDecisionMade x_task_id x_action x_attempt x_reason) =
     [(''task_id'', PStr x_task_id),
      (''action'', PStr x_action),
      (''attempt'', PInt x_attempt),
      (''reason'', PStr x_reason)]"
| "healing_event_payload (RolledBack x_task_id x_to_ref x_reason) =
     [(''task_id'', PStr x_task_id),
      (''to_ref'', PStr x_to_ref),
      (''reason'', PStr x_reason)]"
| "healing_event_payload (RepairEscalated x_task_id x_reason x_attempts) =
     [(''task_id'', PStr x_task_id),
      (''reason'', PStr x_reason),
      (''attempts'', PInt x_attempts)]"

section \<open>events/domain/provider.py\<close>

datatype provider_event =
    ProviderSelected \<comment> \<open>provider, capability, attempt\<close>
      string string int
  | ProviderInvocationSucceeded \<comment> \<open>provider, capability, total_tokens\<close>
      string string int
  | ProviderFailedOver \<comment> \<open>provider, capability, reason, error_code\<close>
      string string string string
  | ProviderCooldownEntered \<comment> \<open>provider, status, cooldown_until, reason\<close>
      string string "string option" string
  | ProviderCreditExhausted \<comment> \<open>provider\<close>
      string
  | ProviderRecovered \<comment> \<open>provider\<close>
      string
  | AllProvidersExhausted \<comment> \<open>capability, tried\<close>
      string "string list"
  | RoutingDecided \<comment> \<open>capability, complexity_score, ordered_providers, reason\<close>
      string rat "string list" string

fun provider_event_class :: "provider_event \<Rightarrow> event_class" where
  "provider_event_class (ProviderSelected _ _ _) =
     mk_class ''ProviderSelected'' ''provider.selected'' TOPIC_PROVIDER"
| "provider_event_class (ProviderInvocationSucceeded _ _ _) =
     mk_class ''ProviderInvocationSucceeded'' ''provider.invocation_succeeded'' TOPIC_PROVIDER"
| "provider_event_class (ProviderFailedOver _ _ _ _) =
     mk_class ''ProviderFailedOver'' ''provider.failed_over'' TOPIC_PROVIDER"
| "provider_event_class (ProviderCooldownEntered _ _ _ _) =
     mk_class ''ProviderCooldownEntered'' ''provider.cooldown_entered'' TOPIC_PROVIDER"
| "provider_event_class (ProviderCreditExhausted _) =
     mk_class ''ProviderCreditExhausted'' ''provider.credit_exhausted'' TOPIC_PROVIDER"
| "provider_event_class (ProviderRecovered _) =
     mk_class ''ProviderRecovered'' ''provider.recovered'' TOPIC_PROVIDER"
| "provider_event_class (AllProvidersExhausted _ _) =
     mk_class ''AllProvidersExhausted'' ''provider.all_exhausted'' TOPIC_PROVIDER"
| "provider_event_class (RoutingDecided _ _ _ _) =
     mk_class ''RoutingDecided'' ''provider.routing_decided'' TOPIC_PROVIDER"

definition provider_event_classes :: "event_class list" where
  "provider_event_classes =
     [mk_class ''ProviderSelected'' ''provider.selected'' TOPIC_PROVIDER,
      mk_class ''ProviderInvocationSucceeded'' ''provider.invocation_succeeded'' TOPIC_PROVIDER,
      mk_class ''ProviderFailedOver'' ''provider.failed_over'' TOPIC_PROVIDER,
      mk_class ''ProviderCooldownEntered'' ''provider.cooldown_entered'' TOPIC_PROVIDER,
      mk_class ''ProviderCreditExhausted'' ''provider.credit_exhausted'' TOPIC_PROVIDER,
      mk_class ''ProviderRecovered'' ''provider.recovered'' TOPIC_PROVIDER,
      mk_class ''AllProvidersExhausted'' ''provider.all_exhausted'' TOPIC_PROVIDER,
      mk_class ''RoutingDecided'' ''provider.routing_decided'' TOPIC_PROVIDER]"

fun provider_event_payload :: "provider_event \<Rightarrow> (string, pyval) dict" where
  "provider_event_payload (ProviderSelected x_provider x_capability x_attempt) =
     [(''provider'', PStr x_provider),
      (''capability'', PStr x_capability),
      (''attempt'', PInt x_attempt)]"
| "provider_event_payload (ProviderInvocationSucceeded x_provider x_capability x_total_tokens) =
     [(''provider'', PStr x_provider),
      (''capability'', PStr x_capability),
      (''total_tokens'', PInt x_total_tokens)]"
| "provider_event_payload (ProviderFailedOver x_provider x_capability x_reason x_error_code) =
     [(''provider'', PStr x_provider),
      (''capability'', PStr x_capability),
      (''reason'', PStr x_reason),
      (''error_code'', PStr x_error_code)]"
| "provider_event_payload (ProviderCooldownEntered x_provider x_status x_cooldown_until x_reason) =
     [(''provider'', PStr x_provider),
      (''status'', PStr x_status),
      (''cooldown_until'', dump_opt PStr x_cooldown_until),
      (''reason'', PStr x_reason)]"
| "provider_event_payload (ProviderCreditExhausted x_provider) =
     [(''provider'', PStr x_provider)]"
| "provider_event_payload (ProviderRecovered x_provider) =
     [(''provider'', PStr x_provider)]"
| "provider_event_payload (AllProvidersExhausted x_capability x_tried) =
     [(''capability'', PStr x_capability),
      (''tried'', PList (map PStr x_tried))]"
| "provider_event_payload (RoutingDecided x_capability x_complexity_score x_ordered_providers x_reason) =
     [(''capability'', PStr x_capability),
      (''complexity_score'', PFloat x_complexity_score),
      (''ordered_providers'', PList (map PStr x_ordered_providers)),
      (''reason'', PStr x_reason)]"

section \<open>events/domain/worker.py\<close>

datatype worker_event =
    TaskExecutionStarted \<comment> \<open>task_id, task_type, worker, branch, attempt\<close>
      string string string string int
  | TaskCodeGenerated \<comment> \<open>task_id, provider, files, total_tokens\<close>
      string string int int
  | TaskStepCompleted \<comment> \<open>task_id, step, exit_code, success, duration_ms\<close>
      string string int bool int
  | TaskExecutionSucceeded \<comment> \<open>task_id, worker, branch, attempts, artifacts\<close>
      string string string int "string list"
  | TaskExecutionFailed \<comment> \<open>task_id, worker, failed_step, attempts, error\<close>
      string string string int string
  | TaskRetryScheduled \<comment> \<open>task_id, attempt, max_attempts, reason\<close>
      string int int string

fun worker_event_class :: "worker_event \<Rightarrow> event_class" where
  "worker_event_class (TaskExecutionStarted _ _ _ _ _) =
     mk_class ''TaskExecutionStarted'' ''worker.task_started'' TOPIC_WORKER"
| "worker_event_class (TaskCodeGenerated _ _ _ _) =
     mk_class ''TaskCodeGenerated'' ''worker.code_generated'' TOPIC_WORKER"
| "worker_event_class (TaskStepCompleted _ _ _ _ _) =
     mk_class ''TaskStepCompleted'' ''worker.step_completed'' TOPIC_WORKER"
| "worker_event_class (TaskExecutionSucceeded _ _ _ _ _) =
     mk_class ''TaskExecutionSucceeded'' ''worker.task_succeeded'' TOPIC_WORKER"
| "worker_event_class (TaskExecutionFailed _ _ _ _ _) =
     mk_class ''TaskExecutionFailed'' ''worker.task_failed'' TOPIC_WORKER"
| "worker_event_class (TaskRetryScheduled _ _ _ _) =
     mk_class ''TaskRetryScheduled'' ''worker.task_retry_scheduled'' TOPIC_WORKER"

definition worker_event_classes :: "event_class list" where
  "worker_event_classes =
     [mk_class ''TaskExecutionStarted'' ''worker.task_started'' TOPIC_WORKER,
      mk_class ''TaskCodeGenerated'' ''worker.code_generated'' TOPIC_WORKER,
      mk_class ''TaskStepCompleted'' ''worker.step_completed'' TOPIC_WORKER,
      mk_class ''TaskExecutionSucceeded'' ''worker.task_succeeded'' TOPIC_WORKER,
      mk_class ''TaskExecutionFailed'' ''worker.task_failed'' TOPIC_WORKER,
      mk_class ''TaskRetryScheduled'' ''worker.task_retry_scheduled'' TOPIC_WORKER]"

fun worker_event_payload :: "worker_event \<Rightarrow> (string, pyval) dict" where
  "worker_event_payload (TaskExecutionStarted x_task_id x_task_type x_worker x_branch x_attempt) =
     [(''task_id'', PStr x_task_id),
      (''task_type'', PStr x_task_type),
      (''worker'', PStr x_worker),
      (''branch'', PStr x_branch),
      (''attempt'', PInt x_attempt)]"
| "worker_event_payload (TaskCodeGenerated x_task_id x_provider x_files x_total_tokens) =
     [(''task_id'', PStr x_task_id),
      (''provider'', PStr x_provider),
      (''files'', PInt x_files),
      (''total_tokens'', PInt x_total_tokens)]"
| "worker_event_payload (TaskStepCompleted x_task_id x_step x_exit_code x_success x_duration_ms) =
     [(''task_id'', PStr x_task_id),
      (''step'', PStr x_step),
      (''exit_code'', PInt x_exit_code),
      (''success'', PBool x_success),
      (''duration_ms'', PInt x_duration_ms)]"
| "worker_event_payload (TaskExecutionSucceeded x_task_id x_worker x_branch x_attempts x_artifacts) =
     [(''task_id'', PStr x_task_id),
      (''worker'', PStr x_worker),
      (''branch'', PStr x_branch),
      (''attempts'', PInt x_attempts),
      (''artifacts'', PList (map PStr x_artifacts))]"
| "worker_event_payload (TaskExecutionFailed x_task_id x_worker x_failed_step x_attempts x_error) =
     [(''task_id'', PStr x_task_id),
      (''worker'', PStr x_worker),
      (''failed_step'', PStr x_failed_step),
      (''attempts'', PInt x_attempts),
      (''error'', PStr x_error)]"
| "worker_event_payload (TaskRetryScheduled x_task_id x_attempt x_max_attempts x_reason) =
     [(''task_id'', PStr x_task_id),
      (''attempt'', PInt x_attempt),
      (''max_attempts'', PInt x_max_attempts),
      (''reason'', PStr x_reason)]"

section \<open>All events\<close>

datatype domain_event =
    Agent_Event agent_event
  | Codegen_Event codegen_event
  | Review_Event review_event
  | Repair_Event repair_event
  | Testing_Event testing_event
  | Workflow_Event workflow_event
  | Architecture_Event architecture_event
  | Chaining_Event chaining_event
  | Healing_Event healing_event
  | Provider_Event provider_event
  | Worker_Event worker_event

fun domain_event_class :: "domain_event \<Rightarrow> event_class" where
  "domain_event_class (Agent_Event e) = agent_event_class e"
| "domain_event_class (Codegen_Event e) = codegen_event_class e"
| "domain_event_class (Review_Event e) = review_event_class e"
| "domain_event_class (Repair_Event e) = repair_event_class e"
| "domain_event_class (Testing_Event e) = testing_event_class e"
| "domain_event_class (Workflow_Event e) = workflow_event_class e"
| "domain_event_class (Architecture_Event e) = architecture_event_class e"
| "domain_event_class (Chaining_Event e) = chaining_event_class e"
| "domain_event_class (Healing_Event e) = healing_event_class e"
| "domain_event_class (Provider_Event e) = provider_event_class e"
| "domain_event_class (Worker_Event e) = worker_event_class e"

fun domain_event_payload :: "domain_event \<Rightarrow> (string, pyval) dict" where
  "domain_event_payload (Agent_Event e) = agent_event_payload e"
| "domain_event_payload (Codegen_Event e) = codegen_event_payload e"
| "domain_event_payload (Review_Event e) = review_event_payload e"
| "domain_event_payload (Repair_Event e) = repair_event_payload e"
| "domain_event_payload (Testing_Event e) = testing_event_payload e"
| "domain_event_payload (Workflow_Event e) = workflow_event_payload e"
| "domain_event_payload (Architecture_Event e) = architecture_event_payload e"
| "domain_event_payload (Chaining_Event e) = chaining_event_payload e"
| "domain_event_payload (Healing_Event e) = healing_event_payload e"
| "domain_event_payload (Provider_Event e) = provider_event_payload e"
| "domain_event_payload (Worker_Event e) = worker_event_payload e"

definition all_event_classes :: "event_class list" where
  "all_event_classes =
     agent_event_classes @ codegen_event_classes @ review_event_classes @ repair_event_classes @
     testing_event_classes @ workflow_event_classes @ architecture_event_classes @
     chaining_event_classes @ healing_event_classes @ provider_event_classes @
     worker_event_classes"

lemmas event_classes_defs =
  agent_event_classes_def codegen_event_classes_def review_event_classes_def
  repair_event_classes_def testing_event_classes_def workflow_event_classes_def
  architecture_event_classes_def chaining_event_classes_def healing_event_classes_def
  provider_event_classes_def worker_event_classes_def

section \<open>events/base.py: envelope\<close>

record event_metadata =
  event_id :: string
  correlation_id :: string
  causation_id :: "string option"
  occurred_at :: time
  producer :: string
  tenant_id :: "string option"
  schema_version :: int

text \<open>
  \<open>EventMetadata()\<close>: the identifier, the correlation identifier and the time come from
  their generators.
\<close>

definition new_metadata :: "string \<Rightarrow> string \<Rightarrow> time \<Rightarrow> event_metadata" where
  "new_metadata i c t =
     \<lparr>event_id = i, correlation_id = c, causation_id = None, occurred_at = t,
      producer = ''aine-runtime'', tenant_id = None, schema_version = 1\<rparr>"

text \<open>
  \<open>dump_time\<close> is the JSON form the validation library gives a timestamp; nothing below
  depends on it.
\<close>

definition metadata_dump :: "(time \<Rightarrow> string) \<Rightarrow> event_metadata \<Rightarrow> (string, pyval) dict" where
  "metadata_dump dump_time m =
     [(''event_id'', PStr (event_id m)),
      (''correlation_id'', PStr (correlation_id m)),
      (''causation_id'', dump_opt PStr (causation_id m)),
      (''occurred_at'', PStr (dump_time (occurred_at m))),
      (''producer'', PStr (producer m)),
      (''tenant_id'', dump_opt PStr (tenant_id m)),
      (''schema_version'', PInt (schema_version m))]"

definition to_envelope ::
  "(time \<Rightarrow> string) \<Rightarrow> event_metadata \<Rightarrow> domain_event \<Rightarrow> (string, pyval) dict" where
  "to_envelope dump_time m e =
     (let c = domain_event_class e in
      [(''type'', PStr (event_type c)),
       (''version'', PInt (event_version c)),
       (''topic'', PStr (topic_value (event_topic c))),
       (''metadata'', PDict (metadata_dump dump_time m)),
       (''payload'', PDict (domain_event_payload e))])"

section \<open>events/schema.py: the registry\<close>

definition event_key :: "event_class \<Rightarrow> string" where
  "event_key c = event_type c @ ''@'' @ int_str (event_version c)"

text \<open>
  \<open>register_event\<close>: a second class under a taken key raises; registering the same class
  again is harmless.
\<close>

definition register_event_key ::
  "string \<Rightarrow> event_class \<Rightarrow> (string, event_class) dict \<Rightarrow> exn + (string, event_class) dict" where
  "register_event_key key c reg =
     (if dict_has reg key \<and> dict_get reg key \<noteq> Some c
      then Inl (PyExn ''RuntimeError'' (''Duplicate event registration: '' @ key))
      else Inr (dict_set key c reg))"

definition register_event ::
  "event_class \<Rightarrow> (string, event_class) dict \<Rightarrow> exn + (string, event_class) dict" where
  "register_event c reg = register_event_key (event_key c) c reg"

text \<open>The registry after the decorated classes of a list of modules.\<close>

fun register_events ::
  "event_class list \<Rightarrow> (string, event_class) dict \<Rightarrow> exn + (string, event_class) dict" where
  "register_events [] reg = Inr reg"
| "register_events (c # cs) reg = try_bind (register_event c reg) (register_events cs)"

interpretation evreg: guarded_registry dict_get register_event_key
proof unfold_locales
  fix s :: "(string, event_class) dict" and k v
  assume "dict_get s k = None"
  then show "\<exists>s'. register_event_key k v s = Inr s' \<and> dict_get s' = (dict_get s)(k \<mapsto> v)"
    by (auto simp: register_event_key_def dict_has_get fun_eq_iff)
next
  fix s :: "(string, event_class) dict" and k v w s'
  assume "dict_get s k = Some w" "register_event_key k v s = Inr s'"
  then show "w = v \<and> dict_get s' = dict_get s"
    by (auto simp: register_event_key_def dict_has_get fun_eq_iff split: if_splits)
qed

lemma register_events_all:
  "register_events cs reg = evreg.register_all (map (\<lambda>c. (event_key c, c)) cs) reg"
  by (induction cs arbitrary: reg)
     (auto simp: register_event_def evreg.register_all.simps split: sum.splits)

lemma event_class_registered: "domain_event_class e \<in> set all_event_classes"
proof (cases e)
  case (Agent_Event x) then show ?thesis
    by (cases x) (simp_all add: all_event_classes_def agent_event_classes_def)
next
  case (Codegen_Event x) then show ?thesis
    by (cases x) (simp_all add: all_event_classes_def codegen_event_classes_def)
next
  case (Review_Event x) then show ?thesis
    by (cases x) (simp_all add: all_event_classes_def review_event_classes_def)
next
  case (Repair_Event x) then show ?thesis
    by (cases x) (simp_all add: all_event_classes_def repair_event_classes_def)
next
  case (Testing_Event x) then show ?thesis
    by (cases x) (simp_all add: all_event_classes_def testing_event_classes_def)
next
  case (Workflow_Event x) then show ?thesis
    by (cases x) (simp_all add: all_event_classes_def workflow_event_classes_def)
next
  case (Architecture_Event x) then show ?thesis
    by (cases x) (simp_all add: all_event_classes_def architecture_event_classes_def)
next
  case (Chaining_Event x) then show ?thesis
    by (cases x) (simp_all add: all_event_classes_def chaining_event_classes_def)
next
  case (Healing_Event x) then show ?thesis
    by (cases x) (simp_all add: all_event_classes_def healing_event_classes_def)
next
  case (Provider_Event x) then show ?thesis
    by (cases x) (simp_all add: all_event_classes_def provider_event_classes_def)
next
  case (Worker_Event x) then show ?thesis
    by (cases x) (simp_all add: all_event_classes_def worker_event_classes_def)
qed

lemma event_key_mk_class [simp]: "event_key (mk_class n ty tp) = ty @ ''@1''"
  by (simp add: event_key_def mk_class_def int_str_def nat_digits.simps)

lemma event_keys_distinct: "distinct (map event_key all_event_classes)"
  by (simp add: all_event_classes_def event_classes_defs)

section \<open>Event buses\<close>

text \<open>
  A component holds an event bus or \<open>None\<close>. The bus is a port; what the components do with
  it is to publish events in order, so it is the log of what was published.
\<close>

type_synonym event_bus = "domain_event list option"

definition publish :: "domain_event \<Rightarrow> event_bus \<Rightarrow> event_bus" where
  "publish e b = map_option (\<lambda>evs. evs @ [e]) b"

definition published :: "event_bus \<Rightarrow> domain_event list" where
  "published b = (case b of None \<Rightarrow> [] | Some evs \<Rightarrow> evs)"

lemma publish_None [simp]: "publish e None = None"
  by (simp add: publish_def)

lemma publish_Some: "publish e (Some evs) = Some (evs @ [e])"
  by (simp add: publish_def)

lemma published_None [simp]: "published None = []"
  by (simp add: published_def)

lemma published_Some [simp]: "published (Some evs) = evs"
  by (simp add: published_def)

lemma published_publish [simp]: "b \<noteq> None \<Longrightarrow> published (publish e b) = published b @ [e]"
  by (auto simp: publish_def published_def)

lemma publish_eq_None [simp]: "publish e b = None \<longleftrightarrow> b = None"
  by (simp add: publish_def)

section \<open>Properties\<close>

text \<open>
  Importing the event modules, in any order, registers every event class without a
  duplicate, and the type and version in the envelope of any event lead back to its class.
\<close>

theorem event_catalogue_complete:
  assumes "distinct cs" "set cs = set all_event_classes"
  shows "\<exists>reg. register_events cs [] = Inr reg \<and>
           (\<forall>dump_time m e ty v.
              dict_get (to_envelope dump_time m e) ''type'' = Some (PStr ty) \<longrightarrow>
              dict_get (to_envelope dump_time m e) ''version'' = Some (PInt v) \<longrightarrow>
              dict_get reg (ty @ ''@'' @ int_str v) = Some (domain_event_class e))"
proof -
  let ?kvs = "map (\<lambda>c. (event_key c, c)) cs"
  have "inj_on event_key (set cs)"
    using event_keys_distinct assms(2) by (simp add: distinct_map)
  with assms(1) have dist: "distinct (map fst ?kvs)" by (simp add: distinct_map comp_def)
  then obtain reg where reg: "register_events cs [] = Inr reg"
    using evreg.register_all_accepts [of ?kvs "[]"] by (auto simp: register_events_all)
  have "dict_get reg (event_key (domain_event_class e)) = Some (domain_event_class e)" for e
  proof -
    have "(event_key (domain_event_class e), domain_event_class e) \<in> set ?kvs"
      using event_class_registered [of e] assms(2) by auto
    with dist have "map_of ?kvs (event_key (domain_event_class e)) = Some (domain_event_class e)"
      by (rule map_of_is_SomeI)
    with evreg.register_all_entry [of ?kvs "[]" reg] reg show ?thesis by (simp add: register_events_all)
  qed
  with reg show ?thesis by (auto simp: to_envelope_def event_key_def Let_def)
qed

theorem event_catalogue_complete_witness:
  "\<exists>reg. register_events (rev all_event_classes) [] = Inr reg"
proof -
  have "distinct (rev all_event_classes)" using event_keys_distinct by (simp add: distinct_map)
  from event_catalogue_complete [OF this] show ?thesis by auto
qed

end
