(* ===== verification/Provider_State.thy ===== *)
theory Provider_State
  imports Events
begin

text \<open>
  The value objects of \<open>providers/state.py\<close> and \<open>contracts/llm_provider.py\<close>: capabilities,
  statuses, the immutable profile, the mutable health, requests and responses, and the
  remaining budget.
\<close>

datatype Capability =
  ARCHITECTURE | CODE_GENERATION | REVIEW | ANALYSIS | EXTRACTION | EMBEDDING

fun capability_value :: "Capability \<Rightarrow> string" where
  "capability_value ARCHITECTURE = ''architecture''"
| "capability_value CODE_GENERATION = ''code_generation''"
| "capability_value REVIEW = ''review''"
| "capability_value ANALYSIS = ''analysis''"
| "capability_value EXTRACTION = ''extraction''"
| "capability_value EMBEDDING = ''embedding''"

datatype ProviderStatus = AVAILABLE | RATE_LIMITED | OFFLINE | COOLDOWN | FAILED

fun status_value :: "ProviderStatus \<Rightarrow> string" where
  "status_value AVAILABLE = ''AVAILABLE''"
| "status_value RATE_LIMITED = ''RATE_LIMITED''"
| "status_value OFFLINE = ''OFFLINE''"
| "status_value COOLDOWN = ''COOLDOWN''"
| "status_value FAILED = ''FAILED''"

definition unavailable_statuses :: "ProviderStatus set" where
  "unavailable_statuses = {RATE_LIMITED, OFFLINE, COOLDOWN, FAILED}"

definition is_unavailable_status :: "ProviderStatus \<Rightarrow> bool" where
  "is_unavailable_status s \<longleftrightarrow> s \<in> unavailable_statuses"

record ProviderProfile =
  profile_name :: string
  capabilities :: "Capability set"
  cost_per_1k_tokens :: rat
  context_window :: int
  weight :: rat
  max_consecutive_failures :: int
  cooldown_seconds :: rat
  credit_exhausted_cooldown_seconds :: rat
  daily_token_budget :: "int option"

text \<open>A profile with the defaults of the class.\<close>

definition mk_profile :: "string \<Rightarrow> Capability set \<Rightarrow> rat \<Rightarrow> int \<Rightarrow> ProviderProfile" where
  "mk_profile n caps cost ctx =
     \<lparr>profile_name = n, capabilities = caps, cost_per_1k_tokens = cost, context_window = ctx,
      weight = 1, max_consecutive_failures = 3, cooldown_seconds = 60,
      credit_exhausted_cooldown_seconds = 1800, daily_token_budget = None\<rparr>"

definition supports :: "ProviderProfile \<Rightarrow> Capability \<Rightarrow> bool" where
  "supports p c \<longleftrightarrow> c \<in> capabilities p"

record ProviderHealth =
  health_status :: ProviderStatus
  consecutive_failures :: int
  cooldown_until :: "time option"
  tokens_used :: int
  total_requests :: int
  total_failures :: int
  last_error :: "string option"
  last_used_at :: "time option"

definition new_health :: ProviderHealth where
  "new_health =
     \<lparr>health_status = AVAILABLE, consecutive_failures = 0, cooldown_until = None, tokens_used = 0,
      total_requests = 0, total_failures = 0, last_error = None, last_used_at = None\<rparr>"

text \<open>\<open>dataclasses.replace(self)\<close>: a copy, field by field.\<close>

definition snapshot :: "ProviderHealth \<Rightarrow> ProviderHealth" where
  "snapshot h =
     \<lparr>health_status = health_status h, consecutive_failures = consecutive_failures h,
      cooldown_until = cooldown_until h, tokens_used = tokens_used h,
      total_requests = total_requests h, total_failures = total_failures h,
      last_error = last_error h, last_used_at = last_used_at h\<rparr>"

definition remaining_budget :: "ProviderHealth \<Rightarrow> int option \<Rightarrow> int option" where
  "remaining_budget h budget =
     (case budget of None \<Rightarrow> None | Some b \<Rightarrow> Some (max 0 (b - tokens_used h)))"

record ProviderInvocation =
  inv_provider :: string
  inv_content :: string
  inv_total_tokens :: int
  inv_attempts :: nat
  failed_over_from :: "string list"

section \<open>contracts/llm_provider.py\<close>

record LLMMessage =
  msg_role :: string
  msg_content :: string
  msg_metadata :: "(string, pyval) dict"

record LLMRequest =
  req_model :: string
  messages :: "LLMMessage list"
  max_tokens :: "int option"
  temperature :: "rat option"
  top_p :: "rat option"
  stop :: "string list option"
  response_format :: "string option"
  req_tools :: "(string, pyval) dict list option"
  req_metadata :: "(string, pyval) dict"

record LLMUsage =
  prompt_tokens :: int
  completion_tokens :: int
  total_tokens :: int

record LLMResponse =
  resp_model :: string
  resp_content :: string
  finish_reason :: string
  usage :: LLMUsage
  tool_calls :: "(string, pyval) dict list"
  resp_metadata :: "(string, pyval) dict"

section \<open>Facts\<close>

lemma snapshot_id [simp]: "snapshot h = h"
  by (simp add: snapshot_def)

lemma unavailable_iff: "is_unavailable_status s \<longleftrightarrow> s \<noteq> AVAILABLE"
  by (cases s) (simp_all add: is_unavailable_status_def unavailable_statuses_def)

lemma remaining_budget_nonneg: "remaining_budget h b = Some r \<Longrightarrow> 0 \<le> r"
  by (auto simp: remaining_budget_def split: option.splits)

lemma status_value_inj: "status_value s = status_value t \<longleftrightarrow> s = t"
  by (cases s; cases t) simp_all

lemma capability_value_inj: "capability_value c = capability_value d \<longleftrightarrow> c = d"
  by (cases c; cases d) simp_all

end
