(* ===== verification/Provider_Base.thy ===== *)
theory Provider_Base
  imports Provider_State
begin

text \<open>
  \<open>providers/base.py\<close> and \<open>providers/implementations.py\<close>: a vendor wrapped with health,
  cooldown and budget.

  The clock and the vendor are the environment: \<open>clock n\<close> is the reading and
  \<open>vendor name request n\<close> the outcome of the call made at the \<open>n\<close>-th interaction with the
  outside world. Operations that read the clock or call the vendor take the number of
  interactions so far and return the number after them. The operations with explicit
  readings (\<open>refresh\<close>, \<open>record_success\<close>, \<open>record_failure\<close>, \<open>complete_at\<close>) carry the
  logic and the lemmas.
\<close>

section \<open>Providers\<close>

text \<open>
  What \<open>_invoke\<close> of the provider's class does: delegate to an adapter
  (\<open>_AdapterProvider\<close>), the local provider with or without an adapter, or any other
  subclass of \<open>BaseProvider\<close>.
\<close>

datatype backend = AdapterBackend | LocalBackend bool | CustomBackend

record provider =
  profile :: ProviderProfile
  health :: ProviderHealth
  backend :: backend

abbreviation provider_name :: "provider \<Rightarrow> string" where
  "provider_name p \<equiv> profile_name (profile p)"

abbreviation status :: "provider \<Rightarrow> ProviderStatus" where
  "status p \<equiv> health_status (health p)"

definition new_provider :: "ProviderProfile \<Rightarrow> backend \<Rightarrow> provider" where
  "new_provider prof b = \<lparr>profile = prof, health = new_health, backend = b\<rparr>"

record environment =
  clock :: "nat \<Rightarrow> time"
  vendor :: "string \<Rightarrow> LLMRequest \<Rightarrow> nat \<Rightarrow> exn + LLMResponse"

section \<open>Availability and budget\<close>

definition refresh :: "time \<Rightarrow> provider \<Rightarrow> bool \<times> provider" where
  "refresh now p =
     (if status p \<in> {COOLDOWN, RATE_LIMITED, OFFLINE} \<and>
         (case cooldown_until (health p) of None \<Rightarrow> False | Some t \<Rightarrow> t \<le> now)
      then (True, p\<lparr>health := (health p)
             \<lparr>health_status := AVAILABLE, consecutive_failures := 0, cooldown_until := None,
              last_error := None\<rparr>\<rparr>)
      else (False, p))"

definition is_available_at :: "time \<Rightarrow> provider \<Rightarrow> bool \<times> provider" where
  "is_available_at now p = (let p' = snd (refresh now p) in (status p' = AVAILABLE, p'))"

definition is_available :: "environment \<Rightarrow> nat \<Rightarrow> provider \<Rightarrow> bool \<times> provider \<times> nat" where
  "is_available env n p =
     (case is_available_at (clock env n) p of (b, p') \<Rightarrow> (b, p', n + 1))"

definition has_budget :: "provider \<Rightarrow> int \<Rightarrow> bool" where
  "has_budget p estimated =
     (case remaining_budget (health p) (daily_token_budget (profile p)) of
        None \<Rightarrow> True
      | Some r \<Rightarrow> if r \<le> 0 then False else estimated \<le> r)"

section \<open>Recording the outcome of an invocation\<close>

definition record_success :: "time \<Rightarrow> LLMResponse \<Rightarrow> provider \<Rightarrow> provider" where
  "record_success now r p = p\<lparr>health := (health p)
     \<lparr>health_status := AVAILABLE, consecutive_failures := 0, cooldown_until := None,
      last_error := None, last_used_at := Some now,
      tokens_used := tokens_used (health p) + total_tokens (usage r)\<rparr>\<rparr>"

definition record_failure :: "time \<Rightarrow> error_class \<Rightarrow> string \<Rightarrow> provider \<Rightarrow> provider" where
  "record_failure now c msg p =
     (let prof = profile p;
          h = (health p)\<lparr>total_failures := total_failures (health p) + 1,
                         last_error := Some (err_code c @ '': '' @ msg)\<rparr>
      in if issubclass c ProviderRateLimited then
           p\<lparr>health := h\<lparr>health_status := RATE_LIMITED,
                         cooldown_until := Some (now + seconds_to_us (cooldown_seconds prof))\<rparr>\<rparr>
         else if issubclass c ProviderCreditExhaustedError then
           p\<lparr>health := h\<lparr>health_status := OFFLINE,
                         cooldown_until :=
                           Some (now + seconds_to_us (credit_exhausted_cooldown_seconds prof))\<rparr>\<rparr>
         else
           let k = consecutive_failures h + 1; h1 = h\<lparr>consecutive_failures := k\<rparr> in
           if max_consecutive_failures prof \<le> k
           then p\<lparr>health := h1\<lparr>health_status := FAILED,
                               cooldown_until := Some (now + seconds_to_us (cooldown_seconds prof))\<rparr>\<rparr>
           else p\<lparr>health := h1\<rparr>)"

section \<open>Invocation\<close>

definition unavailable_error :: "provider \<Rightarrow> exn" where
  "unavailable_error p =
     Exn ProviderUnavailable
       (''provider '' @ repr_str (provider_name p) @ '' is '' @ status_value (status p) @
        '' (not available)'')"

text \<open>
  \<open>complete\<close> with its clock readings and the outcome of \<open>_invoke\<close> given: \<open>t1\<close> is read by
  the availability check, \<open>t2\<close> when the outcome is recorded.
\<close>

definition complete_at ::
  "time \<Rightarrow> exn + LLMResponse \<Rightarrow> time \<Rightarrow> provider \<Rightarrow> (exn + LLMResponse) \<times> provider" where
  "complete_at t1 outcome t2 p =
     (case is_available_at t1 p of (ok, p1) \<Rightarrow>
        if \<not> ok then (Inl (unavailable_error p1), p1)
        else
          let p2 = p1\<lparr>health := (health p1)\<lparr>total_requests := total_requests (health p1) + 1\<rparr>\<rparr> in
          (case outcome of
             Inr r \<Rightarrow> (Inr r, record_success t2 r p2)
           | Inl (Exn c m) \<Rightarrow>
               if issubclass c ProviderError
               then (Inl (Exn c m), record_failure t2 c m p2)
               else (Inl (Exn c m), p2)
           | Inl (PyExn n m) \<Rightarrow> (Inl (PyExn n m), p2)))"

definition wrap_exn :: "string \<Rightarrow> exn + LLMResponse \<Rightarrow> exn + LLMResponse" where
  "wrap_exn prefix r =
     (case r of
        Inr x \<Rightarrow> Inr x
      | Inl e \<Rightarrow> if isinstance_exn e ProviderError then Inl e
                else Inl (Exn ProviderError (prefix @ '' invocation failed: '' @ exn_message e)))"

text \<open>The degraded answer of the local provider without an adapter.\<close>

definition local_fallback :: "LLMRequest \<Rightarrow> LLMResponse" where
  "local_fallback req =
     (let last_user = (case List.find (\<lambda>m. msg_role m = ''user'') (rev (messages req)) of
                         None \<Rightarrow> '''' | Some m \<Rightarrow> msg_content m);
          content = py_strip (''[local-fallback] '' @ last_user);
          approx = max 1 (int (length content) div 4)
      in \<lparr>resp_model = ''local-fallback'', resp_content = content, finish_reason = ''stop'',
          usage = \<lparr>prompt_tokens = approx, completion_tokens = approx, total_tokens = 2 * approx\<rparr>,
          tool_calls = [], resp_metadata = [(''degraded'', PBool True)]\<rparr>)"

definition invoke :: "environment \<Rightarrow> nat \<Rightarrow> provider \<Rightarrow> LLMRequest \<Rightarrow> exn + LLMResponse" where
  "invoke env n p req =
     (case backend p of
        AdapterBackend \<Rightarrow> wrap_exn (provider_name p) (vendor env (provider_name p) req n)
      | LocalBackend has_adapter \<Rightarrow>
          if has_adapter then wrap_exn ''local'' (vendor env (provider_name p) req n)
          else Inr (local_fallback req)
      | CustomBackend \<Rightarrow> vendor env (provider_name p) req n)"

definition complete ::
  "environment \<Rightarrow> nat \<Rightarrow> LLMRequest \<Rightarrow> provider \<Rightarrow> (exn + LLMResponse) \<times> provider \<times> nat" where
  "complete env n req p =
     (case complete_at (clock env n) (invoke env (n + 1) p req) (clock env (n + 2)) p of
        (r, p') \<Rightarrow> (r, p', n + 3))"

section \<open>The concrete providers\<close>

definition claude_profile :: ProviderProfile where
  "claude_profile =
     mk_profile ''claude'' {ARCHITECTURE, REVIEW, ANALYSIS, CODE_GENERATION} 15 200000"

definition opencode_profile :: ProviderProfile where
  "opencode_profile = mk_profile ''opencode'' {CODE_GENERATION, REVIEW} 2 128000"

definition openai_profile :: ProviderProfile where
  "openai_profile =
     mk_profile ''openai'' {CODE_GENERATION, REVIEW, ANALYSIS, EXTRACTION} 1 128000"

definition gemini_profile :: ProviderProfile where
  "gemini_profile =
     mk_profile ''gemini'' {EXTRACTION, CODE_GENERATION, ANALYSIS, EMBEDDING} (1 / 2) 1000000"

definition local_profile :: ProviderProfile where
  "local_profile =
     (mk_profile ''local'' {EXTRACTION, CODE_GENERATION} 0 32000)\<lparr>weight := 1 / 10\<rparr>"

text \<open>The constructors; the profile is the default one unless another is given.\<close>

definition or_profile :: "ProviderProfile option \<Rightarrow> ProviderProfile \<Rightarrow> ProviderProfile" where
  "or_profile prof dflt = (case prof of None \<Rightarrow> dflt | Some p \<Rightarrow> p)"

definition ClaudeProvider :: "ProviderProfile option \<Rightarrow> provider" where
  "ClaudeProvider prof = new_provider (or_profile prof claude_profile) AdapterBackend"

definition OpenCodeProvider :: "ProviderProfile option \<Rightarrow> provider" where
  "OpenCodeProvider prof = new_provider (or_profile prof opencode_profile) AdapterBackend"

definition OpenAIProvider :: "ProviderProfile option \<Rightarrow> provider" where
  "OpenAIProvider prof = new_provider (or_profile prof openai_profile) AdapterBackend"

definition GeminiProvider :: "ProviderProfile option \<Rightarrow> provider" where
  "GeminiProvider prof = new_provider (or_profile prof gemini_profile) AdapterBackend"

definition LocalProvider :: "bool \<Rightarrow> ProviderProfile option \<Rightarrow> provider" where
  "LocalProvider has_adapter prof = new_provider (or_profile prof local_profile) (LocalBackend has_adapter)"

lemmas provider_classes =
  ClaudeProvider_def OpenCodeProvider_def OpenAIProvider_def GeminiProvider_def LocalProvider_def or_profile_def

section \<open>Frame facts\<close>

lemmas provider_step_defs [step_defs] =
  refresh_def is_available_at_def record_success_def record_failure_def complete_at_def

lemma refresh_profile [simp]: "profile (snd (refresh now p)) = profile p"
  by (simp add: refresh_def)

lemma refresh_backend [simp]: "backend (snd (refresh now p)) = backend p"
  by (simp add: refresh_def)

lemma refresh_counts [simp]:
  "total_requests (health (snd (refresh now p))) = total_requests (health p)"
  "total_failures (health (snd (refresh now p))) = total_failures (health p)"
  "tokens_used (health (snd (refresh now p))) = tokens_used (health p)"
  by (simp_all add: refresh_def)

lemma is_available_at_simps [simp]:
  "fst (is_available_at now p) \<longleftrightarrow> status (snd (refresh now p)) = AVAILABLE"
  "snd (is_available_at now p) = snd (refresh now p)"
  by (simp_all add: is_available_at_def Let_def)

lemma record_success_frame [simp]:
  "profile (record_success t r p) = profile p" "backend (record_success t r p) = backend p"
  by (simp_all add: record_success_def)

lemma record_failure_frame [simp]:
  "profile (record_failure t c m p) = profile p" "backend (record_failure t c m p) = backend p"
  by (simp_all add: record_failure_def Let_def)

lemma record_failure_counts [simp]:
  "total_requests (health (record_failure t c m p)) = total_requests (health p)"
  "total_failures (health (record_failure t c m p)) = total_failures (health p) + 1"
  "tokens_used (health (record_failure t c m p)) = tokens_used (health p)"
  by (simp_all add: record_failure_def Let_def)

lemma complete_at_frame [simp]:
  "profile (snd (complete_at t1 out t2 p)) = profile p"
  "backend (snd (complete_at t1 out t2 p)) = backend p"
  by (auto simp: complete_at_def is_available_at_def Let_def split: sum.splits exn.splits)

text \<open>The two ways through \<open>complete\<close>: refused, or served by the vendor.\<close>

lemma complete_at_refused:
  "\<not> fst (is_available_at t1 p) \<Longrightarrow>
     complete_at t1 out t2 p = (Inl (unavailable_error (snd (refresh t1 p))), snd (refresh t1 p))"
  by (simp add: complete_at_def is_available_at_def Let_def)

definition count_request :: "provider \<Rightarrow> provider" where
  "count_request p = p\<lparr>health := (health p)\<lparr>total_requests := total_requests (health p) + 1\<rparr>\<rparr>"

lemma count_request_simps [simp]:
  "profile (count_request p) = profile p" "status (count_request p) = status p"
  "total_requests (health (count_request p)) = total_requests (health p) + 1"
  "total_failures (health (count_request p)) = total_failures (health p)"
  "tokens_used (health (count_request p)) = tokens_used (health p)"
  "consecutive_failures (health (count_request p)) = consecutive_failures (health p)"
  "cooldown_until (health (count_request p)) = cooldown_until (health p)"
  by (simp_all add: count_request_def)

text \<open>What is recorded about the outcome of a call that reached the vendor.\<close>

definition record_outcome :: "time \<Rightarrow> exn + LLMResponse \<Rightarrow> provider \<Rightarrow> provider" where
  "record_outcome t out p =
     (case out of
        Inr r \<Rightarrow> record_success t r p
      | Inl (Exn c m) \<Rightarrow> if issubclass c ProviderError then record_failure t c m p else p
      | Inl (PyExn n m) \<Rightarrow> p)"

lemma complete_at_served:
  "fst (is_available_at t1 p) \<Longrightarrow>
     complete_at t1 out t2 p = (out, record_outcome t2 out (count_request (snd (refresh t1 p))))"
  by (simp add: complete_at_def is_available_at_def record_outcome_def count_request_def Let_def
      split: sum.split exn.split)

section \<open>The circuit breaker a provider implements\<close>

text \<open>
  The availability logic, abstracted: closed with a number of consecutive failures, open
  until a time, or tripped for good. A call outside the closed state never reaches the
  vendor.
\<close>

datatype breaker = Closed int | Open time | Tripped

datatype outcome_kind = Success | Rate_limit | Credit | Generic | Foreign

fun kind_of :: "exn + LLMResponse \<Rightarrow> outcome_kind" where
  "kind_of (Inr r) = Success"
| "kind_of (Inl (PyExn n m)) = Foreign"
| "kind_of (Inl (Exn c m)) =
     (if c = ProviderRateLimited then Rate_limit
      else if c = ProviderCreditExhaustedError then Credit
      else if issubclass c ProviderError then Generic else Foreign)"

definition breaker_of :: "provider \<Rightarrow> breaker" where
  "breaker_of p =
     (if status p = AVAILABLE then Closed (consecutive_failures (health p))
      else if status p = FAILED then Tripped
      else (case cooldown_until (health p) of None \<Rightarrow> Tripped | Some t \<Rightarrow> Open t))"

fun breaker_refresh :: "time \<Rightarrow> breaker \<Rightarrow> breaker" where
  "breaker_refresh now (Open t) = (if t \<le> now then Closed 0 else Open t)"
| "breaker_refresh now b = b"

fun breaker_record :: "ProviderProfile \<Rightarrow> time \<Rightarrow> outcome_kind \<Rightarrow> int \<Rightarrow> breaker" where
  "breaker_record prof t Success k = Closed 0"
| "breaker_record prof t Rate_limit k = Open (t + seconds_to_us (cooldown_seconds prof))"
| "breaker_record prof t Credit k = Open (t + seconds_to_us (credit_exhausted_cooldown_seconds prof))"
| "breaker_record prof t Generic k =
     (if max_consecutive_failures prof \<le> k + 1 then Tripped else Closed (k + 1))"
| "breaker_record prof t Foreign k = Closed k"

definition breaker_call ::
  "ProviderProfile \<Rightarrow> time \<Rightarrow> outcome_kind \<Rightarrow> time \<Rightarrow> breaker \<Rightarrow> breaker" where
  "breaker_call prof t1 out t2 b =
     (case breaker_refresh t1 b of Closed k \<Rightarrow> breaker_record prof t2 out k | b' \<Rightarrow> b')"

lemma breaker_of_refresh: "breaker_of (snd (refresh now p)) = breaker_refresh now (breaker_of p)"
  by (cases "status p") (auto simp: breaker_of_def refresh_def split: option.splits)

lemma breaker_closed_iff: "(\<exists>k. breaker_of p = Closed k) \<longleftrightarrow> status p = AVAILABLE"
  by (auto simp: breaker_of_def split: option.splits)

lemma breaker_of_count [simp]: "breaker_of (count_request p) = breaker_of p"
  by (simp add: breaker_of_def)

lemma breaker_of_record:
  "status p = AVAILABLE \<Longrightarrow>
     breaker_of (record_outcome t out p) =
       breaker_record (profile p) t (kind_of out) (consecutive_failures (health p))"
  by (cases out rule: kind_of.cases)
     (auto simp: record_outcome_def breaker_of_def record_success_def record_failure_def Let_def)

lemma breaker_of_complete_at:
  "breaker_of (snd (complete_at t1 out t2 p)) =
     breaker_call (profile p) t1 (kind_of out) t2 (breaker_of p)"
proof (cases "fst (is_available_at t1 p)")
  case True
  let ?q = "count_request (snd (refresh t1 p))"
  from True have av: "status ?q = AVAILABLE" by simp
  then have "breaker_of ?q = Closed (consecutive_failures (health ?q))"
    by (simp add: breaker_of_def)
  then show ?thesis
    using breaker_of_record [OF av, of t2 out] True
    by (simp add: complete_at_served breaker_call_def flip: breaker_of_refresh)
next
  case False
  then have "\<And>k. breaker_refresh t1 (breaker_of p) \<noteq> Closed k"
    using breaker_closed_iff [of "snd (refresh t1 p)"] by (auto simp: breaker_of_refresh)
  with False show ?thesis
    by (auto simp: complete_at_refused breaker_call_def breaker_of_refresh split: breaker.split)
qed

section \<open>Operations on one provider\<close>

datatype provider_op =
    Op_available time
  | Op_complete time "exn + LLMResponse" time

fun provider_step :: "provider \<Rightarrow> provider_op \<Rightarrow> provider" where
  "provider_step p (Op_available t) = snd (is_available_at t p)"
| "provider_step p (Op_complete t1 out t2) = snd (complete_at t1 out t2 p)"

text \<open>
  What holds of every provider in the life of the program: it is never in the status
  \<open>COOLDOWN\<close>, exactly the unavailable statuses carry a deadline, an available provider is
  below its failure threshold, and failures are counted among the requests.
\<close>

definition provider_wf :: "provider \<Rightarrow> bool" where
  "provider_wf p \<longleftrightarrow>
     status p \<noteq> COOLDOWN \<and>
     (status p = AVAILABLE \<longleftrightarrow> cooldown_until (health p) = None) \<and>
     (status p = AVAILABLE \<longrightarrow> consecutive_failures (health p) < max_consecutive_failures (profile p)) \<and>
     0 \<le> consecutive_failures (health p) \<and> 0 < max_consecutive_failures (profile p) \<and>
     0 \<le> total_failures (health p) \<and> total_failures (health p) \<le> total_requests (health p)"

lemma provider_wf_new:
  "0 < max_consecutive_failures prof \<Longrightarrow> provider_wf (new_provider prof b)"
  by (simp add: provider_wf_def new_provider_def new_health_def)

lemma provider_wf_refresh: "provider_wf p \<Longrightarrow> provider_wf (snd (refresh now p))"
  by (auto simp: provider_wf_def refresh_def split: option.splits)

lemma provider_wf_served:
  "provider_wf p \<Longrightarrow> status p = AVAILABLE \<Longrightarrow>
     provider_wf (record_outcome t out (count_request p))"
  by (cases out rule: kind_of.cases)
     (auto simp: record_outcome_def provider_wf_def record_success_def record_failure_def
        count_request_def Let_def)

lemma provider_wf_complete_at:
  "provider_wf p \<Longrightarrow> provider_wf (snd (complete_at t1 out t2 p))"
  using provider_wf_served [OF provider_wf_refresh, of p t1]
  by (cases "fst (is_available_at t1 p)")
     (simp_all add: complete_at_served complete_at_refused provider_wf_refresh)

interpretation provider_sys: invariant_system provider_step provider_wf
proof unfold_locales
  fix p e
  assume "provider_wf p"
  then show "provider_wf (provider_step p e)"
    by (cases e) (simp_all add: provider_wf_refresh provider_wf_complete_at)
qed




text \<open>A provider in a timed cooldown is served again exactly from its deadline on.\<close>

lemma cooldown_available_iff:
  "status p \<in> {RATE_LIMITED, OFFLINE} \<Longrightarrow> cooldown_until (health p) = Some d \<Longrightarrow>
     fst (is_available_at now p) \<longleftrightarrow> d \<le> now"
  by (auto simp: refresh_def)



lemma run_profile [simp]: "profile (run provider_step p es) = profile p"
proof (induction es arbitrary: p)
  case (Cons e es)
  then show ?case by (cases e) simp_all
qed simp



section \<open>Properties\<close>

text \<open>
  C23: the availability logic refines a three-state circuit breaker (closed with a count of
  consecutive failures, open until a deadline, tripped): every call moves the abstraction
  of the provider as the breaker moves, and the vendor's outcome is returned exactly when
  the breaker is closed, every other call being refused with the status in the message.
\<close>

theorem provider_refines_breaker:
  "breaker_of (snd (complete_at t1 out t2 p)) =
     breaker_call (profile p) t1 (kind_of out) t2 (breaker_of p) \<and>
   breaker_of (snd (is_available_at t1 p)) = breaker_refresh t1 (breaker_of p) \<and>
   fst (complete_at t1 out t2 p) =
     (case breaker_refresh t1 (breaker_of p) of
        Closed k \<Rightarrow> out
      | _ \<Rightarrow> Inl (unavailable_error (snd (refresh t1 p))))"
proof (intro conjI)
  show "fst (complete_at t1 out t2 p) =
     (case breaker_refresh t1 (breaker_of p) of
        Closed k \<Rightarrow> out
      | _ \<Rightarrow> Inl (unavailable_error (snd (refresh t1 p))))"
  proof (cases "fst (is_available_at t1 p)")
    case True
    with breaker_closed_iff [of "snd (refresh t1 p)"] show ?thesis
      by (auto simp: complete_at_served breaker_of_refresh)
  next
    case False
    then have "\<And>k. breaker_refresh t1 (breaker_of p) \<noteq> Closed k"
      using breaker_closed_iff [of "snd (refresh t1 p)"] by (auto simp: breaker_of_refresh)
    with False show ?thesis by (auto simp: complete_at_refused split: breaker.split)
  qed
qed (simp_all add: breaker_of_complete_at breaker_of_refresh)

text \<open>
  A provider that comes fresh from its constructor keeps its invariant through every
  sequence of availability checks and calls: its status is never \<open>COOLDOWN\<close>, exactly the
  unavailable statuses carry a deadline, and an available provider is below its threshold.
\<close>

theorem provider_invariant:
  assumes "0 < max_consecutive_failures prof"
  shows "provider_wf (run provider_step (new_provider prof b) ops)"
  by (rule provider_sys.run_inv) (rule provider_wf_new [OF assms])

theorem provider_invariant_witness:
  "provider_wf (run provider_step (new_provider claude_profile AdapterBackend)
     [Op_complete 0 (Inl (Exn ProviderRateLimited ''429'')) 5, Op_available 9])"
  by (rule provider_invariant) (simp add: claude_profile_def mk_profile_def)



text \<open>
  A rate-limited provider, and one without credit, is served again exactly from its
  deadline on, which lies the profile's (longer, for credit) cooldown after the failure.
\<close>

theorem timed_cooldown_recovers:
  assumes "status p = AVAILABLE" "out = Inl (Exn c m)"
    and "c = ProviderRateLimited \<and> cool = cooldown_seconds (profile p) \<or>
         c = ProviderCreditExhaustedError \<and> cool = credit_exhausted_cooldown_seconds (profile p)"
  shows "fst (is_available_at now (snd (complete_at t1 out t2 p))) \<longleftrightarrow>
           t2 + seconds_to_us cool \<le> now"
proof -
  from assms(1) have av: "fst (is_available_at t1 p)" "snd (refresh t1 p) = p"
    by (simp_all add: refresh_def)
  with assms(2,3) have "status (snd (complete_at t1 out t2 p)) \<in> {RATE_LIMITED, OFFLINE}"
    "cooldown_until (health (snd (complete_at t1 out t2 p))) = Some (t2 + seconds_to_us cool)"
    by (auto simp: complete_at_served record_outcome_def record_failure_def Let_def)
  then show ?thesis by (rule cooldown_available_iff)
qed

theorem timed_cooldown_recovers_witness:
  "fst (is_available_at 60000007 (snd (complete_at 0 (Inl (Exn ProviderRateLimited ''429'')) 7
      (new_provider claude_profile AdapterBackend))))"
  using timed_cooldown_recovers [of "new_provider claude_profile AdapterBackend"
      "Inl (Exn ProviderRateLimited ''429'')" ProviderRateLimited "''429''" 60 60000007 0 7]
  by (simp add: new_provider_def new_health_def claude_profile_def mk_profile_def
      seconds_to_us_def round_half_even_def)

end
