(* ===== verification/Provider_Registry.thy ===== *)
theory Provider_Registry
  imports Provider_Base
begin

text \<open>
  \<open>providers/registry.py\<close>: the name-keyed catalogue of providers. The dictionary also is
  the heap the providers live in: the objects other components hold are named by their key,
  and an operation on a provider updates its entry. The invariant \<open>registry_wf\<close> says
  that keys are distinct and that each provider is stored under its own name.
\<close>

type_synonym registry = "(string, provider) dict"

definition register_provider :: "provider \<Rightarrow> bool \<Rightarrow> registry \<Rightarrow> exn + registry" where
  "register_provider p replace reg =
     (if \<not> replace \<and> dict_has reg (provider_name p)
      then Inl (Exn ConfigurationError
             (''provider already registered: '' @ repr_str (provider_name p)))
      else Inr (dict_set (provider_name p) p reg))"

definition get_provider :: "registry \<Rightarrow> string \<Rightarrow> exn + provider" where
  "get_provider reg n =
     (case dict_get reg n of
        Some p \<Rightarrow> Inr p
      | None \<Rightarrow> Inl (Exn NotFoundError (''no provider registered: '' @ repr_str n)))"

text \<open>The sort key of the default failover order, and the (stable) sort by it.\<close>

definition order_key :: "provider \<Rightarrow> rat \<times> rat \<times> string" where
  "order_key p = (- weight (profile p), cost_per_1k_tokens (profile p), provider_name p)"

definition ordered :: "provider list \<Rightarrow> provider list" where
  "ordered ps = sort_key order_key ps"

definition all_providers :: "registry \<Rightarrow> provider list" where
  "all_providers reg = ordered (dict_values reg)"

definition for_capability :: "registry \<Rightarrow> Capability \<Rightarrow> provider list" where
  "for_capability reg c = ordered (filter (\<lambda>p. supports (profile p) c) (dict_values reg))"

definition provider_names :: "registry \<Rightarrow> string list" where
  "provider_names reg = dict_keys reg"

section \<open>Invariant\<close>

definition registry_wf :: "registry \<Rightarrow> bool" where
  "registry_wf reg \<longleftrightarrow> dict_ok reg \<and> (\<forall>(k, p) \<in> set reg. provider_name p = k)"

lemma registry_wf_Nil [simp]: "registry_wf []"
  by (simp add: registry_wf_def)

lemma set_dict_set: "dict_ok d \<Longrightarrow> set (dict_set k v d) = insert (k, v) {kv \<in> set d. fst kv \<noteq> k}"
proof -
  assume ok: "dict_ok d"
  have "(a, b) \<in> set (dict_set k v d) \<longleftrightarrow> (a, b) \<in> insert (k, v) {kv \<in> set d. fst kv \<noteq> k}" for a b
    using dict_get_in [OF dict_ok_set [OF ok, of k v], of a b] dict_get_in [OF ok, of a b]
    by auto
  then show ?thesis by auto
qed

lemma registry_wf_set:
  "registry_wf reg \<Longrightarrow> provider_name p = k \<Longrightarrow> registry_wf (dict_set k p reg)"
  by (auto simp: registry_wf_def set_dict_set)

lemma registry_wf_register:
  "registry_wf reg \<Longrightarrow> register_provider p replace reg = Inr reg' \<Longrightarrow> registry_wf reg'"
  by (auto simp: register_provider_def registry_wf_set split: if_splits)

lemma registry_wf_get: "registry_wf reg \<Longrightarrow> dict_get reg k = Some p \<Longrightarrow> provider_name p = k"
  by (auto simp: registry_wf_def dest: map_of_SomeD)

lemma registry_wf_values:
  "registry_wf reg \<Longrightarrow> p \<in> set (dict_values reg) \<longleftrightarrow> dict_get reg (provider_name p) = Some p"
  by (force simp: registry_wf_def dict_get_in [symmetric])

lemma registry_wf_names: "registry_wf reg \<Longrightarrow> map provider_name (dict_values reg) = dict_keys reg"
  by (induction reg) (auto simp: registry_wf_def dict_ok_def)

lemma registry_wf_distinct_values: "registry_wf reg \<Longrightarrow> distinct (dict_values reg)"
  by (metis dict_ok_def distinct_map registry_wf_def registry_wf_names)


text \<open>Registering under a given key, without \<open>replace\<close>.\<close>

definition register_named :: "string \<Rightarrow> provider \<Rightarrow> registry \<Rightarrow> exn + registry" where
  "register_named k p reg =
     (if dict_has reg k then Inl (Exn ConfigurationError (''provider already registered: '' @ repr_str k))
      else Inr (dict_set k p reg))"

lemma register_provider_named: "register_provider p False reg = register_named (provider_name p) p reg"
  by (simp add: register_provider_def register_named_def)

interpretation prov_registry: strict_registry dict_get register_named
  by unfold_locales (auto simp: register_named_def dict_has_get fun_eq_iff split: if_splits)

section \<open>Ordering\<close>

lemma set_ordered [simp]: "set (ordered ps) = set ps"
  by (simp add: ordered_def)

lemma distinct_ordered [simp]: "distinct (ordered ps) = distinct ps"
  by (simp add: ordered_def)

lemma sorted_ordered: "sorted (map order_key (ordered ps))"
  by (simp add: ordered_def)

lemma order_key_le_iff:
  "order_key p \<le> order_key q \<longleftrightarrow>
     weight (profile q) < weight (profile p) \<or>
     weight (profile q) = weight (profile p) \<and>
       (cost_per_1k_tokens (profile p) < cost_per_1k_tokens (profile q) \<or>
        cost_per_1k_tokens (profile p) = cost_per_1k_tokens (profile q) \<and>
          provider_name p \<le> provider_name q)"
  by (auto simp: order_key_def less_eq_prod_def less_prod_def)

lemma order_key_inj: "order_key p = order_key q \<Longrightarrow> provider_name p = provider_name q"
  by (simp add: order_key_def)

lemma registry_wf_order_inj:
  "registry_wf reg \<Longrightarrow> inj_on order_key (set (dict_values reg))"
proof (rule inj_onI)
  fix p q
  assume wf: "registry_wf reg"
    and "p \<in> set (dict_values reg)" "q \<in> set (dict_values reg)" "order_key p = order_key q"
  then show "p = q"
    using order_key_inj [of p q] registry_wf_values [OF wf, of p] registry_wf_values [OF wf, of q]
    by simp
qed

lemma set_for_capability:
  "set (for_capability reg c) = {p \<in> set (dict_values reg). supports (profile p) c}"
  by (simp add: for_capability_def)

lemma for_capability_names_distinct:
  assumes "registry_wf reg"
  shows "distinct (map provider_name (for_capability reg c))"
proof -
  have "distinct (for_capability reg c)"
    using registry_wf_distinct_values [OF assms] by (simp add: for_capability_def)
  moreover have "inj_on provider_name (set (for_capability reg c))"
  proof (rule inj_onI)
    fix p q
    assume "p \<in> set (for_capability reg c)" "q \<in> set (for_capability reg c)"
      and "provider_name p = provider_name q"
    then show "p = q"
      using registry_wf_values [OF assms, of p] registry_wf_values [OF assms, of q]
      by (simp add: set_for_capability)
  qed
  ultimately show ?thesis by (simp add: distinct_map)
qed

lemma for_capability_order_independent:
  assumes wf: "registry_wf reg" "registry_wf reg'"
    and same: "set (dict_values reg) = set (dict_values reg')"
  shows "for_capability reg c = for_capability reg' c"
  unfolding for_capability_def ordered_def
proof (rule sort_key_order_independent)
  show "inj_on order_key (set (filter (\<lambda>p. supports (profile p) c) (dict_values reg)))"
    using registry_wf_order_inj [OF wf(1)] by (rule inj_on_subset) auto
qed (use wf same registry_wf_distinct_values in auto)

section \<open>Properties\<close>

text \<open>
  The default failover order is deterministic: it lists exactly the providers that declare
  the capability, each once, by descending weight, then ascending cost, then name, and it
  depends only on the set of registered providers, not on the order of registration.
\<close>

theorem failover_order_deterministic:
  assumes "registry_wf reg" "registry_wf reg'" "set (dict_values reg) = set (dict_values reg')"
  shows "for_capability reg c = for_capability reg' c \<and>
         set (for_capability reg c) = {p. dict_get reg (provider_name p) = Some p \<and> supports (profile p) c} \<and>
         distinct (for_capability reg c) \<and>
         sorted (map (\<lambda>p. (- weight (profile p), cost_per_1k_tokens (profile p), provider_name p))
                   (for_capability reg c))"
proof (intro conjI)
  show "for_capability reg c = for_capability reg' c"
    by (rule for_capability_order_independent [OF assms])
  show "set (for_capability reg c) = {p. dict_get reg (provider_name p) = Some p \<and> supports (profile p) c}"
    using registry_wf_values [OF assms(1)] by (auto simp: set_for_capability)
  show "distinct (for_capability reg c)"
    using for_capability_names_distinct [OF assms(1), of c] by (simp add: distinct_map)
  show "sorted (map (\<lambda>p. (- weight (profile p), cost_per_1k_tokens (profile p), provider_name p))
                   (for_capability reg c))"
    using sorted_ordered by (simp add: for_capability_def order_key_def [abs_def] del: sorted_map)
qed

theorem failover_order_deterministic_witness:
  "let a = new_provider gemini_profile AdapterBackend; b = new_provider local_profile (LocalBackend False)
   in for_capability [(''gemini'', a), (''local'', b)] EXTRACTION =
      for_capability [(''local'', b), (''gemini'', a)] EXTRACTION"
  using failover_order_deterministic
    [of "[(''gemini'', new_provider gemini_profile AdapterBackend),
          (''local'', new_provider local_profile (LocalBackend False))]"
        "[(''local'', new_provider local_profile (LocalBackend False)),
          (''gemini'', new_provider gemini_profile AdapterBackend)]" EXTRACTION]
  by (simp add: registry_wf_def dict_ok_def new_provider_def gemini_profile_def local_profile_def
      mk_profile_def insert_commute)

text \<open>
  Without \<open>replace\<close> a sequence of registrations is accepted exactly if no name occurs
  twice in it or is taken already; what is registered can be looked up under its name, and
  everything else is as before.
\<close>

theorem registration_exact:
  "((\<exists>reg'. prov_registry.register_all kps reg = Inr reg') \<longleftrightarrow>
      distinct (map fst kps) \<and> (\<forall>k. k \<in> set (map fst kps) \<longrightarrow> dict_get reg k = None)) \<and>
   (\<forall>reg' k. prov_registry.register_all kps reg = Inr reg' \<longrightarrow>
      get_provider reg' k = (case map_of kps k of Some p \<Rightarrow> Inr p | None \<Rightarrow> get_provider reg k))"
  using prov_registry.register_all_Inr_iff [of kps reg] prov_registry.register_all_entry [of kps reg]
  by (auto simp: get_provider_def split: option.split)

theorem registration_exact_witness:
  "\<exists>reg'. prov_registry.register_all
     [(''claude'', new_provider claude_profile AdapterBackend),
      (''local'', new_provider local_profile (LocalBackend False))] [] = Inr reg'"
  using registration_exact [of "[(''claude'', new_provider claude_profile AdapterBackend),
      (''local'', new_provider local_profile (LocalBackend False))]" "[]"]
  by simp

end
