(* ===== verification/Provider_Store.thy ===== *)
theory Provider_Store
  imports Provider_State
begin

text \<open>
  \<open>providers/persistence.py\<close>, the default in-memory store: a dictionary of independent
  snapshots of the providers' health. It is a \<open>keyed_store\<close>.
\<close>

type_synonym state_store = "(string, ProviderHealth) dict"

definition store_save :: "string \<Rightarrow> ProviderHealth \<Rightarrow> state_store \<Rightarrow> state_store" where
  "store_save n h st = dict_set n (snapshot h) st"

definition store_load :: "state_store \<Rightarrow> string \<Rightarrow> ProviderHealth option" where
  "store_load st n = map_option snapshot (dict_get st n)"

definition store_load_all :: "state_store \<Rightarrow> (string, ProviderHealth) dict" where
  "store_load_all st = map (\<lambda>(n, h). (n, snapshot h)) st"

interpretation provider_store: keyed_store store_load store_save
  by unfold_locales (auto simp: store_load_def store_save_def fun_eq_iff)

lemma store_load_all_eq [simp]: "store_load_all st = st"
  by (induction st) (auto simp: store_load_all_def)

end
