(* ===== verification/Provider_Manager.thy ===== *)
theory Provider_Manager
  imports Provider_Registry Provider_Store
begin

text \<open>
  \<open>providers/manager.py\<close>: capability-aware invocation with failover. The manager's state
  is the registry (the live providers), the state store, the event bus, and the number of
  interactions with clock and vendors so far (\<open>moment\<close>). Each call of \<open>BaseProvider.complete\<close>
  takes three moments: the availability reading, the vendor call, the final reading.
\<close>

record manager =
  mgr_registry :: registry
  mgr_store :: state_store
  mgr_bus :: event_bus
  moment :: nat

definition emit :: "provider_event \<Rightarrow> manager \<Rightarrow> manager" where
  "emit e m = m\<lparr>mgr_bus := publish (Provider_Event e) (mgr_bus m)\<rparr>"

section \<open>Candidates\<close>

text \<open>The dictionary of the supporting providers by name, in default failover order.\<close>

definition supporting :: "registry \<Rightarrow> Capability \<Rightarrow> (string, provider) dict" where
  "supporting reg c = fold (\<lambda>p d. dict_set (provider_name p) p d) (for_capability reg c) []"

definition ordered_names :: "registry \<Rightarrow> Capability \<Rightarrow> string list option \<Rightarrow> string list" where
  "ordered_names reg c order =
     (case order of
        Some names \<Rightarrow> filter (dict_has (supporting reg c)) names
      | None \<Rightarrow> dict_keys (supporting reg c))"

text \<open>
  The list comprehension of \<open>candidates\<close>: each provider is asked for its availability,
  which may end its cooldown, then for its budget. A name always has a provider here,
  since it comes from the registry.
\<close>

fun check_available ::
  "environment \<Rightarrow> string list \<Rightarrow> registry \<Rightarrow> nat \<Rightarrow> string list \<times> registry \<times> nat" where
  "check_available env [] reg n = ([], reg, n)"
| "check_available env (nm # nms) reg n =
     (case dict_get reg nm of
        None \<Rightarrow> check_available env nms reg n
      | Some p \<Rightarrow>
          (case is_available env n p of (ok, p', n') \<Rightarrow>
             (case check_available env nms (dict_set nm p' reg) n' of (rest, reg', n'') \<Rightarrow>
                (if ok \<and> has_budget p' 0 then nm # rest else rest, reg', n''))))"

definition candidates ::
  "environment \<Rightarrow> Capability \<Rightarrow> string list option \<Rightarrow> manager \<Rightarrow> string list \<times> manager" where
  "candidates env c order m =
     (case check_available env (ordered_names (mgr_registry m) c order) (mgr_registry m) (moment m)
      of (names, reg, n) \<Rightarrow> (names, m\<lparr>mgr_registry := reg, moment := n\<rparr>))"

section \<open>Failover\<close>

definition save_health :: "provider \<Rightarrow> manager \<Rightarrow> manager" where
  "save_health p m = m\<lparr>mgr_store := store_save (provider_name p) (health p) (mgr_store m)\<rparr>"

definition on_failure ::
  "provider \<Rightarrow> Capability \<Rightarrow> error_class \<Rightarrow> string \<Rightarrow> manager \<Rightarrow> manager" where
  "on_failure p c cls msg m =
     (let m1 = save_health p m;
          m2 = emit (ProviderFailedOver (provider_name p) (capability_value c) msg (err_code cls)) m1;
          m3 = (if issubclass cls ProviderCreditExhaustedError
                then emit (ProviderCreditExhausted (provider_name p)) m2 else m2)
      in if status p \<in> {COOLDOWN, RATE_LIMITED, OFFLINE, FAILED}
         then emit (ProviderCooldownEntered (provider_name p) (status_value (status p))
                      (map_option isoformat (cooldown_until (health p))) (err_code cls)) m3
         else m3)"

text \<open>One attempt: the provider's \<open>complete\<close>, its entry in the registry updated.\<close>

definition attempt ::
  "environment \<Rightarrow> LLMRequest \<Rightarrow> string \<Rightarrow> provider \<Rightarrow> manager \<Rightarrow>
     (exn + LLMResponse) \<times> provider \<times> manager" where
  "attempt env req nm p m =
     (case complete env (moment m) req p of (r, p', n) \<Rightarrow>
        (r, p', m\<lparr>mgr_registry := dict_set nm p' (mgr_registry m), moment := n\<rparr>))"

definition exhausted_error :: "nat \<Rightarrow> Capability \<Rightarrow> exn" where
  "exhausted_error cnt c =
     Exn NoProviderAvailable
       (''all '' @ nat_digits cnt @ '' provider(s) failed for capability '' @
        repr_str (capability_value c))"

definition none_available_error :: "Capability \<Rightarrow> exn" where
  "none_available_error c =
     Exn NoProviderAvailable
       (''no available provider supports capability '' @ repr_str (capability_value c))"

text \<open>
  The loop over the candidates: \<open>k\<close> is the attempt number, \<open>failed\<close> the providers failed
  over so far, \<open>cnt\<close> the number of candidates.
\<close>

fun try_candidates ::
  "environment \<Rightarrow> LLMRequest \<Rightarrow> Capability \<Rightarrow> nat \<Rightarrow> nat \<Rightarrow> string list \<Rightarrow> string list \<Rightarrow> manager \<Rightarrow>
     (exn + ProviderInvocation) \<times> manager" where
  "try_candidates env req c cnt k failed [] m =
     (Inl (exhausted_error cnt c), emit (AllProvidersExhausted (capability_value c) failed) m)"
| "try_candidates env req c cnt k failed (nm # nms) m =
     (case dict_get (mgr_registry m) nm of
        None \<Rightarrow> try_candidates env req c cnt k failed nms m
      | Some p \<Rightarrow>
          (let m1 = emit (ProviderSelected (provider_name p) (capability_value c) (int k)) m in
           case attempt env req nm p m1 of (r, p', m2) \<Rightarrow>
             (case r of
                Inr resp \<Rightarrow>
                  (Inr \<lparr>inv_provider = provider_name p', inv_content = resp_content resp,
                        inv_total_tokens = total_tokens (usage resp), inv_attempts = k,
                        failed_over_from = failed\<rparr>,
                   emit (ProviderInvocationSucceeded (provider_name p') (capability_value c)
                           (total_tokens (usage resp)))
                     (save_health p' m2))
              | Inl (Exn cls msg) \<Rightarrow>
                  if issubclass cls ProviderError
                  then try_candidates env req c cnt (k + 1) (failed @ [provider_name p']) nms
                         (on_failure p' c cls msg m2)
                  else (Inl (Exn cls msg), m2)
              | Inl (PyExn n msg) \<Rightarrow> (Inl (PyExn n msg), m2))))"

definition manager_complete ::
  "environment \<Rightarrow> LLMRequest \<Rightarrow> Capability \<Rightarrow> string list option \<Rightarrow> manager \<Rightarrow>
     (exn + ProviderInvocation) \<times> manager" where
  "manager_complete env req c order m =
     (case candidates env c order m of (names, m1) \<Rightarrow>
        if names = [] then
          (Inl (none_available_error c), emit (AllProvidersExhausted (capability_value c) []) m1)
        else try_candidates env req c (length names) 1 [] names m1)"

section \<open>Frame facts\<close>

lemma emit_simps [simp]:
  "mgr_registry (emit e m) = mgr_registry m" "mgr_store (emit e m) = mgr_store m"
  "moment (emit e m) = moment m" "mgr_bus (emit e m) = publish (Provider_Event e) (mgr_bus m)"
  by (simp_all add: emit_def)

lemma save_health_simps [simp]:
  "mgr_registry (save_health p m) = mgr_registry m" "moment (save_health p m) = moment m"
  "mgr_bus (save_health p m) = mgr_bus m"
  "mgr_store (save_health p m) = store_save (provider_name p) (health p) (mgr_store m)"
  by (simp_all add: save_health_def)

lemma on_failure_simps [simp]:
  "mgr_registry (on_failure p c cls msg m) = mgr_registry m"
  "moment (on_failure p c cls msg m) = moment m"
  "mgr_store (on_failure p c cls msg m) = store_save (provider_name p) (health p) (mgr_store m)"
  by (simp_all add: on_failure_def Let_def)

lemma complete_frame:
  "complete env n req p = (r, p', n') \<Longrightarrow>
     profile p' = profile p \<and> backend p' = backend p \<and> n' = n + 3 \<and> (provider_wf p \<longrightarrow> provider_wf p')"
  using provider_wf_complete_at [of p "clock env n" "invoke env (n + 1) p req" "clock env (n + 2)"]
  by (auto simp: complete_def split: prod.splits dest: arg_cong [where f = snd])
     (metis complete_at_frame snd_conv)+

section \<open>How a call changes the registry\<close>

text \<open>
  From \<open>reg\<close> to \<open>reg'\<close>, only providers named in \<open>S\<close> changed; each kept its profile, its
  backend and its invariant.
\<close>

definition evolves :: "string set \<Rightarrow> registry \<Rightarrow> registry \<Rightarrow> bool" where
  "evolves S reg reg' \<longleftrightarrow>
     dict_keys reg' = dict_keys reg \<and>
     (\<forall>nm. nm \<notin> S \<longrightarrow> dict_get reg' nm = dict_get reg nm) \<and>
     (\<forall>nm p. dict_get reg nm = Some p \<longrightarrow>
        (\<exists>p'. dict_get reg' nm = Some p' \<and> profile p' = profile p \<and> backend p' = backend p \<and>
              (provider_wf p \<longrightarrow> provider_wf p')))"

lemma evolves_refl [simp, intro]: "evolves S reg reg"
  by (simp add: evolves_def)

lemma evolves_trans: "evolves S r1 r2 \<Longrightarrow> evolves T r2 r3 \<Longrightarrow> evolves (S \<union> T) r1 r3"
proof -
  assume a: "evolves S r1 r2" and b: "evolves T r2 r3"
  have "\<exists>p'. dict_get r3 nm = Some p' \<and> profile p' = profile p \<and> backend p' = backend p \<and>
          (provider_wf p \<longrightarrow> provider_wf p')" if "dict_get r1 nm = Some p" for nm p
  proof -
    from a that obtain q where q: "dict_get r2 nm = Some q" "profile q = profile p"
      "backend q = backend p" "provider_wf p \<longrightarrow> provider_wf q"
      unfolding evolves_def by blast
    moreover from b q(1) obtain p' where "dict_get r3 nm = Some p'" "profile p' = profile q"
      "backend p' = backend q" "provider_wf q \<longrightarrow> provider_wf p'"
      unfolding evolves_def by blast
    ultimately show ?thesis by auto
  qed
  with a b show ?thesis by (simp add: evolves_def)
qed

lemma evolves_mono: "evolves S r1 r2 \<Longrightarrow> S \<subseteq> T \<Longrightarrow> evolves T r1 r2"
  unfolding evolves_def by blast

lemma evolves_set:
  "dict_get reg nm = Some p \<Longrightarrow> profile p' = profile p \<Longrightarrow> backend p' = backend p \<Longrightarrow>
     (provider_wf p \<longrightarrow> provider_wf p') \<Longrightarrow> evolves {nm} reg (dict_set nm p' reg)"
  by (auto simp: evolves_def dict_keys_set_present dict_has_get)

lemma evolves_wf: "evolves S reg reg' \<Longrightarrow> registry_wf reg \<Longrightarrow> registry_wf reg'"
proof -
  assume ev: "evolves S reg reg'" and wf: "registry_wf reg"
  from ev wf have ok: "dict_ok reg'" by (simp add: evolves_def registry_wf_def dict_ok_def)
  have "provider_name p = k" if "(k, p) \<in> set reg'" for k p
  proof -
    from that ok have get: "dict_get reg' k = Some p" by (simp add: dict_get_in)
    then have "dict_has reg' k" by (auto simp: dict_has_get)
    with ev have "dict_has reg k" by (simp add: evolves_def dict_has_def)
    then obtain q where q: "dict_get reg k = Some q" by (auto simp: dict_has_get)
    with ev get have "profile p = profile q" unfolding evolves_def by fastforce
    with registry_wf_get [OF wf q] show ?thesis by simp
  qed
  with ok show ?thesis by (auto simp: registry_wf_def)
qed

lemma evolves_has: "evolves S reg reg' \<Longrightarrow> dict_has reg' nm \<longleftrightarrow> dict_has reg nm"
  by (simp add: evolves_def dict_has_def)

lemma evolves_get:
  "evolves S reg reg' \<Longrightarrow> dict_get reg nm = Some p \<Longrightarrow>
     \<exists>p'. dict_get reg' nm = Some p' \<and> profile p' = profile p \<and> backend p' = backend p"
  unfolding evolves_def by blast

lemma evolves_same: "evolves S reg reg' \<Longrightarrow> nm \<notin> S \<Longrightarrow> dict_get reg' nm = dict_get reg nm"
  by (simp add: evolves_def)

lemma check_available_evolves:
  "check_available env nms reg n = (cs, reg', n') \<Longrightarrow> evolves (set nms) reg reg'"
proof (induction nms arbitrary: reg n cs reg' n')
  case (Cons nm nms)
  show ?case
  proof (cases "dict_get reg nm")
    case None
    with Cons have "evolves (set nms) reg reg'" by simp
    then show ?thesis by (rule evolves_mono) auto
  next
    case (Some p)
    let ?q = "snd (refresh (clock env n) p)"
    from Cons.prems Some obtain rest where
      rest: "check_available env nms (dict_set nm ?q reg) (n + 1) = (rest, reg', n')"
      by (auto simp: is_available_def split: prod.splits)
         (metis is_available_at_simps(2) snd_conv)
    have "evolves {nm} reg (dict_set nm ?q reg)"
      using Some by (intro evolves_set) (auto simp: provider_wf_refresh)
    from evolves_trans [OF this Cons.IH [OF rest]] show ?thesis by simp
  qed
qed simp

lemma candidates_evolves:
  "candidates env c order m = (names, m') \<Longrightarrow>
     evolves (set (ordered_names (mgr_registry m) c order)) (mgr_registry m) (mgr_registry m') \<and>
     mgr_bus m' = mgr_bus m \<and> mgr_store m' = mgr_store m"
  by (auto simp: candidates_def split: prod.splits dest: check_available_evolves)

lemma attempt_evolves:
  "attempt env req nm p m = (r, p', m') \<Longrightarrow> dict_get (mgr_registry m) nm = Some p \<Longrightarrow>
     evolves {nm} (mgr_registry m) (mgr_registry m') \<and> dict_get (mgr_registry m') nm = Some p' \<and>
     profile p' = profile p \<and> backend p' = backend p \<and>
     mgr_bus m' = mgr_bus m \<and> mgr_store m' = mgr_store m"
  by (auto simp: attempt_def split: prod.splits dest!: complete_frame intro!: evolves_set)

section \<open>Candidates, functionally\<close>

lemma supporting_eq:
  assumes "registry_wf reg"
  shows "supporting reg c = map (\<lambda>p. (provider_name p, p)) (for_capability reg c)"
proof -
  have "fold (\<lambda>p d. dict_set (provider_name p) p d) ps d = d @ map (\<lambda>p. (provider_name p, p)) ps"
    if "distinct (map provider_name ps)" "set (map provider_name ps) \<inter> set (dict_keys d) = {}"
    for ps :: "provider list" and d
    using that
  proof (induction ps arbitrary: d)
    case (Cons p ps)
    then have "dict_set (provider_name p) p d = d @ [(provider_name p, p)]"
      by (intro dict_set_absent) (auto simp: dict_has_def)
    with Cons show ?case by auto
  qed simp
  from this [of "for_capability reg c" "[]"] for_capability_names_distinct [OF assms]
  show ?thesis by (simp add: supporting_def)
qed

lemma supporting_has:
  assumes wf: "registry_wf reg"
  shows "dict_has (supporting reg c) nm \<longleftrightarrow>
     (\<exists>p. dict_get reg nm = Some p \<and> supports (profile p) c)"
proof -
  have "dict_has (supporting reg c) nm \<longleftrightarrow>
      (\<exists>p \<in> set (for_capability reg c). provider_name p = nm)"
    by (auto simp: supporting_eq [OF wf] dict_has_def)
  also have "\<dots> \<longleftrightarrow> (\<exists>p. p \<in> set (dict_values reg) \<and> supports (profile p) c \<and> provider_name p = nm)"
    unfolding set_for_capability by blast
  also have "\<dots> \<longleftrightarrow> (\<exists>p. dict_get reg nm = Some p \<and> supports (profile p) c)"
    using registry_wf_values [OF wf] registry_wf_get [OF wf] by metis
  finally show ?thesis .
qed

lemma ordered_names_None:
  "registry_wf reg \<Longrightarrow> ordered_names reg c None = map provider_name (for_capability reg c)"
  by (simp add: ordered_names_def supporting_eq comp_def)

lemma ordered_names_in:
  assumes "registry_wf reg" "nm \<in> set (ordered_names reg c order)"
  shows "\<exists>p. dict_get reg nm = Some p \<and> supports (profile p) c"
proof -
  from assms(2) have "dict_has (supporting reg c) nm"
    by (cases order) (auto simp: ordered_names_def dict_has_def)
  with supporting_has [OF assms(1)] show ?thesis by simp
qed

text \<open>May this provider be tried, when its availability is read at interaction \<open>i\<close>?\<close>

definition servable :: "environment \<Rightarrow> registry \<Rightarrow> string \<Rightarrow> nat \<Rightarrow> bool" where
  "servable env reg nm i \<longleftrightarrow>
     (case dict_get reg nm of
        None \<Rightarrow> False
      | Some p \<Rightarrow> fst (is_available_at (clock env i) p) \<and> has_budget p 0)"

lemma has_budget_refresh [simp]: "has_budget (snd (refresh now p)) k = has_budget p k"
  by (simp add: has_budget_def remaining_budget_def split: option.split)

lemma is_available_simp:
  "is_available env n p = (fst (is_available_at (clock env n) p), snd (refresh (clock env n) p), n + 1)"
  by (simp add: is_available_def is_available_at_def Let_def)

lemma check_available_spec:
  "distinct nms \<Longrightarrow> \<forall>nm \<in> set nms. dict_has reg nm \<Longrightarrow>
     fst (check_available env nms reg n) =
       map fst (filter (\<lambda>(nm, i). servable env reg nm i) (zip nms [n..<n + length nms]))"
proof (induction nms arbitrary: reg n)
  case (Cons nm nms)
  then obtain p where p: "dict_get reg nm = Some p" by (auto simp: dict_has_get)
  let ?q = "snd (refresh (clock env n) p)"
  let ?r = "dict_set nm ?q reg"
  have upt: "[n..<n + length (nm # nms)] = n # [Suc n..<Suc n + length nms]"
    by (subst upt_conv_Cons) simp_all
  have eq: "servable env ?r a i = servable env reg a i" if "a \<in> set nms" for a i
    using that Cons.prems(1) by (auto simp: servable_def)
  have "fst (check_available env nms ?r (Suc n)) =
      map fst (filter (\<lambda>(a, i). servable env ?r a i) (zip nms [Suc n..<Suc n + length nms]))"
    using Cons.prems by (intro Cons.IH) auto
  also have "filter (\<lambda>(a, i). servable env ?r a i) (zip nms [Suc n..<Suc n + length nms]) =
      filter (\<lambda>(a, i). servable env reg a i) (zip nms [Suc n..<Suc n + length nms])"
    by (rule filter_cong) (auto simp: eq dest: set_zip_leftD)
  finally show ?case
    unfolding upt using p
    by (auto simp: is_available_simp servable_def split: prod.splits)
qed simp

lemma check_available_subset: "set (fst (check_available env nms reg n)) \<subseteq> set nms"
proof (induction nms arbitrary: reg n)
  case (Cons nm nms)
  show ?case
  proof (cases "dict_get reg nm")
    case None
    with Cons.IH [of reg n] show ?thesis by auto
  next
    case (Some p)
    let ?r = "dict_set nm (snd (refresh (clock env n) p)) reg"
    from Some have "set (fst (check_available env (nm # nms) reg n)) \<subseteq>
        insert nm (set (fst (check_available env nms ?r (n + 1))))"
      by (auto simp: is_available_simp split: prod.splits if_splits)
    with Cons.IH [of ?r "n + 1"] show ?thesis by auto
  qed
qed simp

lemma candidates_names:
  "candidates env c order m = (names, m') \<Longrightarrow>
     names = fst (check_available env (ordered_names (mgr_registry m) c order) (mgr_registry m) (moment m))"
  by (auto simp: candidates_def split: prod.splits)

lemma candidates_has:
  assumes "candidates env c order m = (names, m')" "registry_wf (mgr_registry m)" "nm \<in> set names"
  shows "dict_has (mgr_registry m') nm"
proof -
  from candidates_names [OF assms(1)] assms(3) check_available_subset
  have "nm \<in> set (ordered_names (mgr_registry m) c order)" by blast
  from ordered_names_in [OF assms(2) this] have "dict_has (mgr_registry m) nm"
    by (auto simp: dict_has_get)
  with evolves_has candidates_evolves [OF assms(1)] show ?thesis by blast
qed

section \<open>The failover loop\<close>

text \<open>The live health of these providers is what the store holds.\<close>

definition saved :: "manager \<Rightarrow> string set \<Rightarrow> bool" where
  "saved m S \<longleftrightarrow>
     (\<forall>nm \<in> S. \<exists>p. dict_get (mgr_registry m) nm = Some p \<and>
                    store_load (mgr_store m) nm = Some (health p))"

text \<open>The providers of the selection and failover events on the bus.\<close>

fun selected_name :: "domain_event \<Rightarrow> string option" where
  "selected_name (Provider_Event (ProviderSelected nm c k)) = Some nm"
| "selected_name _ = None"

fun failed_over_name :: "domain_event \<Rightarrow> string option" where
  "failed_over_name (Provider_Event (ProviderFailedOver nm c r code)) = Some nm"
| "failed_over_name _ = None"

definition selections :: "event_bus \<Rightarrow> string list" where
  "selections b = List.map_filter selected_name (published b)"

definition failovers :: "event_bus \<Rightarrow> string list" where
  "failovers b = List.map_filter failed_over_name (published b)"

lemma selections_publish [simp]:
  "b \<noteq> None \<Longrightarrow> selections (publish e b) =
     selections b @ (case selected_name e of None \<Rightarrow> [] | Some nm \<Rightarrow> [nm])"
  by (simp add: selections_def List.map_filter_def split: option.split)

lemma failovers_publish [simp]:
  "b \<noteq> None \<Longrightarrow> failovers (publish e b) =
     failovers b @ (case failed_over_name e of None \<Rightarrow> [] | Some nm \<Rightarrow> [nm])"
  by (simp add: failovers_def List.map_filter_def split: option.split)

lemma on_failure_bus [simp]:
  "mgr_bus (on_failure p c cls msg m) = None \<longleftrightarrow> mgr_bus m = None"
  "mgr_bus m \<noteq> None \<Longrightarrow> selections (mgr_bus (on_failure p c cls msg m)) = selections (mgr_bus m)"
  "mgr_bus m \<noteq> None \<Longrightarrow>
     failovers (mgr_bus (on_failure p c cls msg m)) = failovers (mgr_bus m) @ [provider_name p]"
  by (simp_all add: on_failure_def Let_def)

lemma saved_attempt:
  assumes "saved m S" "evolves {nm} (mgr_registry m) (mgr_registry m')"
    "dict_get (mgr_registry m') nm = Some p'" "provider_name p' = nm"
    "mgr_store m' = store_save nm (health p') (mgr_store m)"
  shows "saved m' (insert nm S)"
  unfolding saved_def
proof
  fix a
  assume a: "a \<in> insert nm S"
  show "\<exists>p. dict_get (mgr_registry m') a = Some p \<and> store_load (mgr_store m') a = Some (health p)"
  proof (cases "a = nm")
    case True
    with assms show ?thesis by (simp add: provider_store.get_put_same)
  next
    case False
    with a assms evolves_same [OF assms(2), of a] show ?thesis
      by (auto simp: saved_def provider_store.get_put_other)
  qed
qed

text \<open>One attempt of the loop, with what is known of it.\<close>

lemma attempt_cases:
  assumes wf: "registry_wf (mgr_registry m)" and has: "dict_has (mgr_registry m) nm"
  obtains p r p' m2 where
    "dict_get (mgr_registry m) nm = Some p" "provider_name p = nm"
    "attempt env req nm p (emit (ProviderSelected nm (capability_value c) k) m) = (r, p', m2)"
    "evolves {nm} (mgr_registry m) (mgr_registry m2)" "dict_get (mgr_registry m2) nm = Some p'"
    "provider_name p' = nm" "backend p' = backend p"
    "mgr_bus m2 = publish (Provider_Event (ProviderSelected nm (capability_value c) k)) (mgr_bus m)"
    "mgr_store m2 = mgr_store m" "registry_wf (mgr_registry m2)"
proof -
  from has obtain p where p: "dict_get (mgr_registry m) nm = Some p" by (auto simp: dict_has_get)
  from registry_wf_get [OF wf p] have nm: "provider_name p = nm" .
  obtain r p' m2 where at:
    "attempt env req nm p (emit (ProviderSelected nm (capability_value c) k) m) = (r, p', m2)"
    by (metis prod_cases3)
  from attempt_evolves [OF at] p nm evolves_wf [OF _ wf] show ?thesis
    by (intro that [OF p nm at]) auto
qed

lemma try_success:
  assumes "registry_wf (mgr_registry m)" "\<forall>nm \<in> set nms. dict_has (mgr_registry m) nm"
    and "try_candidates env req c cnt k failed nms m = (Inr res, m')" and "saved m S"
  shows "\<exists>pre post. nms = pre @ inv_provider res # post \<and>
           failed_over_from res = failed @ pre \<and> inv_attempts res = k + length pre \<and>
           evolves (set pre \<union> {inv_provider res}) (mgr_registry m) (mgr_registry m') \<and>
           saved m' (S \<union> set pre \<union> {inv_provider res}) \<and>
           (mgr_bus m \<noteq> None \<longrightarrow>
              selections (mgr_bus m') = selections (mgr_bus m) @ pre @ [inv_provider res] \<and>
              failovers (mgr_bus m') = failovers (mgr_bus m) @ pre)"
  using assms
proof (induction nms arbitrary: k failed m S)
  case (Cons nm nms)
  from Cons.prems(2) have "dict_has (mgr_registry m) nm" by simp
  then obtain p r p' m2 where at:
    "dict_get (mgr_registry m) nm = Some p" "provider_name p = nm"
    "attempt env req nm p (emit (ProviderSelected nm (capability_value c) (int k)) m) = (r, p', m2)"
    "evolves {nm} (mgr_registry m) (mgr_registry m2)" "dict_get (mgr_registry m2) nm = Some p'"
    "provider_name p' = nm" "backend p' = backend p"
    "mgr_bus m2 = publish (Provider_Event (ProviderSelected nm (capability_value c) (int k))) (mgr_bus m)"
    "mgr_store m2 = mgr_store m" "registry_wf (mgr_registry m2)"
    by (rule attempt_cases [OF Cons.prems(1)])
  show ?case
  proof (cases r)
    case (Inr resp)
    with Cons.prems(3) at have res: "inv_provider res = nm" "failed_over_from res = failed"
      "inv_attempts res = k"
      and m': "m' = emit (ProviderInvocationSucceeded nm (capability_value c)
                (total_tokens (usage resp))) (save_health p' m2)"
      by auto
    have "saved m' (insert nm S)"
      by (rule saved_attempt [OF Cons.prems(4), of nm m' p']) (use at m' in auto)
    with res m' at show ?thesis by (intro exI [of _ "[]"] exI [of _ nms]) auto
  next
    case (Inl e)
    with Cons.prems(3) at obtain cls msg where e: "e = Exn cls msg" "issubclass cls ProviderError"
      by (cases e) (auto split: if_splits)
    let ?m3 = "on_failure p' c cls msg m2"
    from Inl e Cons.prems(3) at have
      rec: "try_candidates env req c cnt (k + 1) (failed @ [nm]) nms ?m3 = (Inr res, m')"
      by (auto split: if_splits)
    have "saved ?m3 (insert nm S)"
      by (rule saved_attempt [OF Cons.prems(4), of nm ?m3 p']) (use at in auto)
    from Cons.IH [OF _ _ rec this] Cons.prems(2) at evolves_has [OF at(4)]
    obtain pre post where ih: "nms = pre @ inv_provider res # post"
      "failed_over_from res = (failed @ [nm]) @ pre" "inv_attempts res = k + 1 + length pre"
      "evolves (set pre \<union> {inv_provider res}) (mgr_registry m2) (mgr_registry m')"
      "saved m' (insert nm S \<union> set pre \<union> {inv_provider res})"
      "mgr_bus m2 \<noteq> None \<longrightarrow>
         selections (mgr_bus m') = selections (mgr_bus ?m3) @ pre @ [inv_provider res] \<and>
         failovers (mgr_bus m') = failovers (mgr_bus ?m3) @ pre"
      by auto
    have "evolves (set (nm # pre) \<union> {inv_provider res}) (mgr_registry m) (mgr_registry m')"
      using evolves_trans [OF at(4) ih(4)] by simp
    with ih at show ?thesis by (intro exI [of _ "nm # pre"] exI [of _ post]) auto
  qed
qed simp

section \<open>Registries of the runtime's own providers\<close>

text \<open>
  The providers of \<open>providers/implementations.py\<close> turn every exception of their adapter
  into a \<open>ProviderError\<close>. In a registry of such providers the loop always goes on to the
  next candidate.
\<close>

definition managed :: "registry \<Rightarrow> bool" where
  "managed reg \<longleftrightarrow> (\<forall>nm p. dict_get reg nm = Some p \<longrightarrow> backend p \<noteq> CustomBackend)"

lemma managed_evolves: "evolves S reg reg' \<Longrightarrow> managed reg \<Longrightarrow> managed reg'"
proof -
  assume ev: "evolves S reg reg'" and mg: "managed reg"
  show ?thesis
    unfolding managed_def
  proof (intro allI impI)
    fix nm p'
    assume p': "dict_get reg' nm = Some p'"
    then have "dict_has reg nm" using evolves_has [OF ev] by (auto simp: dict_has_get)
    then obtain p where p: "dict_get reg nm = Some p" by (auto simp: dict_has_get)
    from evolves_get [OF ev p] p' have "backend p' = backend p" by auto
    with mg p show "backend p' \<noteq> CustomBackend" by (auto simp: managed_def)
  qed
qed

lemma invoke_managed:
  "backend p \<noteq> CustomBackend \<Longrightarrow> invoke env n p req = Inl e \<Longrightarrow>
     \<exists>cls msg. e = Exn cls msg \<and> issubclass cls ProviderError"
  by (cases e; cases "backend p") (auto simp: invoke_def wrap_exn_def split: sum.splits if_splits)

lemma complete_managed:
  "backend p \<noteq> CustomBackend \<Longrightarrow> complete env n req p = (Inl e, p', n') \<Longrightarrow>
     \<exists>cls msg. e = Exn cls msg \<and> issubclass cls ProviderError"
  using invoke_managed [of p env "n + 1" req]
  by (cases "fst (is_available_at (clock env n) p)")
     (auto simp: complete_def complete_at_served complete_at_refused unavailable_error_def
        split: prod.splits)

lemma attempt_managed:
  "backend p \<noteq> CustomBackend \<Longrightarrow> attempt env req nm p m = (Inl e, p', m') \<Longrightarrow>
     \<exists>cls msg. e = Exn cls msg \<and> issubclass cls ProviderError"
  by (auto simp: attempt_def split: prod.splits dest: complete_managed)

text \<open>The loop either answers, or has tried and failed over every candidate.\<close>

lemma try_managed:
  assumes "registry_wf (mgr_registry m)" "\<forall>nm \<in> set nms. dict_has (mgr_registry m) nm"
    and "managed (mgr_registry m)"
    and "try_candidates env req c cnt k failed nms m = (r, m')" and "saved m S"
  shows "(\<exists>res. r = Inr res) \<or>
         (r = Inl (exhausted_error cnt c) \<and>
          evolves (set nms) (mgr_registry m) (mgr_registry m') \<and> saved m' (S \<union> set nms) \<and>
          (mgr_bus m \<noteq> None \<longrightarrow>
             last (published (mgr_bus m')) =
               Provider_Event (AllProvidersExhausted (capability_value c) (failed @ nms)) \<and>
             selections (mgr_bus m') = selections (mgr_bus m) @ nms \<and>
             failovers (mgr_bus m') = failovers (mgr_bus m) @ nms))"
  using assms
proof (induction nms arbitrary: k failed m S)
  case Nil
  then show ?case by (auto simp: saved_def)
next
  case (Cons nm nms)
  from Cons.prems(2) have "dict_has (mgr_registry m) nm" by simp
  then obtain p q p' m2 where at:
    "dict_get (mgr_registry m) nm = Some p" "provider_name p = nm"
    "attempt env req nm p (emit (ProviderSelected nm (capability_value c) (int k)) m) = (q, p', m2)"
    "evolves {nm} (mgr_registry m) (mgr_registry m2)" "dict_get (mgr_registry m2) nm = Some p'"
    "provider_name p' = nm" "backend p' = backend p"
    "mgr_bus m2 = publish (Provider_Event (ProviderSelected nm (capability_value c) (int k))) (mgr_bus m)"
    "mgr_store m2 = mgr_store m" "registry_wf (mgr_registry m2)"
    by (rule attempt_cases [OF Cons.prems(1)])
  show ?case
  proof (cases q)
    case (Inr resp)
    with Cons.prems(4) at show ?thesis by auto
  next
    case (Inl e)
    from Cons.prems(3) at(1) have "backend p \<noteq> CustomBackend" by (simp add: managed_def)
    from attempt_managed [OF this] at(3) Inl
    obtain cls msg where e: "e = Exn cls msg" "issubclass cls ProviderError" by blast
    let ?m3 = "on_failure p' c cls msg m2"
    from Inl e Cons.prems(4) at have
      rec: "try_candidates env req c cnt (k + 1) (failed @ [nm]) nms ?m3 = (r, m')"
      by (auto split: if_splits)
    have "saved ?m3 (insert nm S)"
      by (rule saved_attempt [OF Cons.prems(5), of nm ?m3 p']) (use at in auto)
    moreover have "managed (mgr_registry ?m3)"
      using managed_evolves [OF at(4) Cons.prems(3)] by simp
    moreover have "\<forall>a \<in> set nms. dict_has (mgr_registry ?m3) a"
      using Cons.prems(2) evolves_has [OF at(4)] by simp
    ultimately have "(\<exists>res. r = Inr res) \<or>
         (r = Inl (exhausted_error cnt c) \<and>
          evolves (set nms) (mgr_registry m2) (mgr_registry m') \<and> saved m' (insert nm S \<union> set nms) \<and>
          (mgr_bus ?m3 \<noteq> None \<longrightarrow>
             last (published (mgr_bus m')) =
               Provider_Event (AllProvidersExhausted (capability_value c) ((failed @ [nm]) @ nms)) \<and>
             selections (mgr_bus m') = selections (mgr_bus ?m3) @ nms \<and>
             failovers (mgr_bus m') = failovers (mgr_bus ?m3) @ nms))"
      using Cons.IH [of ?m3 "k + 1" "failed @ [nm]" "insert nm S"] rec at(10) by simp
    then show ?thesis
      using evolves_trans [OF at(4), of "set nms" "mgr_registry m'"] at(8) at(6) by auto
  qed
qed

text \<open>A local provider without an adapter that is available answers when its turn comes.\<close>

lemma local_attempt:
  assumes "status p = AVAILABLE" "backend p = LocalBackend False"
    and "attempt env req nm p m = (r, p', m')"
  shows "r = Inr (local_fallback req)"
proof -
  from assms(1) have "fst (is_available_at (clock env (moment m)) p)"
    by (simp add: refresh_def)
  with assms(2,3) show ?thesis
    by (auto simp: attempt_def complete_def complete_at_served invoke_def split: prod.splits)
qed

lemma try_local:
  assumes "registry_wf (mgr_registry m)" "\<forall>nm \<in> set nms. dict_has (mgr_registry m) nm"
    and "managed (mgr_registry m)" "distinct nms" "loc \<in> set nms"
    and "dict_get (mgr_registry m) loc = Some p" "status p = AVAILABLE"
    and "backend p = LocalBackend False"
  shows "\<exists>res m'. try_candidates env req c cnt k failed nms m = (Inr res, m')"
  using assms
proof (induction nms arbitrary: k failed m)
  case (Cons nm nms)
  from Cons.prems(2) have "dict_has (mgr_registry m) nm" by simp
  then obtain q r q' m2 where at:
    "dict_get (mgr_registry m) nm = Some q" "provider_name q = nm"
    "attempt env req nm q (emit (ProviderSelected nm (capability_value c) (int k)) m) = (r, q', m2)"
    "evolves {nm} (mgr_registry m) (mgr_registry m2)" "dict_get (mgr_registry m2) nm = Some q'"
    "provider_name q' = nm" "backend q' = backend q"
    "mgr_bus m2 = publish (Provider_Event (ProviderSelected nm (capability_value c) (int k))) (mgr_bus m)"
    "mgr_store m2 = mgr_store m" "registry_wf (mgr_registry m2)"
    by (rule attempt_cases [OF Cons.prems(1)])
  show ?case
  proof (cases r)
    case (Inr resp)
    with at show ?thesis by auto
  next
    case (Inl e)
    with local_attempt [OF _ _ at(3)] Cons.prems(6-8) at(1) have neq: "nm \<noteq> loc" by auto
    from Cons.prems(3) at(1) have "backend q \<noteq> CustomBackend" by (simp add: managed_def)
    from attempt_managed [OF this] at(3) Inl
    obtain cls msg where e: "e = Exn cls msg" "issubclass cls ProviderError" by blast
    let ?m3 = "on_failure q' c cls msg m2"
    have "\<exists>res m'. try_candidates env req c cnt (k + 1) (failed @ [nm]) nms ?m3 = (Inr res, m')"
    proof (rule Cons.IH)
      show "managed (mgr_registry ?m3)" using managed_evolves [OF at(4) Cons.prems(3)] by simp
      show "\<forall>a \<in> set nms. dict_has (mgr_registry ?m3) a"
        using Cons.prems(2) evolves_has [OF at(4)] by simp
      show "dict_get (mgr_registry ?m3) loc = Some p"
        using evolves_same [OF at(4), of loc] neq Cons.prems(6) by simp
    qed (use Cons.prems neq at in auto)
    with Inl e at show ?thesis by auto
  qed
qed simp

section \<open>Every call keeps the invariants\<close>

definition manager_wf :: "manager \<Rightarrow> bool" where
  "manager_wf m \<longleftrightarrow>
     registry_wf (mgr_registry m) \<and>
     (\<forall>nm p. dict_get (mgr_registry m) nm = Some p \<longrightarrow> provider_wf p)"

lemma evolves_manager_wf:
  "evolves S (mgr_registry m) (mgr_registry m') \<Longrightarrow> manager_wf m \<Longrightarrow> manager_wf m'"
proof -
  assume ev: "evolves S (mgr_registry m) (mgr_registry m')" and wf: "manager_wf m"
  have "provider_wf p'" if p': "dict_get (mgr_registry m') nm = Some p'" for nm p'
  proof -
    from p' have "dict_has (mgr_registry m) nm" using evolves_has [OF ev] by (auto simp: dict_has_get)
    then obtain p where p: "dict_get (mgr_registry m) nm = Some p" by (auto simp: dict_has_get)
    with ev p' have "provider_wf p \<longrightarrow> provider_wf p'" unfolding evolves_def by fastforce
    with wf p show ?thesis by (auto simp: manager_wf_def)
  qed
  with evolves_wf [OF ev] wf show ?thesis by (auto simp: manager_wf_def)
qed

lemma try_evolves:
  "registry_wf (mgr_registry m) \<Longrightarrow> \<forall>nm \<in> set nms. dict_has (mgr_registry m) nm \<Longrightarrow>
     evolves (set nms) (mgr_registry m)
       (mgr_registry (snd (try_candidates env req c cnt k failed nms m)))"
proof (induction nms arbitrary: k failed m)
  case (Cons nm nms)
  from Cons.prems(2) have "dict_has (mgr_registry m) nm" by simp
  then obtain p r p' m2 where at:
    "dict_get (mgr_registry m) nm = Some p" "provider_name p = nm"
    "attempt env req nm p (emit (ProviderSelected nm (capability_value c) (int k)) m) = (r, p', m2)"
    "evolves {nm} (mgr_registry m) (mgr_registry m2)" "dict_get (mgr_registry m2) nm = Some p'"
    "provider_name p' = nm" "backend p' = backend p"
    "mgr_bus m2 = publish (Provider_Event (ProviderSelected nm (capability_value c) (int k))) (mgr_bus m)"
    "mgr_store m2 = mgr_store m" "registry_wf (mgr_registry m2)"
    by (rule attempt_cases [OF Cons.prems(1)])
  have stop: "evolves (set (nm # nms)) (mgr_registry m) (mgr_registry m2)"
    by (rule evolves_mono [OF at(4)]) simp
  have "\<forall>a \<in> set nms. dict_has (mgr_registry m2) a"
    using Cons.prems(2) evolves_has [OF at(4)] by simp
  with at(10) have ih: "evolves (set nms) (mgr_registry m2) (mgr_registry
      (snd (try_candidates env req c cnt (k + 1) (failed @ [nm]) nms (on_failure p' c cls msg m2))))"
    for cls msg
    using Cons.IH [of "on_failure p' c cls msg m2" "k + 1" "failed @ [nm]"] by simp
  have go: "evolves (set (nm # nms)) (mgr_registry m) (mgr_registry
      (snd (try_candidates env req c cnt (k + 1) (failed @ [nm]) nms (on_failure p' c cls msg m2))))"
    for cls msg
    using evolves_trans [OF at(4) ih [of cls msg]] by simp
  show ?case
    using at(1-3,6) stop go by (auto split: sum.split exn.split)
qed simp

lemma manager_complete_evolves:
  assumes "registry_wf (mgr_registry m)"
  shows "evolves (set (ordered_names (mgr_registry m) c order)) (mgr_registry m)
           (mgr_registry (snd (manager_complete env req c order m)))"
proof -
  obtain names m1 where cand: "candidates env c order m = (names, m1)" by (metis surj_pair)
  from candidates_evolves [OF cand] have
    ev: "evolves (set (ordered_names (mgr_registry m) c order)) (mgr_registry m) (mgr_registry m1)"
    by simp
  have sub: "set names \<subseteq> set (ordered_names (mgr_registry m) c order)"
    using candidates_names [OF cand] check_available_subset by blast
  have "evolves (set names) (mgr_registry m1)
      (mgr_registry (snd (try_candidates env req c (length names) 1 [] names m1)))"
    using evolves_wf [OF ev assms] candidates_has [OF cand assms] by (intro try_evolves) auto
  from evolves_trans [OF ev this] ev sub cand show ?thesis
    by (auto simp: manager_complete_def Un_absorb2)
qed

text \<open>Operations of the manager over its life.\<close>

datatype manager_op =
  Complete environment LLMRequest Capability "string list option"
| Candidates environment Capability "string list option"

fun manager_step :: "manager \<Rightarrow> manager_op \<Rightarrow> manager" where
  "manager_step m (Complete env req c order) = snd (manager_complete env req c order m)"
| "manager_step m (Candidates env c order) = snd (candidates env c order m)"

interpretation manager_sys: invariant_system manager_step manager_wf
proof unfold_locales
  fix m e
  assume wf: "manager_wf m"
  show "manager_wf (manager_step m e)"
  proof (cases e)
    case (Complete env req c order)
    have "manager_wf (snd (manager_complete env req c order m))"
      by (rule evolves_manager_wf [OF manager_complete_evolves wf])
         (use wf in \<open>simp add: manager_wf_def\<close>)
    with Complete show ?thesis by simp
  next
    case (Candidates env c order)
    with candidates_evolves [of env c order m] wf show ?thesis
      by (auto intro: evolves_manager_wf simp: prod_eq_iff)
  qed
qed

text \<open>Asking for availability leaves an available provider as it is.\<close>

lemma check_available_keeps:
  "check_available env nms reg n = (cs, reg', n') \<Longrightarrow> dict_get reg a = Some p \<Longrightarrow>
     status p = AVAILABLE \<Longrightarrow> dict_get reg' a = Some p"
proof (induction nms arbitrary: reg n cs reg' n')
  case (Cons nm nms)
  show ?case
  proof (cases "dict_get reg nm")
    case None
    with Cons show ?thesis by simp
  next
    case (Some q)
    let ?q = "snd (refresh (clock env n) q)"
    from Cons.prems(1) Some obtain rest where
      rest: "check_available env nms (dict_set nm ?q reg) (n + 1) = (rest, reg', n')"
      by (auto simp: is_available_simp split: prod.splits)
    have "dict_get (dict_set nm ?q reg) a = Some p"
      using Some Cons.prems(2,3) by (auto simp: refresh_def)
    from Cons.IH [OF rest this Cons.prems(3)] show ?thesis .
  qed
qed simp

text \<open>An explicit order that names nobody twice.\<close>

definition order_ok :: "string list option \<Rightarrow> bool" where
  "order_ok order \<longleftrightarrow> (case order of None \<Rightarrow> True | Some names \<Rightarrow> distinct names)"

lemma order_ok_simps [simp]: "order_ok None" "order_ok (Some names) \<longleftrightarrow> distinct names"
  by (simp_all add: order_ok_def)

lemma ordered_names_distinct:
  assumes "registry_wf reg" "order_ok order"
  shows "distinct (ordered_names reg c order)"
proof (cases order)
  case None
  with for_capability_names_distinct [OF assms(1)] show ?thesis
    by (simp add: ordered_names_None [OF assms(1)])
qed (use assms(2) in \<open>simp add: ordered_names_def\<close>)

lemma ordered_names_has:
  "registry_wf reg \<Longrightarrow> nm \<in> set (ordered_names reg c order) \<Longrightarrow> dict_has reg nm"
  by (auto simp: dict_has_get dest: ordered_names_in)

lemma candidates_spec:
  assumes "registry_wf (mgr_registry m)" "order_ok order"
  shows "fst (candidates env c order m) =
           map fst (filter (\<lambda>(nm, i). servable env (mgr_registry m) nm i)
             (let nms = ordered_names (mgr_registry m) c order
              in zip nms [moment m..<moment m + length nms]))"
proof -
  have "fst (candidates env c order m) =
      fst (check_available env (ordered_names (mgr_registry m) c order) (mgr_registry m) (moment m))"
    by (cases "candidates env c order m") (simp add: candidates_names)
  with check_available_spec [of _ "mgr_registry m", OF ordered_names_distinct [OF assms]]
    ordered_names_has [OF assms(1)]
  show ?thesis by (simp add: Let_def)
qed

lemma candidates_distinct:
  assumes "registry_wf (mgr_registry m)" "order_ok order"
  shows "distinct (fst (candidates env c order m))"
  unfolding candidates_spec [OF assms] Let_def
  using ordered_names_distinct [OF assms]
  by (intro distinct_map_filter) simp

text \<open>A provider that is available and within its budget is a candidate.\<close>

lemma candidates_available:
  assumes "registry_wf (mgr_registry m)" "order_ok order"
    and "a \<in> set (ordered_names (mgr_registry m) c order)"
    and "dict_get (mgr_registry m) a = Some p" "status p = AVAILABLE" "has_budget p 0"
  shows "a \<in> set (fst (candidates env c order m))"
proof -
  let ?nms = "ordered_names (mgr_registry m) c order"
  from assms(3) obtain j where j: "j < length ?nms" "?nms ! j = a" by (auto simp: in_set_conv_nth)
  then have "(a, moment m + j) \<in> set (zip ?nms [moment m..<moment m + length ?nms])"
    by (force simp: in_set_zip)
  moreover have "servable env (mgr_registry m) a (moment m + j)"
    using assms(4-6) by (simp add: servable_def refresh_def)
  ultimately show ?thesis
    unfolding candidates_spec [OF assms(1,2)] Let_def by (force simp: image_iff)
qed

section \<open>A sample runtime\<close>

text \<open>Used where a property is applied at a concrete input.\<close>

definition sample_request :: LLMRequest where
  "sample_request =
     \<lparr>req_model = ''m'',
      messages = [\<lparr>msg_role = ''user'', msg_content = ''hello'', msg_metadata = []\<rparr>],
      max_tokens = None, temperature = None, top_p = None, stop = None, response_format = None,
      req_tools = None, req_metadata = []\<rparr>"

definition sample_env :: environment where
  "sample_env =
     \<lparr>clock = (\<lambda>n. int n * 1000000),
      vendor = (\<lambda>nm req n. Inl (Exn ProviderRateLimited ''429''))\<rparr>"

definition sample_manager :: "event_bus \<Rightarrow> manager" where
  "sample_manager bus =
     \<lparr>mgr_registry = [(''claude'', new_provider claude_profile AdapterBackend),
                      (''local'', new_provider local_profile (LocalBackend False))],
      mgr_store = [], mgr_bus = bus, moment = 0\<rparr>"

lemmas sample_defs =
  sample_request_def sample_env_def sample_manager_def new_provider_def new_health_def
  claude_profile_def local_profile_def mk_profile_def

lemma sample_registry_wf [simp]: "registry_wf (mgr_registry (sample_manager bus))"
  by (simp add: registry_wf_def dict_ok_def sample_defs)

lemma sample_managed [simp]: "managed (mgr_registry (sample_manager bus))"
  by (simp add: managed_def sample_defs)

lemma sample_manager_wf [simp]: "manager_wf (sample_manager bus)"
  unfolding manager_wf_def
  by (rule conjI, simp) (auto simp: sample_defs provider_wf_def split: if_splits)

section \<open>Properties\<close>

text \<open>
  The candidates of a call are exactly the providers that declare the capability (in
  the default order, or those of the explicit order), in that order, whose cooldown is over
  at the moment each is asked and whose budget is not used up.
\<close>

theorem candidates_functional:
  assumes "registry_wf (mgr_registry m)" "order_ok order"
  shows "fst (candidates env c order m) =
           map fst (filter (\<lambda>(nm, i). servable env (mgr_registry m) nm i)
             (let nms = (case order of
                           None \<Rightarrow> map provider_name (for_capability (mgr_registry m) c)
                         | Some names \<Rightarrow> filter (\<lambda>nm. case dict_get (mgr_registry m) nm of
                                None \<Rightarrow> False | Some p \<Rightarrow> supports (profile p) c) names)
              in zip nms [moment m..<moment m + length nms]))"
proof -
  have "ordered_names (mgr_registry m) c (Some names) =
      filter (\<lambda>nm. case dict_get (mgr_registry m) nm of
                     None \<Rightarrow> False | Some p \<Rightarrow> supports (profile p) c) names" for names
    unfolding ordered_names_def
    by (auto intro!: filter_cong simp: supporting_has [OF assms(1)] split: option.splits)
  with ordered_names_None [OF assms(1)] candidates_spec [OF assms, of env c]
  show ?thesis by (cases order) (simp_all add: Let_def)
qed

theorem candidates_functional_witness:
  "fst (candidates sample_env REVIEW (Some [''local'', ''claude'']) (sample_manager None)) = [''claude'']"
  using candidates_functional [OF sample_registry_wf, of "Some [''local'', ''claude'']"
      sample_env REVIEW None]
  by (simp add: servable_def sample_defs supports_def refresh_def has_budget_def
      remaining_budget_def)

text \<open>
  C1: an answer comes from the first candidate that works. The candidates before it are
  exactly the ones failed over from, in order, the attempt count says so, the selection and
  failover events record the whole path, the health of every provider tried is in the
  store, and no other provider changed after the candidates were chosen.
\<close>

theorem manager_answers_from_first_working:
  assumes "registry_wf (mgr_registry m)" "mgr_bus m \<noteq> None"
    and "candidates env c order m = (names, m1)"
    and "manager_complete env req c order m = (Inr res, m')"
  shows "\<exists>post. names = failed_over_from res @ inv_provider res # post \<and>
           inv_attempts res = 1 + length (failed_over_from res) \<and>
           selections (mgr_bus m') =
             selections (mgr_bus m) @ failed_over_from res @ [inv_provider res] \<and>
           failovers (mgr_bus m') = failovers (mgr_bus m) @ failed_over_from res \<and>
           saved m' (set (failed_over_from res) \<union> {inv_provider res}) \<and>
           evolves (set (failed_over_from res) \<union> {inv_provider res})
             (mgr_registry m1) (mgr_registry m')"
proof -
  from candidates_evolves [OF assms(3)] have
    ev: "evolves (set (ordered_names (mgr_registry m) c order)) (mgr_registry m) (mgr_registry m1)"
    and bus: "mgr_bus m1 = mgr_bus m"
    by auto
  from assms(3,4) have "try_candidates env req c (length names) 1 [] names m1 = (Inr res, m')"
    by (auto simp: manager_complete_def split: if_splits)
  from try_success [OF evolves_wf [OF ev assms(1)] _ this, of "{}"]
    candidates_has [OF assms(3,1)] bus assms(2)
  show ?thesis by (auto simp: saved_def)
qed

theorem manager_answers_from_first_working_witness:
  "\<exists>res m' post.
     manager_complete sample_env sample_request CODE_GENERATION None (sample_manager (Some [])) =
       (Inr res, m') \<and>
     [''claude'', ''local''] = failed_over_from res @ inv_provider res # post"
proof -
  let ?m = "sample_manager (Some [])"
  obtain res m' where call:
    "manager_complete sample_env sample_request CODE_GENERATION None ?m = (Inr res, m')"
    by (simp add: manager_complete_def candidates_def check_available.simps is_available_simp
        ordered_names_def supporting_def for_capability_def ordered_def sample_defs refresh_def
        supports_def order_key_def less_eq_prod_def less_prod_def has_budget_def remaining_budget_def
        attempt_def complete_def complete_at_def is_available_at_def invoke_def wrap_exn_def
        record_failure_def Let_def)
  obtain m1 where "candidates sample_env CODE_GENERATION None ?m = ([''claude'', ''local''], m1)"
    by (simp add: candidates_def is_available_simp
        ordered_names_def supporting_def for_capability_def ordered_def sample_defs refresh_def
        supports_def order_key_def less_eq_prod_def less_prod_def has_budget_def remaining_budget_def)
  moreover have "mgr_bus ?m \<noteq> None" by (simp add: sample_manager_def)
  ultimately show ?thesis
    using manager_answers_from_first_working [OF sample_registry_wf _ _ call] call by blast
qed

text \<open>An available local provider within budget answers.\<close>

lemma local_provider_answers:
  assumes "registry_wf (mgr_registry m)" "managed (mgr_registry m)" "order_ok order"
    and "dict_get (mgr_registry m) a = Some p" "backend p = LocalBackend False"
    and "status p = AVAILABLE" "has_budget p 0" "supports (profile p) c"
    and "case order of None \<Rightarrow> True | Some names \<Rightarrow> a \<in> set names"
  shows "\<exists>res m'. manager_complete env req c order m = (Inr res, m')"
proof -
  obtain names m1 where cand: "candidates env c order m = (names, m1)" by (metis surj_pair)
  from candidates_evolves [OF cand] have
    ev: "evolves (set (ordered_names (mgr_registry m) c order)) (mgr_registry m) (mgr_registry m1)"
    by auto
  have sup: "dict_has (supporting (mgr_registry m) c) a"
    using assms(4,8) by (auto simp: supporting_has [OF assms(1)])
  then have "a \<in> set (ordered_names (mgr_registry m) c order)"
    using assms(9) by (cases order) (auto simp: ordered_names_def dict_has_def)
  from candidates_available [OF assms(1,3) this assms(4,6,7), of env] cand
  have a: "a \<in> set names" by simp
  have keep: "dict_get (mgr_registry m1) a = Some p"
    using cand check_available_keeps [OF _ assms(4,6)]
    by (auto simp: candidates_def split: prod.splits)
  have "\<exists>res m'. try_candidates env req c (length names) 1 [] names m1 = (Inr res, m')"
    using try_local [OF evolves_wf [OF ev assms(1)] _ managed_evolves [OF ev assms(2)] _ a keep
        assms(6,5)] candidates_has [OF cand assms(1)] candidates_distinct [OF assms(1,3), of env c]
      cand by simp
  with cand a show ?thesis by (auto simp: manager_complete_def)
qed

text \<open>
  Graceful degradation. In a runtime built of the project's own providers, a call for a
  capability that the adapterless local provider declares always produces an answer,
  whatever the vendors and the clock do, as long as the local provider is available, within
  budget and in the order.
\<close>

theorem local_provider_degrades_gracefully:
  assumes "registry_wf (mgr_registry m)" "managed (mgr_registry m)" "order_ok order"
    and "dict_get (mgr_registry m) a = Some p" "backend p = LocalBackend False"
    and "status p = AVAILABLE" "has_budget p 0" "supports (profile p) c"
    and "case order of None \<Rightarrow> True | Some names \<Rightarrow> a \<in> set names"
  shows "\<exists>res m'. manager_complete env req c order m = (Inr res, m')"
  using assms by (rule local_provider_answers)

theorem local_provider_degrades_gracefully_witness:
  "\<exists>res m'. manager_complete sample_env sample_request EXTRACTION None (sample_manager None) = (Inr res, m')"
  by (rule local_provider_degrades_gracefully
      [OF sample_registry_wf sample_managed, where a = "''local''" and
        p = "new_provider local_profile (LocalBackend False)"])
    (simp_all add: sample_defs has_budget_def
      remaining_budget_def supports_def)

text \<open>
  C2: in such a runtime a call without an answer raises \<open>NoProviderAvailable\<close> and nothing
  else. If there were candidates, every one of them was selected and failed over from, in
  order, their health is in the store, and the last event names them all.
\<close>

theorem manager_failure_is_exhaustion:
  assumes "registry_wf (mgr_registry m)" "managed (mgr_registry m)" "mgr_bus m \<noteq> None"
    and "manager_complete env req c order m = (Inl e, m')"
  shows "(let names = fst (candidates env c order m) in
            e = (if names = [] then none_available_error c else exhausted_error (length names) c) \<and>
            last (published (mgr_bus m')) =
              Provider_Event (AllProvidersExhausted (capability_value c) names) \<and>
            selections (mgr_bus m') = selections (mgr_bus m) @ names \<and>
            failovers (mgr_bus m') = failovers (mgr_bus m) @ names \<and>
            saved m' (set names))"
proof -
  obtain names m1 where cand: "candidates env c order m = (names, m1)" by (metis surj_pair)
  from candidates_evolves [OF cand] have
    ev: "evolves (set (ordered_names (mgr_registry m) c order)) (mgr_registry m) (mgr_registry m1)"
    and bus: "mgr_bus m1 = mgr_bus m"
    by auto
  show ?thesis
  proof (cases "names = []")
    case True
    with cand assms(3,4) bus show ?thesis
      by (auto simp: manager_complete_def saved_def)
  next
    case False
    with cand assms(4)
    have "try_candidates env req c (length names) 1 [] names m1 = (Inl e, m')"
      by (simp add: manager_complete_def)
    from try_managed [OF evolves_wf [OF ev assms(1)] _ managed_evolves [OF ev assms(2)] this, of "{}"]
      candidates_has [OF cand assms(1)] bus assms(3) False cand
    show ?thesis by (auto simp: saved_def)
  qed
qed

theorem manager_failure_is_exhaustion_witness:
  "\<exists>m'. manager_complete sample_env sample_request REVIEW None (sample_manager (Some [])) =
          (Inl (exhausted_error 1 REVIEW), m') \<and>
        selections (mgr_bus m') = [''claude'']"
proof -
  let ?m = "sample_manager (Some [])"
  obtain e m' where call:
    "manager_complete sample_env sample_request REVIEW None ?m = (Inl e, m')"
    by (simp add: manager_complete_def candidates_def check_available.simps is_available_simp
        ordered_names_def supporting_def for_capability_def ordered_def sample_defs refresh_def
        supports_def has_budget_def remaining_budget_def
        attempt_def complete_def complete_at_def is_available_at_def invoke_def wrap_exn_def
        record_failure_def Let_def)
  have names: "fst (candidates sample_env REVIEW None ?m) = [''claude'']"
    by (simp add: candidates_def is_available_simp
        ordered_names_def supporting_def for_capability_def ordered_def sample_defs refresh_def
        supports_def has_budget_def remaining_budget_def)
  have "mgr_bus ?m \<noteq> None" "selections (mgr_bus ?m) = []"
    by (simp_all add: sample_manager_def selections_def List.map_filter_def)
  with manager_failure_is_exhaustion [OF _ _ _ call] call names show ?thesis
    by (simp add: Let_def)
qed

text \<open>
  Whatever sequence of calls and candidate queries a manager serves, with any clock and
  any vendors, its registry stays well formed (keys distinct, each provider under its name)
  and every provider keeps its invariant.
\<close>

theorem manager_invariant:
  assumes "manager_wf m"
  shows "manager_wf (run manager_step m ops)"
  by (rule manager_sys.run_inv [OF assms])

theorem manager_invariant_witness:
  "manager_wf (run manager_step (sample_manager None)
     [Complete sample_env sample_request REVIEW None, Candidates sample_env REVIEW None])"
  by (rule manager_invariant) simp

end
