(* ===== verification/Routing.thy ===== *)
theory Routing
  imports Provider_Registry "HOL-Library.Multiset"
begin

text \<open>
  \<open>providers/routing.py\<close>: the deterministic, cost- and quality-aware provider ordering.
  Scores are exact rationals; \<open>round(x, 6)\<close> rounds half to even. Everything is a function of
  the request, the policy and the registered profiles; only \<open>route\<close> touches the event bus.
\<close>

datatype TaskComplexity = TRIVIAL | SIMPLE | MODERATE | COMPLEX | CRITICAL

fun complexity_value_score :: "TaskComplexity \<Rightarrow> rat" where
  "complexity_value_score TRIVIAL = 1 / 10"
| "complexity_value_score SIMPLE = 3 / 10"
| "complexity_value_score MODERATE = 1 / 2"
| "complexity_value_score COMPLEX = 8 / 10"
| "complexity_value_score CRITICAL = 1"

definition quality_threshold :: rat where
  "quality_threshold = 1 / 2"

record RoutingRequest =
  rr_capability :: Capability
  rr_task_type :: string
  estimated_tokens :: int
  priority :: int
  retry_count :: int
  complexity_hint :: "TaskComplexity option"

record RoutingPolicy =
  task_type_complexity :: "(string, TaskComplexity) dict"
  default_complexity :: TaskComplexity
  priority_weight :: rat
  retry_escalation :: rat

definition default_routing_policy :: RoutingPolicy where
  "default_routing_policy =
     \<lparr>task_type_complexity =
        [(''architecture'', CRITICAL), (''review'', COMPLEX), (''analysis'', COMPLEX),
         (''refactor'', COMPLEX), (''spec'', COMPLEX), (''codegen'', MODERATE),
         (''testing'', SIMPLE), (''extraction'', TRIVIAL), (''ingest'', TRIVIAL)],
      default_complexity = MODERATE, priority_weight = 3 / 100, retry_escalation = 15 / 100\<rparr>"

text \<open>The head segment of the task type decides, not the longest matching prefix.\<close>

definition base_complexity :: "RoutingPolicy \<Rightarrow> string \<Rightarrow> TaskComplexity" where
  "base_complexity pol ty =
     dict_get_default (task_type_complexity pol) (before_dot ty) (default_complexity pol)"

record RoutingDecision =
  rd_capability :: Capability
  complexity_score :: rat
  ordered_providers :: "string list"
  provider_scores :: "(string \<times> rat) list"
  rd_reason :: string

definition clamp :: "rat \<Rightarrow> rat \<Rightarrow> rat \<Rightarrow> rat" where
  "clamp v low high = max low (min high v)"

definition compute_complexity :: "RoutingPolicy \<Rightarrow> RoutingRequest \<Rightarrow> rat" where
  "compute_complexity pol req =
     (let base = complexity_value_score
                   (case complexity_hint req of
                      Some h \<Rightarrow> h | None \<Rightarrow> base_complexity pol (rr_task_type req))
      in clamp (base + of_int (priority req) * priority_weight pol
                     + of_int (retry_count req) * retry_escalation pol) 0 1)"

section \<open>Ranking\<close>

definition normalized_cost :: "rat \<Rightarrow> rat \<Rightarrow> provider \<Rightarrow> rat" where
  "normalized_cost lo hi p =
     (if hi - lo = 0 then 1 / 2 else (cost_per_1k_tokens (profile p) - lo) / (hi - lo))"

definition affinity :: "rat \<Rightarrow> rat \<Rightarrow> rat" where
  "affinity complexity ncost = complexity * ncost + (1 - complexity) * (1 - ncost)"

definition provider_score :: "rat \<Rightarrow> rat \<Rightarrow> rat \<Rightarrow> provider \<Rightarrow> rat" where
  "provider_score lo hi complexity p =
     py_round (affinity complexity (normalized_cost lo hi p) * weight (profile p)) 6"

text \<open>\<open>min\<close> and \<open>max\<close> of the candidates' costs; the candidates are never empty.\<close>

definition cost_range :: "provider list \<Rightarrow> rat \<times> rat" where
  "cost_range ps =
     (let costs = map (\<lambda>p. cost_per_1k_tokens (profile p)) ps
      in (foldr min (tl costs) (hd costs), foldr max (tl costs) (hd costs)))"

definition rank :: "provider list \<Rightarrow> rat \<Rightarrow> (string \<times> rat) list" where
  "rank ps complexity =
     (case cost_range ps of (lo, hi) \<Rightarrow>
        sort_key (\<lambda>(n, s). (- s, n))
          (map (\<lambda>p. (provider_name p, provider_score lo hi complexity p)) ps))"

definition fitting :: "int \<Rightarrow> provider list \<Rightarrow> provider list" where
  "fitting tokens ps = filter (\<lambda>p. tokens \<le> context_window (profile p)) ps"

definition decide_route :: "RoutingPolicy \<Rightarrow> registry \<Rightarrow> RoutingRequest \<Rightarrow> RoutingDecision" where
  "decide_route pol reg req =
     (let score = compute_complexity pol req;
          supp = for_capability reg (rr_capability req)
      in if supp = [] then
           \<lparr>rd_capability = rr_capability req, complexity_score = score, ordered_providers = [],
            provider_scores = [],
            rd_reason = ''no provider declares capability '' @
                        repr_str (capability_value (rr_capability req))\<rparr>
         else
           let fit = fitting (estimated_tokens req) supp;
               (cands, note) = (if fit \<noteq> [] then (fit, ''context-fit'')
                                else (supp, ''context-overflow-relaxed''));
               ranked = rank cands score
           in \<lparr>rd_capability = rr_capability req, complexity_score = score,
               ordered_providers = map fst ranked, provider_scores = ranked,
               rd_reason = ''complexity='' @ fixed2 score @ '' ('' @ note @ ''); '' @
                           (if quality_threshold \<le> score then ''quality-weighted''
                            else ''cost-weighted'') @ '' order''\<rparr>)"

definition route ::
  "RoutingPolicy \<Rightarrow> registry \<Rightarrow> RoutingRequest \<Rightarrow> event_bus \<Rightarrow> RoutingDecision \<times> event_bus" where
  "route pol reg req bus =
     (let d = decide_route pol reg req
      in (d, publish (Provider_Event (RoutingDecided (capability_value (rd_capability d))
                (complexity_score d) (ordered_providers d) (rd_reason d))) bus))"

section \<open>Complexity\<close>

lemma clamp_bounds: "low \<le> high \<Longrightarrow> low \<le> clamp v low high \<and> clamp v low high \<le> high"
  by (simp add: clamp_def)

lemma clamp_mono: "v \<le> w \<Longrightarrow> clamp v low high \<le> clamp w low high"
  by (auto simp: clamp_def)

lemma compute_complexity_bounds: "0 \<le> compute_complexity pol req \<and> compute_complexity pol req \<le> 1"
  by (simp add: compute_complexity_def Let_def clamp_bounds)

text \<open>Priority and retries escalate.\<close>

lemma compute_complexity_mono:
  assumes "0 \<le> priority_weight pol" "0 \<le> retry_escalation pol"
    and "priority req \<le> priority req'" "retry_count req \<le> retry_count req'"
    and "rr_task_type req' = rr_task_type req" "complexity_hint req' = complexity_hint req"
  shows "compute_complexity pol req \<le> compute_complexity pol req'"
  unfolding compute_complexity_def Let_def
  using assms
  by (intro clamp_mono add_mono mult_right_mono) (simp_all split: option.split)

section \<open>Ranking\<close>

lemma set_rank:
  "set (rank ps x) = (\<lambda>p. (provider_name p, provider_score (fst (cost_range ps)) (snd (cost_range ps)) x p)) ` set ps"
  by (cases "cost_range ps") (simp add: rank_def)

lemma rank_mset_names: "mset (map fst (rank ps x)) = mset (map provider_name ps)"
  by (cases "cost_range ps") (simp add: rank_def multiset.map_comp comp_def)

lemma sorted_rank: "sorted (map (\<lambda>(n, s). (- s, n)) (rank ps x))"
  by (simp add: rank_def split: prod.splits)

lemma foldr_min_le: "foldr min xs a \<le> (a::rat) \<and> (\<forall>x \<in> set xs. foldr min xs a \<le> x)"
  by (induction xs) (auto simp: min_le_iff_disj)

lemma foldr_max_ge: "(a::rat) \<le> foldr max xs a \<and> (\<forall>x \<in> set xs. x \<le> foldr max xs a)"
  by (induction xs) (auto simp: le_max_iff_disj)

lemma cost_range_bounds:
  "p \<in> set ps \<Longrightarrow> fst (cost_range ps) \<le> cost_per_1k_tokens (profile p) \<and>
     cost_per_1k_tokens (profile p) \<le> snd (cost_range ps)"
  using foldr_min_le [of "map (\<lambda>p. cost_per_1k_tokens (profile p)) (tl ps)"]
    foldr_max_ge [of _ "map (\<lambda>p. cost_per_1k_tokens (profile p)) (tl ps)"]
  by (cases ps) (auto simp: cost_range_def Let_def)

lemma normalized_cost_bounds:
  "p \<in> set ps \<Longrightarrow> cost_range ps = (lo, hi) \<Longrightarrow>
     0 \<le> normalized_cost lo hi p \<and> normalized_cost lo hi p \<le> 1"
  using cost_range_bounds [of p ps]
  by (auto simp: normalized_cost_def divide_simps)

lemma normalized_cost_mono:
  "lo \<le> hi \<Longrightarrow> cost_per_1k_tokens (profile p) \<le> cost_per_1k_tokens (profile q) \<Longrightarrow>
     normalized_cost lo hi p \<le> normalized_cost lo hi q"
  by (auto simp: normalized_cost_def divide_right_mono)

lemma affinity_alt: "affinity c n = (1 - c) + (2 * c - 1) * n"
  by (simp add: affinity_def algebra_simps)

lemma affinity_bounds: "0 \<le> c \<Longrightarrow> c \<le> 1 \<Longrightarrow> 0 \<le> n \<Longrightarrow> n \<le> 1 \<Longrightarrow> 0 \<le> affinity c n \<and> affinity c n \<le> 1"
  unfolding affinity_def
  using convex_bound_le [of n 1 "1 - n" c "1 - c"] by auto

lemma affinity_mono_quality: "1 / 2 \<le> c \<Longrightarrow> m \<le> n \<Longrightarrow> affinity c m \<le> affinity c n"
  by (simp add: affinity_alt mult_left_mono)

lemma affinity_mono_cost: "c \<le> 1 / 2 \<Longrightarrow> m \<le> n \<Longrightarrow> affinity c n \<le> affinity c m"
  by (simp add: affinity_alt mult_left_mono_neg)

text \<open>
  The preference the documentation states: at or above the threshold a dearer provider
  of the same weight never scores lower, at or below it a cheaper one never does.
\<close>

lemma provider_score_quality:
  assumes "lo \<le> hi" "quality_threshold \<le> c" "weight (profile p) = weight (profile q)"
    "0 \<le> weight (profile p)" "cost_per_1k_tokens (profile p) \<le> cost_per_1k_tokens (profile q)"
  shows "provider_score lo hi c p \<le> provider_score lo hi c q"
  unfolding provider_score_def using assms
  by (auto intro!: py_round_mono mult_right_mono affinity_mono_quality normalized_cost_mono
      simp: quality_threshold_def)

lemma provider_score_cost:
  assumes "lo \<le> hi" "c \<le> quality_threshold" "weight (profile p) = weight (profile q)"
    "0 \<le> weight (profile p)" "cost_per_1k_tokens (profile p) \<le> cost_per_1k_tokens (profile q)"
  shows "provider_score lo hi c q \<le> provider_score lo hi c p"
  unfolding provider_score_def using assms
  by (auto intro!: py_round_mono mult_right_mono affinity_mono_cost normalized_cost_mono
      simp: quality_threshold_def)

text \<open>Of two entries of a ranking, the better score comes first; equal scores go by name.\<close>

definition precedes :: "'a \<Rightarrow> 'a \<Rightarrow> 'a list \<Rightarrow> bool" where
  "precedes x y xs \<longleftrightarrow> (\<exists>i j. i < j \<and> j < length xs \<and> xs ! i = x \<and> xs ! j = y)"

lemma precedes_total:
  "x \<in> set xs \<Longrightarrow> y \<in> set xs \<Longrightarrow> x \<noteq> y \<Longrightarrow> precedes x y xs \<or> precedes y x xs"
  unfolding precedes_def by (metis in_set_conv_nth linorder_neqE_nat)

lemma precedes_map: "precedes x y xs \<Longrightarrow> precedes (f x) (f y) (map f xs)"
  unfolding precedes_def by (metis dual_order.strict_trans length_map nth_map)

lemma rank_precedes:
  assumes "(a, s) \<in> set (rank ps x)" "(b, t) \<in> set (rank ps x)" "t < s \<or> t = s \<and> a < b"
  shows "precedes (a, s) (b, t) (rank ps x)"
proof -
  from assms(3) have neq: "(a, s) \<noteq> (b, t)" by auto
  have "\<not> precedes (b, t) (a, s) (rank ps x)"
  proof
    assume "precedes (b, t) (a, s) (rank ps x)"
    then obtain i j where "i < j" "j < length (rank ps x)" "rank ps x ! i = (b, t)"
      "rank ps x ! j = (a, s)"
      by (auto simp: precedes_def)
    with sorted_map_nth_mono [OF sorted_rank, of i j ps x] have "(- t, b) \<le> (- s, a)" by simp
    with assms(3) show False by (auto simp: less_eq_prod_def less_prod_def)
  qed
  with precedes_total [OF assms(1,2) neq] show ?thesis by simp
qed

section \<open>Decisions\<close>

text \<open>The candidates a decision ranks.\<close>

definition route_candidates :: "registry \<Rightarrow> RoutingRequest \<Rightarrow> provider list" where
  "route_candidates reg req =
     (let supp = for_capability reg (rr_capability req); fit = fitting (estimated_tokens req) supp
      in if fit \<noteq> [] then fit else supp)"

lemma decide_route_ranked:
  "provider_scores (decide_route pol reg req) =
     (if for_capability reg (rr_capability req) = [] then []
      else rank (route_candidates reg req) (compute_complexity pol req))"
  "ordered_providers (decide_route pol reg req) = map fst (provider_scores (decide_route pol reg req))"
  "complexity_score (decide_route pol reg req) = compute_complexity pol req"
  by (simp_all add: decide_route_def route_candidates_def Let_def split: prod.splits if_splits)

lemma route_candidates_supported:
  "set (route_candidates reg req) \<subseteq> set (for_capability reg (rr_capability req))"
  by (auto simp: route_candidates_def fitting_def Let_def)

lemma fitting_Nil: "fitting t [] = []"
  by (simp add: fitting_def)

lemma route_scores_in:
  assumes "p \<in> set (route_candidates reg req)"
  shows "(provider_name p,
          provider_score (fst (cost_range (route_candidates reg req)))
            (snd (cost_range (route_candidates reg req))) (compute_complexity pol req) p)
         \<in> set (provider_scores (decide_route pol reg req))"
proof -
  from assms route_candidates_supported have "for_capability reg (rr_capability req) \<noteq> []" by fastforce
  with assms show ?thesis by (auto simp: decide_route_ranked set_rank)
qed

lemma cost_range_le: "ps \<noteq> [] \<Longrightarrow> fst (cost_range ps) \<le> snd (cost_range ps)"
  using cost_range_bounds [of "hd ps" ps] by auto

lemma decide_route_precedes:
  fixes pol reg req
  defines "cands \<equiv> route_candidates reg req"
  defines "score \<equiv> provider_score (fst (cost_range cands)) (snd (cost_range cands))
                     (compute_complexity pol req)"
  assumes "p \<in> set cands" "q \<in> set cands"
    and "score p < score q \<or> score p = score q \<and> provider_name q < provider_name p"
  shows "precedes (provider_name q) (provider_name p) (ordered_providers (decide_route pol reg req))"
proof -
  from assms(3) route_candidates_supported have ne: "for_capability reg (rr_capability req) \<noteq> []"
    unfolding cands_def by fastforce
  have "(provider_name r, score r) \<in> set (rank cands (compute_complexity pol req))"
    if "r \<in> set cands" for r
    using that by (simp add: set_rank score_def)
  then have "precedes (provider_name q, score q) (provider_name p, score p)
      (rank cands (compute_complexity pol req))"
    using assms(3-5) by (intro rank_precedes) auto
  from precedes_map [OF this, of fst] ne show ?thesis
    by (simp add: decide_route_ranked cands_def)
qed

section \<open>The default runtime\<close>

definition default_registry :: registry where
  "default_registry =
     [(''claude'', new_provider claude_profile AdapterBackend),
      (''opencode'', new_provider opencode_profile AdapterBackend),
      (''gemini'', new_provider gemini_profile AdapterBackend),
      (''local'', new_provider local_profile (LocalBackend False))]"

definition plain_request :: "Capability \<Rightarrow> string \<Rightarrow> TaskComplexity option \<Rightarrow> RoutingRequest" where
  "plain_request c ty hint =
     \<lparr>rr_capability = c, rr_task_type = ty, estimated_tokens = 1000, priority = 0,
      retry_count = 0, complexity_hint = hint\<rparr>"

abbreviation "default_claude \<equiv> new_provider claude_profile AdapterBackend"
abbreviation "default_opencode \<equiv> new_provider opencode_profile AdapterBackend"
abbreviation "default_gemini \<equiv> new_provider gemini_profile AdapterBackend"
abbreviation "default_local \<equiv> new_provider local_profile (LocalBackend False)"

lemma default_profiles [simp]:
  "profile (new_provider prof b) = prof"
  "profile_name claude_profile = ''claude''" "profile_name opencode_profile = ''opencode''"
  "profile_name gemini_profile = ''gemini''" "profile_name local_profile = ''local''"
  "cost_per_1k_tokens claude_profile = 15" "cost_per_1k_tokens opencode_profile = 2"
  "cost_per_1k_tokens gemini_profile = 1 / 2" "cost_per_1k_tokens local_profile = 0"
  "weight claude_profile = 1" "weight opencode_profile = 1"
  "weight gemini_profile = 1" "weight local_profile = 1 / 10"
  "context_window claude_profile = 200000" "context_window opencode_profile = 128000"
  "context_window gemini_profile = 1000000" "context_window local_profile = 32000"
  "capabilities claude_profile = {ARCHITECTURE, REVIEW, ANALYSIS, CODE_GENERATION}"
  "capabilities opencode_profile = {CODE_GENERATION, REVIEW}"
  "capabilities gemini_profile = {EXTRACTION, CODE_GENERATION, ANALYSIS, EMBEDDING}"
  "capabilities local_profile = {EXTRACTION, CODE_GENERATION}"
  by (simp_all add: new_provider_def claude_profile_def opencode_profile_def gemini_profile_def
      local_profile_def mk_profile_def)

lemma default_for_capability:
  "for_capability default_registry ARCHITECTURE = [default_claude]"
  "for_capability default_registry EXTRACTION = [default_gemini, default_local]"
  "for_capability default_registry CODE_GENERATION =
     [default_gemini, default_opencode, default_claude, default_local]"
  by (simp_all add: for_capability_def ordered_def default_registry_def supports_def order_key_def
      less_eq_prod_def less_prod_def)

lemma default_complexities:
  "compute_complexity default_routing_policy (plain_request c ''architecture'' None) = 1"
  "compute_complexity default_routing_policy (plain_request c ''extraction'' None) = 1 / 10"
  "compute_complexity default_routing_policy (plain_request c ty (Some SIMPLE)) = 3 / 10"
  by (simp_all add: compute_complexity_def plain_request_def base_complexity_def before_dot_def
      dict_get_default_def default_routing_policy_def clamp_def)

lemma py_round_eq: "q * 10 ^ n = r \<Longrightarrow> round_half_even r = k \<Longrightarrow> py_round q n = of_int k / 10 ^ n"
  by (simp add: py_round_def)

lemma floor_rat_numeral: "\<lfloor>numeral a / (numeral b :: rat)\<rfloor> = numeral a div numeral b"
  using floor_divide_of_int_eq [of "numeral a" "numeral b", where ?'a = rat] by simp

lemma default_scores:
  "provider_score 0 15 (3 / 10) default_claude = 3 / 10"
  "provider_score 0 15 (3 / 10) default_opencode = 646667 / 1000000"
  "provider_score 0 15 (3 / 10) default_gemini = 686667 / 1000000"
  "provider_score 0 15 (3 / 10) default_local = 7 / 100"
  "provider_score 0 (1 / 2) (1 / 10) default_gemini = 1 / 10"
  "provider_score 0 (1 / 2) (1 / 10) default_local = 9 / 100"
  by (simp_all add: provider_score_def affinity_def normalized_cost_def py_round_def
      round_half_even_def floor_rat_numeral Let_def)

lemma plain_request_sel [simp]:
  "rr_capability (plain_request c ty h) = c" "estimated_tokens (plain_request c ty h) = 1000"
  by (simp_all add: plain_request_def)

lemma rank_default:
  "rank [default_claude] 1 = [(''claude'', provider_score 15 15 1 default_claude)]"
  "rank [default_gemini, default_local] (1 / 10) = [(''gemini'', 1 / 10), (''local'', 9 / 100)]"
  "rank [default_gemini, default_opencode, default_claude, default_local] (3 / 10) =
     [(''gemini'', 686667 / 1000000), (''opencode'', 646667 / 1000000), (''claude'', 3 / 10),
      (''local'', 7 / 100)]"
  by (simp_all add: rank_def cost_range_def default_scores less_eq_prod_def less_prod_def)

lemma default_candidates:
  "for_capability default_registry c = ps \<Longrightarrow> \<forall>p \<in> set ps. 1000 \<le> context_window (profile p) \<Longrightarrow>
     route_candidates default_registry (plain_request c ty h) = ps"
  by (simp add: route_candidates_def fitting_def Let_def)

lemma default_registry_wf [simp]: "registry_wf default_registry"
  by (simp add: registry_wf_def dict_ok_def default_registry_def)

section \<open>Properties\<close>

lemma map_sort_key: "map f (sort_key (\<lambda>x. g (f x)) xs) = sort_key g (map f xs)"
proof (induction xs)
  case (Cons x xs)
  have "map f (insort_key (\<lambda>x. g (f x)) x ys) = insort_key g (f x) (map f ys)" for ys
    by (induction ys) auto
  with Cons show ?case by simp
qed simp

lemma rank_sorted_providers:
  fixes ps x
  defines "score \<equiv> provider_score (fst (cost_range ps)) (snd (cost_range ps)) x"
  shows "rank ps x = map (\<lambda>p. (provider_name p, score p)) (sort_key (\<lambda>p. (- score p, provider_name p)) ps)"
  using map_sort_key [of "\<lambda>p. (provider_name p, score p)" "\<lambda>(n, s). (- s, n)" ps]
  by (simp add: rank_def score_def split: prod.split)

text \<open>
  C31: a decision is a complete and deterministic ranking. The ordered providers, which the manager
  fails over through, are the candidates, each exactly once, listed by descending score and by name
  among equal scores; the score is the documented one, a provider's cost between the cheapest and the
  dearest candidate, mixed by the complexity with its reverse and weighted. The recorded scores are in
  the same order, and the decision does not depend on the order of registration.
\<close>

theorem decide_route_ranks_candidates:
  assumes "registry_wf reg" "registry_wf reg'" "set (dict_values reg) = set (dict_values reg')"
  shows "let d = decide_route pol reg req; cands = route_candidates reg req; x = complexity_score d;
      cost = normalized_cost (fst (cost_range cands)) (snd (cost_range cands));
      score = (\<lambda>p. py_round ((x * cost p + (1 - x) * (1 - cost p)) * weight (profile p)) 6)
    in (\<exists>ps. mset ps = mset cands \<and> ordered_providers d = map provider_name ps \<and>
          sorted (map (\<lambda>p. (- score p, provider_name p)) ps) \<and>
          provider_scores d = map (\<lambda>p. (provider_name p, score p)) ps) \<and>
       distinct (ordered_providers d) \<and> decide_route pol reg' req = d"
proof -
  let ?cands = "route_candidates reg req" and ?d = "decide_route pol reg req"
  define score where "score = provider_score (fst (cost_range ?cands)) (snd (cost_range ?cands)) (complexity_score ?d)"
  define ps where "ps = sort_key (\<lambda>p. (- score p, provider_name p)) ?cands"
  have same: "for_capability reg' c = for_capability reg c" for c
    using for_capability_order_independent [OF assms] by simp
  have empty: "?cands = []" if "for_capability reg (rr_capability req) = []"
    using that by (simp add: route_candidates_def fitting_Nil)
  have scores: "provider_scores ?d = map (\<lambda>p. (provider_name p, score p)) ps"
    using rank_sorted_providers [of ?cands "complexity_score ?d"] empty
    by (simp add: decide_route_ranked ps_def score_def)
  then have names: "ordered_providers ?d = map provider_name ps"
    by (simp add: decide_route_ranked(2) comp_def)
  have "distinct (map provider_name ?cands)"
    using for_capability_names_distinct [OF assms(1)]
    by (auto simp: route_candidates_def fitting_def Let_def distinct_map_filter)
  moreover have "mset (map provider_name ps) = mset (map provider_name ?cands)" by (simp add: ps_def)
  ultimately have "distinct (ordered_providers ?d)" unfolding names by (metis mset_eq_imp_distinct_iff)
  moreover have "mset ps = mset ?cands" "sorted (map (\<lambda>p. (- score p, provider_name p)) ps)"
    by (simp_all add: ps_def)
  moreover have "decide_route pol reg' req = ?d" by (simp add: decide_route_def same)
  ultimately show ?thesis
    using scores names unfolding Let_def score_def provider_score_def affinity_def by blast
qed

theorem decide_route_ranks_candidates_witness:
  "decide_route default_routing_policy (rev default_registry)
     (plain_request CODE_GENERATION ''codegen'' (Some SIMPLE)) =
   decide_route default_routing_policy default_registry
     (plain_request CODE_GENERATION ''codegen'' (Some SIMPLE))"
proof -
  have "registry_wf (rev default_registry)"
    by (simp add: registry_wf_def dict_ok_def default_registry_def)
  moreover have "set (dict_values default_registry) = set (dict_values (rev default_registry))"
    by (simp add: rev_map [symmetric])
  ultimately show ?thesis
    using decide_route_ranks_candidates [OF default_registry_wf] unfolding Let_def by blast
qed

text \<open>
  Only providers that declare the capability are ordered; if any of them has a context
  window for the estimated tokens, only such providers are, and otherwise all of them are.
\<close>

theorem decide_route_sound:
  assumes "registry_wf reg" "n \<in> set (ordered_providers (decide_route pol reg req))"
  shows "\<exists>p. dict_get reg n = Some p \<and> supports (profile p) (rr_capability req) \<and>
           (estimated_tokens req \<le> context_window (profile p) \<or>
            (\<forall>q \<in> set (dict_values reg). supports (profile q) (rr_capability req) \<longrightarrow>
               context_window (profile q) < estimated_tokens req))"
proof -
  from assms(2) obtain p where p: "p \<in> set (route_candidates reg req)" "provider_name p = n"
    by (auto simp: decide_route_ranked set_rank split: if_splits)
  with route_candidates_supported have "p \<in> set (for_capability reg (rr_capability req))" by auto
  then have "dict_get reg n = Some p" "supports (profile p) (rr_capability req)"
    using registry_wf_values [OF assms(1)] p(2) by (auto simp: set_for_capability)
  moreover have "estimated_tokens req \<le> context_window (profile p) \<or>
      (\<forall>q \<in> set (dict_values reg). supports (profile q) (rr_capability req) \<longrightarrow>
         context_window (profile q) < estimated_tokens req)"
    using p(1) by (fastforce simp: route_candidates_def fitting_def filter_empty_conv
        set_for_capability Let_def split: if_splits)
  ultimately show ?thesis by blast
qed

theorem decide_route_sound_witness:
  "\<exists>p. dict_get default_registry ''gemini'' = Some p \<and> supports (profile p) EXTRACTION"
  using decide_route_sound [OF default_registry_wf, of "''gemini''" default_routing_policy
      "plain_request EXTRACTION ''extraction'' None"]
  by (auto simp: decide_route_ranked default_candidates default_for_capability
      default_complexities rank_default)

text \<open>
  Quality first. At a complexity of one half or more, of two candidates of the same
  non-negative weight the dearer one is tried first (a tie goes by name).
\<close>

theorem decide_route_quality_first:
  assumes "p \<in> set (route_candidates reg req)" "q \<in> set (route_candidates reg req)"
    and "weight (profile p) = weight (profile q)" "0 \<le> weight (profile p)"
    and "cost_per_1k_tokens (profile p) \<le> cost_per_1k_tokens (profile q)"
    and "quality_threshold \<le> compute_complexity pol req" "provider_name q < provider_name p"
  shows "precedes (provider_name q) (provider_name p) (ordered_providers (decide_route pol reg req))"
proof (rule decide_route_precedes [OF assms(1,2)])
  have "fst (cost_range (route_candidates reg req)) \<le> snd (cost_range (route_candidates reg req))"
    using assms(1) by (intro cost_range_le) auto
  from provider_score_quality [OF this assms(6,3,4,5)] assms(7)
  show "provider_score (fst (cost_range (route_candidates reg req)))
          (snd (cost_range (route_candidates reg req))) (compute_complexity pol req) p <
        provider_score (fst (cost_range (route_candidates reg req)))
          (snd (cost_range (route_candidates reg req))) (compute_complexity pol req) q \<or>
        provider_score (fst (cost_range (route_candidates reg req)))
          (snd (cost_range (route_candidates reg req))) (compute_complexity pol req) p =
        provider_score (fst (cost_range (route_candidates reg req)))
          (snd (cost_range (route_candidates reg req))) (compute_complexity pol req) q \<and>
        provider_name q < provider_name p"
    by auto
qed

theorem decide_route_quality_first_witness:
  "precedes ''claude'' ''opencode'' (ordered_providers (decide_route default_routing_policy
     default_registry (plain_request CODE_GENERATION ''architecture'' None)))"
  using decide_route_quality_first [of default_opencode default_registry
      "plain_request CODE_GENERATION ''architecture'' None" default_claude default_routing_policy]
  by (simp add: default_candidates default_for_capability default_complexities
      quality_threshold_def)

text \<open>
  Cost first. At a complexity of one half or less, of two candidates of the same
  non-negative weight the cheaper one is tried first (a tie goes by name).
\<close>

theorem decide_route_cost_first:
  assumes "p \<in> set (route_candidates reg req)" "q \<in> set (route_candidates reg req)"
    and "weight (profile p) = weight (profile q)" "0 \<le> weight (profile p)"
    and "cost_per_1k_tokens (profile p) \<le> cost_per_1k_tokens (profile q)"
    and "compute_complexity pol req \<le> quality_threshold" "provider_name p < provider_name q"
  shows "precedes (provider_name p) (provider_name q) (ordered_providers (decide_route pol reg req))"
proof (rule decide_route_precedes [OF assms(2,1)])
  have "fst (cost_range (route_candidates reg req)) \<le> snd (cost_range (route_candidates reg req))"
    using assms(1) by (intro cost_range_le) auto
  from provider_score_cost [OF this assms(6,3,4,5)] assms(7)
  show "provider_score (fst (cost_range (route_candidates reg req)))
          (snd (cost_range (route_candidates reg req))) (compute_complexity pol req) q <
        provider_score (fst (cost_range (route_candidates reg req)))
          (snd (cost_range (route_candidates reg req))) (compute_complexity pol req) p \<or>
        provider_score (fst (cost_range (route_candidates reg req)))
          (snd (cost_range (route_candidates reg req))) (compute_complexity pol req) q =
        provider_score (fst (cost_range (route_candidates reg req)))
          (snd (cost_range (route_candidates reg req))) (compute_complexity pol req) p \<and>
        provider_name p < provider_name q"
    by auto
qed

theorem decide_route_cost_first_witness:
  "precedes ''gemini'' ''opencode'' (ordered_providers (decide_route default_routing_policy
     default_registry (plain_request CODE_GENERATION ''codegen'' (Some SIMPLE))))"
  using decide_route_cost_first [of default_gemini default_registry
      "plain_request CODE_GENERATION ''codegen'' (Some SIMPLE)" default_opencode
      default_routing_policy]
  by (simp add: default_candidates default_for_capability default_complexities
      quality_threshold_def)

text \<open>
  Complexity is a score between 0 and 1, and neither a higher priority nor more retries
  ever lower it (for the default policy).
\<close>

theorem complexity_escalates:
  assumes "priority req \<le> priority req'" "retry_count req \<le> retry_count req'"
    and "rr_task_type req' = rr_task_type req" "complexity_hint req' = complexity_hint req"
  shows "0 \<le> compute_complexity default_routing_policy req \<and>
         compute_complexity default_routing_policy req \<le> compute_complexity default_routing_policy req' \<and>
         compute_complexity default_routing_policy req' \<le> 1"
  using assms compute_complexity_bounds
  by (simp add: compute_complexity_mono default_routing_policy_def)

theorem complexity_escalates_witness:
  "compute_complexity default_routing_policy (plain_request REVIEW ''review'' None) \<le>
   compute_complexity default_routing_policy ((plain_request REVIEW ''review'' None)\<lparr>retry_count := 1\<rparr>)"
  using complexity_escalates [of "plain_request REVIEW ''review'' None"
      "(plain_request REVIEW ''review'' None)\<lparr>retry_count := 1\<rparr>"]
  by (simp add: plain_request_def)

text \<open>
  With the four default providers, architecture work goes to claude alone, extraction to
  gemini first, and code generation ends with the local fallback; simple code generation
  starts with gemini and not, as the documentation says, with opencode.
\<close>

theorem default_routes:
  "ordered_providers (decide_route default_routing_policy default_registry
     (plain_request ARCHITECTURE ''architecture'' None)) = [''claude''] \<and>
   ordered_providers (decide_route default_routing_policy default_registry
     (plain_request EXTRACTION ''extraction'' None)) = [''gemini'', ''local''] \<and>
   ordered_providers (decide_route default_routing_policy default_registry
     (plain_request CODE_GENERATION ''codegen'' (Some SIMPLE))) =
     [''gemini'', ''opencode'', ''claude'', ''local'']"
  by (simp add: decide_route_ranked default_candidates default_for_capability
      default_complexities rank_default)


end
