(* ===== verification/Task_Models.thy ===== *)
theory Task_Models
  imports Py_Value
begin

text \<open>
  \<open>tasks/models.py\<close>: the task record the chainer, the scheduler and the workers share.
  Generated identifiers and creation times come from the environment: \<open>uuid n\<close> and
  \<open>utc_now n\<close> are what the \<open>n\<close>-th interaction with the outside world yields.
\<close>

datatype TaskStatus =
    PENDING | SCHEDULED | RUNNING | COMPLETED | TASK_FAILED | RETRYING

fun task_status_value :: "TaskStatus \<Rightarrow> string" where
  "task_status_value PENDING = ''PENDING''"
| "task_status_value SCHEDULED = ''SCHEDULED''"
| "task_status_value RUNNING = ''RUNNING''"
| "task_status_value COMPLETED = ''COMPLETED''"
| "task_status_value TASK_FAILED = ''FAILED''"
| "task_status_value RETRYING = ''RETRYING''"

record Task =
  task_id :: string
  workflow_id :: "string option"
  task_status :: TaskStatus
  task_type :: string
  payload :: "(string, pyval) dict"
  task_result :: "(string, pyval) dict option"
  task_provider :: string
  attempts :: int
  max_attempts :: int
  task_error :: "string option"
  created_at :: string
  updated_at :: string

record task_env =
  uuid :: "nat \<Rightarrow> string"
  utc_now :: "nat \<Rightarrow> time"

text \<open>A task built with the class defaults; it takes three interactions.\<close>

definition default_task :: "task_env \<Rightarrow> nat \<Rightarrow> Task" where
  "default_task env n =
     \<lparr>task_id = uuid env n, workflow_id = None, task_status = PENDING, task_type = ''generic'',
      payload = [], task_result = None, task_provider = ''opencode'', attempts = 0,
      max_attempts = 3, task_error = None, created_at = isoformat (utc_now env (n + 1)),
      updated_at = isoformat (utc_now env (n + 2))\<rparr>"

lemma default_task_simps [simp]:
  "task_id (default_task env n) = uuid env n" "payload (default_task env n) = []"
  "attempts (default_task env n) = 0"
  by (simp_all add: default_task_def)

end
