(* ===== verification/Dependency_Graph.thy ===== *)
theory Dependency_Graph
  imports Interfaces
begin

text \<open>
  \<open>orchestration/graph.py\<close>: the task dependency graph. A Python set of names is a list
  without duplicates; the order in which Python iterates over a set is arbitrary, and the
  theorems on the search show that its answer does not depend on it. The depth-first search
  of \<open>_reaches\<close> is a recursive function of the nodes seen and the stack (its top first).
\<close>

record task_graph =
  deps :: "(string, string list) dict"
  done_tasks :: "string list"

definition empty_graph :: task_graph where
  "empty_graph = \<lparr>deps = [], done_tasks = []\<rparr>"

section \<open>Operations\<close>

definition add_task :: "string \<Rightarrow> task_graph \<Rightarrow> task_graph" where
  "add_task t g = g\<lparr>deps := dict_setdefault t [] (deps g)\<rparr>"

definition prerequisites :: "(string, string list) dict \<Rightarrow> string \<Rightarrow> string list" where
  "prerequisites d n = dict_get_default d n []"

lemma prerequisites_absent: "\<not> dict_has d n \<Longrightarrow> prerequisites d n = []"
  by (simp add: prerequisites_def dict_get_default_def dict_get_None_iff [THEN iffD2])

text \<open>
  The loop of \<open>_reaches\<close>. It ends: each step takes a node off the stack, and only a node
  of the graph that was not seen before puts others on it.
\<close>

function search ::
  "(string, string list) dict \<Rightarrow> string \<Rightarrow> string list \<Rightarrow> string list \<Rightarrow> bool" where
  "search d target seen [] = False"
| "search d target seen (n # stack) =
     (if n = target then True
      else if n \<in> set seen then search d target seen stack
      else search d target (n # seen) (rev (prerequisites d n) @ stack))"
  by pat_completeness auto
termination
proof (relation "inv_image (less_than <*lex*> less_than)
    (\<lambda>(d, target, seen, stack). (card (set (dict_keys d) - set seen), length stack))")
  fix d :: "(string, string list) dict" and target n :: string and seen stack :: "string list"
  assume new: "n \<noteq> target" "n \<notin> set seen"
  show "((d, target, n # seen, rev (prerequisites d n) @ stack), (d, target, seen, n # stack))
      \<in> inv_image (less_than <*lex*> less_than)
          (\<lambda>(d, target, seen, stack). (card (set (dict_keys d) - set seen), length stack))"
  proof (cases "dict_has d n")
    case True
    with new have "set (dict_keys d) - set (n # seen) \<subset> set (dict_keys d) - set seen"
      by (auto simp: dict_has_def)
    then have "card (set (dict_keys d) - set (n # seen)) < card (set (dict_keys d) - set seen)"
      by (intro psubset_card_mono) auto
    then show ?thesis by simp
  next
    case False
    then have "set (dict_keys d) - set (n # seen) = set (dict_keys d) - set seen"
      by (auto simp: dict_has_def)
    then show ?thesis using prerequisites_absent [OF False] by simp
  qed
qed auto

definition reaches :: "(string, string list) dict \<Rightarrow> string \<Rightarrow> string \<Rightarrow> bool" where
  "reaches d start target = search d target [] [start]"

definition cycle_error :: "string \<Rightarrow> string \<Rightarrow> exn" where
  "cycle_error t p = PyExn ''CycleError'' (t @ '' -> '' @ p @ '' would create a cycle'')"

text \<open>The tasks are added before the check, so they stay in the graph when it fails.\<close>

definition add_dependency :: "string \<Rightarrow> string \<Rightarrow> task_graph \<Rightarrow> (exn + unit) \<times> task_graph" where
  "add_dependency t p g =
     (let g1 = add_task p (add_task t g)
      in if t = p \<or> reaches (deps g1) p t then (Inl (cycle_error t p), g1)
         else (Inr (), g1\<lparr>deps := dict_set t (List.insert p (prerequisites (deps g1) t)) (deps g1)\<rparr>))"

definition mark_done :: "string \<Rightarrow> task_graph \<Rightarrow> task_graph" where
  "mark_done t g = (let g1 = add_task t g in g1\<lparr>done_tasks := List.insert t (done_tasks g1)\<rparr>)"

definition is_done :: "string \<Rightarrow> task_graph \<Rightarrow> bool" where
  "is_done t g \<longleftrightarrow> t \<in> set (done_tasks g)"

definition ready :: "task_graph \<Rightarrow> string list" where
  "ready g =
     map fst (filter (\<lambda>(t, ps). t \<notin> set (done_tasks g) \<and> set ps \<subseteq> set (done_tasks g)) (deps g))"

definition is_complete :: "task_graph \<Rightarrow> bool" where
  "is_complete g \<longleftrightarrow> (\<forall>t \<in> set (dict_keys (deps g)). t \<in> set (done_tasks g))"

lemma is_complete_iff: "is_complete g \<longleftrightarrow> (\<forall>n. dict_has (deps g) n \<longrightarrow> n \<in> set (done_tasks g))"
  unfolding is_complete_def dict_has_def by blast

section \<open>The search decides reachability\<close>

text \<open>An edge leads from a task to a prerequisite of it.\<close>

definition edges :: "(string, string list) dict \<Rightarrow> (string \<times> string) set" where
  "edges d = {(t, p). p \<in> set (prerequisites d t)}"

text \<open>Once a path leaves the nodes seen, it goes through the stack.\<close>

lemma leaves_seen:
  assumes "(n, target) \<in> (edges d)\<^sup>*" "n \<in> seen" "target \<notin> seen" "edges d `` seen \<subseteq> seen \<union> S"
  shows "\<exists>m \<in> S. (m, target) \<in> (edges d)\<^sup>*"
  using assms
proof (induction rule: converse_rtrancl_induct)
  case (step x y)
  then show ?case by (cases "y \<in> seen") auto
qed simp

lemma search_iff:
  "target \<notin> set seen \<Longrightarrow> edges d `` set seen \<subseteq> set seen \<union> set stack \<Longrightarrow>
     search d target seen stack \<longleftrightarrow> (\<exists>n \<in> set stack. (n, target) \<in> (edges d)\<^sup>*)"
proof (induction d target seen stack rule: search.induct)
  case (2 d target seen n stack)
  show ?case
  proof (cases "n = target \<or> n \<in> set seen")
    case True
    show ?thesis
    proof (cases "n = target")
      case False
      with True have seen: "n \<in> set seen" by simp
      then have closed: "edges d `` set seen \<subseteq> set seen \<union> set stack" using 2(4) by auto
      from seen False 2(1) 2(3) closed have
        "search d target seen (n # stack) \<longleftrightarrow> (\<exists>m \<in> set stack. (m, target) \<in> (edges d)\<^sup>*)" by simp
      moreover have "(n, target) \<in> (edges d)\<^sup>* \<Longrightarrow> \<exists>m \<in> set stack. (m, target) \<in> (edges d)\<^sup>*"
        using leaves_seen [OF _ seen 2(3) closed] .
      ultimately show ?thesis by auto
    qed simp
  next
    case False
    then have new: "n \<noteq> target" "n \<notin> set seen" by auto
    have "search d target seen (n # stack) \<longleftrightarrow>
        (\<exists>m \<in> set (rev (prerequisites d n) @ stack). (m, target) \<in> (edges d)\<^sup>*)"
      using 2(2) [OF new] 2(3,4) new by (auto simp: edges_def)
    also have "\<dots> \<longleftrightarrow> (\<exists>m \<in> set (n # stack). (m, target) \<in> (edges d)\<^sup>*)"
      using new by (auto simp: edges_def elim: converse_rtranclE intro: converse_rtrancl_into_rtrancl)
    finally show ?thesis .
  qed
qed simp

lemma reaches_iff: "reaches d start target \<longleftrightarrow> (start, target) \<in> (edges d)\<^sup>*"
  unfolding reaches_def by (subst search_iff) simp_all

section \<open>How the operations change the graph\<close>

lemma prerequisites_setdefault [simp]: "prerequisites (dict_setdefault t [] d) n = prerequisites d n"
  by (auto simp: prerequisites_def dict_get_default_def dict_get_None_iff [THEN iffD2] split: option.split)

lemma prerequisites_set [simp]:
  "prerequisites (dict_set t v d) n = (if n = t then v else prerequisites d n)"
  by (simp add: prerequisites_def)

lemma edges_setdefault [simp]: "edges (dict_setdefault t [] d) = edges d"
  by (simp add: edges_def)

lemma edges_insert:
  "edges (dict_set t (List.insert p (prerequisites d t)) d) = insert (t, p) (edges d)"
  by (auto simp: edges_def split: if_splits)

lemma add_task_simps [simp]:
  "edges (deps (add_task t g)) = edges (deps g)"
  "dict_has (deps (add_task t g)) n \<longleftrightarrow> n = t \<or> dict_has (deps g) n"
  "dict_ok (deps g) \<Longrightarrow> dict_ok (deps (add_task t g))"
  "done_tasks (add_task t g) = done_tasks g"
  "prerequisites (deps (add_task t g)) n = prerequisites (deps g) n"
  by (auto simp: add_task_def)

lemma mark_done_simps [simp]:
  "deps (mark_done t g) = deps (add_task t g)"
  "set (done_tasks (mark_done t g)) = insert t (set (done_tasks g))"
  by (simp_all add: mark_done_def Let_def)

lemma add_dependency_cases:
  obtains
    (Cycle) "(p, t) \<in> (edges (deps g))\<^sup>*"
      "add_dependency t p g = (Inl (cycle_error t p), add_task p (add_task t g))"
  | (Edge) g' where "(p, t) \<notin> (edges (deps g))\<^sup>*" "add_dependency t p g = (Inr (), g')"
      "edges (deps g') = insert (t, p) (edges (deps g))"
      "\<And>n. dict_has (deps g') n \<longleftrightarrow> n = t \<or> n = p \<or> dict_has (deps g) n"
      "dict_ok (deps g) \<Longrightarrow> dict_ok (deps g')" "done_tasks g' = done_tasks g"
      "\<And>n. prerequisites (deps g') n =
         (if n = t then List.insert p (prerequisites (deps g) t) else prerequisites (deps g) n)"
proof (cases "(p, t) \<in> (edges (deps g))\<^sup>*")
  case True
  with Cycle show ?thesis by (simp add: add_dependency_def reaches_iff Let_def)
next
  case False
  then have neq: "t \<noteq> p" by auto
  let ?g1 = "add_task p (add_task t g)"
  let ?g' = "?g1\<lparr>deps := dict_set t (List.insert p (prerequisites (deps ?g1) t)) (deps ?g1)\<rparr>"
  show ?thesis
  proof (rule Edge [of ?g'])
    show "add_dependency t p g = (Inr (), ?g')"
      using False neq by (simp add: add_dependency_def reaches_iff Let_def)
    show "edges (deps ?g') = insert (t, p) (edges (deps g))"
      using edges_insert [of t p "deps ?g1"] by simp
  qed (use False in auto)
qed

section \<open>Invariant\<close>

definition graph_wf :: "task_graph \<Rightarrow> bool" where
  "graph_wf g \<longleftrightarrow>
     dict_ok (deps g) \<and> acyclic (edges (deps g)) \<and>
     (\<forall>t p. (t, p) \<in> edges (deps g) \<longrightarrow> dict_has (deps g) p) \<and>
     (\<forall>t \<in> set (done_tasks g). dict_has (deps g) t)"

lemma edge_source: "(t, p) \<in> edges d \<Longrightarrow> dict_has d t"
  by (cases "dict_has d t") (auto simp: edges_def prerequisites_absent)

lemma finite_edges: "finite (edges d)"
proof -
  have "edges d \<subseteq> Sigma (set (dict_keys d)) (\<lambda>t. set (prerequisites d t))"
    using edge_source [of _ _ d] by (auto simp: edges_def dict_has_def)
  then show ?thesis by (rule finite_subset) auto
qed

lemma graph_wf_empty [simp]: "graph_wf empty_graph"
  by (simp add: graph_wf_def empty_graph_def edges_def prerequisites_def dict_get_default_def
      acyclic_def)

lemma graph_wf_add_task [simp]: "graph_wf g \<Longrightarrow> graph_wf (add_task t g)"
  by (auto simp: graph_wf_def)

lemma graph_wf_mark_done [simp]: "graph_wf g \<Longrightarrow> graph_wf (mark_done t g)"
  by (auto simp: graph_wf_def)

lemma graph_wf_add_dependency [simp]: "graph_wf g \<Longrightarrow> graph_wf (snd (add_dependency t p g))"
  by (rule add_dependency_cases [of p t g]) (auto simp: graph_wf_def acyclic_insert)

datatype graph_op = Add_task string | Add_dependency string string | Mark_done string

fun graph_step :: "task_graph \<Rightarrow> graph_op \<Rightarrow> task_graph" where
  "graph_step g (Add_task t) = add_task t g"
| "graph_step g (Add_dependency t p) = snd (add_dependency t p g)"
| "graph_step g (Mark_done t) = mark_done t g"

interpretation graph_sys: invariant_system graph_step graph_wf
proof unfold_locales
  fix g e
  show "graph_wf g \<Longrightarrow> graph_wf (graph_step g e)" by (cases e) simp_all
qed

section \<open>Readiness\<close>

lemma ready_iff:
  assumes "dict_ok (deps g)"
  shows "t \<in> set (ready g) \<longleftrightarrow>
     dict_has (deps g) t \<and> t \<notin> set (done_tasks g) \<and>
     (\<forall>p. (t, p) \<in> edges (deps g) \<longrightarrow> p \<in> set (done_tasks g))"
proof -
  have "t \<in> set (ready g) \<longleftrightarrow> (\<exists>ps. dict_get (deps g) t = Some ps \<and> t \<notin> set (done_tasks g) \<and>
      set ps \<subseteq> set (done_tasks g))"
    by (force simp: ready_def dict_get_in [OF assms, symmetric])
  then show ?thesis
    by (auto simp: dict_has_get edges_def prerequisites_def dict_get_default_def)
qed

text \<open>A task that is not done has a ready one among what it needs, itself included.\<close>

lemma ready_below:
  assumes wf: "graph_wf g" and t: "dict_has (deps g) t" "t \<notin> set (done_tasks g)"
  shows "\<exists>r \<in> set (ready g). (t, r) \<in> (edges (deps g))\<^sup>*"
proof -
  let ?E = "edges (deps g)"
  have "wf (?E\<inverse>)"
    using wf finite_edges by (intro finite_acyclic_wf_converse) (auto simp: graph_wf_def)
  then show ?thesis
    using t
  proof (induction t rule: wf_induct_rule)
    case (less t)
    show ?case
    proof (cases "t \<in> set (ready g)")
      case False
      with less.prems wf obtain p where p: "(t, p) \<in> ?E" "p \<notin> set (done_tasks g)"
        by (auto simp: graph_wf_def ready_iff)
      with wf have "dict_has (deps g) p" by (auto simp: graph_wf_def)
      with less.IH [of p] p show ?thesis by (auto intro: converse_rtrancl_into_rtrancl)
    qed auto
  qed
qed

lemma ready_Nil_iff:
  assumes "graph_wf g"
  shows "ready g = [] \<longleftrightarrow> is_complete g"
proof
  show "ready g = [] \<Longrightarrow> is_complete g"
    using ready_below [OF assms] unfolding is_complete_def by (metis dict_has_def empty_iff list.set(1))
  from assms have "dict_ok (deps g)" by (simp add: graph_wf_def)
  from ready_iff [OF this] show "is_complete g \<Longrightarrow> ready g = []"
    unfolding is_complete_def by (metis dict_has_def list.set_intros(1) neq_Nil_conv)
qed

text \<open>The tasks still to be done.\<close>

definition open_tasks :: "task_graph \<Rightarrow> string set" where
  "open_tasks g = set (dict_keys (deps g)) - set (done_tasks g)"

lemma open_tasks_mark_done:
  "dict_has (deps g) t \<Longrightarrow> open_tasks (mark_done t g) = open_tasks g - {t}"
  by (auto simp: open_tasks_def add_task_def dict_setdefault_def dict_has_def)

text \<open>Each task is ready when its turn comes.\<close>

fun valid_schedule :: "string list \<Rightarrow> task_graph \<Rightarrow> bool" where
  "valid_schedule [] g \<longleftrightarrow> is_complete g"
| "valid_schedule (t # ts) g \<longleftrightarrow> t \<in> set (ready g) \<and> valid_schedule ts (mark_done t g)"

lemma schedule_exists:
  "graph_wf g \<Longrightarrow> \<exists>ts. valid_schedule ts g \<and> distinct ts \<and> set ts = open_tasks g"
proof (induction "card (open_tasks g)" arbitrary: g rule: less_induct)
  case less
  show ?case
  proof (cases "ready g")
    case Nil
    with less.prems have "is_complete g" by (simp add: ready_Nil_iff)
    then show ?thesis
      by (intro exI [of _ "[]"]) (auto simp: is_complete_def open_tasks_def)
  next
    case (Cons t ts)
    then have t: "t \<in> set (ready g)" by simp
    with less.prems have has: "dict_has (deps g) t" and new: "t \<notin> set (done_tasks g)"
      by (auto simp: ready_iff graph_wf_def)
    from has new have op: "t \<in> open_tasks g" "open_tasks (mark_done t g) = open_tasks g - {t}"
      by (simp_all add: open_tasks_mark_done) (simp add: open_tasks_def dict_has_def)
    have "finite (open_tasks g)" by (simp add: open_tasks_def)
    with op have "card (open_tasks (mark_done t g)) < card (open_tasks g)"
      by (metis card_Diff1_less)
    from less.hyps [OF this graph_wf_mark_done [OF less.prems]] obtain us where
      "valid_schedule us (mark_done t g)" "distinct us" "set us = open_tasks g - {t}"
      using op by auto
    with t op show ?thesis by (intro exI [of _ "t # us"]) auto
  qed
qed

text \<open>Dependencies are never removed, and only \<open>mark_done\<close> makes a task done.\<close>

lemma edges_run_mono: "edges (deps g) \<subseteq> edges (deps (run graph_step g ops))"
proof (induction ops arbitrary: g)
  case (Cons e ops)
  have "edges (deps g) \<subseteq> edges (deps (graph_step g e))"
  proof (cases e)
    case (Add_dependency t p)
    then show ?thesis by (cases rule: add_dependency_cases [of p t g, case_names Cycle Edge]) auto
  qed auto
  with Cons.IH [of "graph_step g e"] show ?case by auto
qed simp

lemma done_run:
  "Mark_done t \<notin> set ops \<Longrightarrow>
     t \<in> set (done_tasks (run graph_step g ops)) \<longleftrightarrow> t \<in> set (done_tasks g)"
proof (induction ops arbitrary: g)
  case (Cons e ops)
  have "t \<in> set (done_tasks (graph_step g e)) \<longleftrightarrow> t \<in> set (done_tasks g)"
  proof (cases e)
    case (Add_dependency a p)
    then show ?thesis by (cases rule: add_dependency_cases [of p a g, case_names Cycle Edge]) auto
  qed (use Cons.prems in auto)
  with Cons show ?case by simp
qed simp

text \<open>What waits for a task that is never done is never ready.\<close>

lemma blocked_never_ready:
  assumes "graph_wf g" "(c, t) \<in> edges (deps g)" "t \<notin> set (done_tasks g)" "Mark_done t \<notin> set ops"
  shows "c \<notin> set (ready (run graph_step g ops))"
proof -
  have "graph_wf (run graph_step g ops)" by (rule graph_sys.run_inv [OF assms(1)])
  then have "dict_ok (deps (run graph_step g ops))" by (simp add: graph_wf_def)
  then show ?thesis
    using edges_run_mono [of g ops] done_run [OF assms(4), of g] assms(2,3) by (auto simp: ready_iff)
qed

section \<open>Properties\<close>

text \<open>
  C32: the depth-first search ends for every graph, cyclic ones included, and answers true
  exactly if the target can be reached by following prerequisites.
\<close>

theorem reaches_decides_reachability:
  "reaches d start target \<longleftrightarrow> (start, target) \<in> {(t, p). p \<in> set (prerequisites d t)}\<^sup>*"
  using reaches_iff by (simp add: edges_def)

text \<open>
  C33: no sequence of operations, failed ones included, puts a cycle into the graph, and every
  prerequisite and every task done is a task of the graph.
\<close>

theorem graph_stays_acyclic:
  "graph_wf (run graph_step empty_graph ops)"
  by (rule graph_sys.run_inv) simp

text \<open>
  C34: a dependency is refused exactly if it would close a cycle. A refused one leaves the
  dependencies as they were (both tasks are in the graph all the same); an accepted one adds
  that one dependency.
\<close>

theorem add_dependency_exact:
  assumes "graph_wf g" "add_dependency t p g = (r, g')"
  shows "r = (if acyclic (insert (t, p) (edges (deps g))) then Inr () else Inl (cycle_error t p)) \<and>
         edges (deps g') =
           (if acyclic (insert (t, p) (edges (deps g))) then insert (t, p) (edges (deps g))
            else edges (deps g)) \<and>
         (\<forall>n. dict_has (deps g') n \<longleftrightarrow> n = t \<or> n = p \<or> dict_has (deps g) n)"
proof -
  from assms(1) have
    ac: "acyclic (insert (t, p) (edges (deps g))) \<longleftrightarrow> (p, t) \<notin> (edges (deps g))\<^sup>*"
    by (simp add: graph_wf_def acyclic_insert)
  show ?thesis
  proof (cases rule: add_dependency_cases [of p t g, case_names Cycle Edge])
    case Cycle
    from Cycle(2) assms(2) have "r = Inl (cycle_error t p)" "g' = add_task p (add_task t g)" by simp_all
    with Cycle(1) ac show ?thesis by auto
  next
    case (Edge h)
    from Edge(2) assms(2) have "r = Inr ()" "g' = h" by simp_all
    with Edge(1,3,4) ac show ?thesis by simp
  qed
qed

theorem add_dependency_exact_witness:
  "fst (add_dependency ''a'' ''b'' (snd (add_dependency ''b'' ''a'' empty_graph))) =
     Inl (cycle_error ''a'' ''b'')"
proof -
  have wf: "graph_wf (snd (add_dependency ''b'' ''a'' empty_graph))" by simp
  have "edges (deps (snd (add_dependency ''b'' ''a'' empty_graph))) = {(''b'', ''a'')}"
    by (auto simp: add_dependency_def add_task_def empty_graph_def edges_def prerequisites_def
        dict_get_default_def dict_setdefault_def reaches_def Let_def dict_has_def split: if_splits)
  then have "\<not> acyclic (insert (''a'', ''b'') (edges (deps (snd (add_dependency ''b'' ''a'' empty_graph)))))"
    by (auto simp: acyclic_insert)
  with add_dependency_exact [OF wf, of "''a''" "''b''"] show ?thesis
    by (metis prod.collapse)
qed

text \<open>
  C35: no deadlock. In every graph the operations can build, as long as a task is open some
  task is ready, and doing ready tasks one by one in some order completes the graph, every
  open task exactly once.
\<close>

theorem graph_never_deadlocks:
  "(let g = run graph_step empty_graph ops
    in (ready g = [] \<longleftrightarrow> is_complete g) \<and>
       (\<exists>ts. valid_schedule ts g \<and> distinct ts \<and>
             set ts = set (dict_keys (deps g)) - set (done_tasks g)))"
proof -
  have "graph_wf (run graph_step empty_graph ops)" by (rule graph_sys.run_inv) simp
  from ready_Nil_iff [OF this] schedule_exists [OF this] show ?thesis
    by (simp add: Let_def open_tasks_def)
qed

end
