(* ===== verification/Task_Chaining.thy ===== *)
theory Task_Chaining
  imports Task_Models Events Dependency_Graph
begin

text \<open>
  \<open>orchestration/chaining.py\<close>: follow-up tasks generated from task outcomes. The chainer's
  state is its policy, its audit store, the bus, the dependency graph and the number of
  interactions with the outside world (for the generated identifiers and timestamps).
\<close>

record ChainMeta =
  meta_root :: string
  meta_parent :: pyval
  meta_depth :: int

definition meta_to_payload :: "ChainMeta \<Rightarrow> pyval" where
  "meta_to_payload m =
     PDict [(''root'', PStr (meta_root m)), (''parent'', meta_parent m), (''depth'', PInt (meta_depth m))]"

text \<open>\<open>int(...)\<close> raises when the depth in the payload is not a number.\<close>

definition chain_meta :: "Task \<Rightarrow> exn + ChainMeta" where
  "chain_meta t =
     (case dict_get (payload t) ''_chain'' of
        Some (PDict raw) \<Rightarrow>
          try_bind (py_int (dict_get_default raw ''depth'' (PInt 0)))
            (\<lambda>d. Inr \<lparr>meta_root = py_str (dict_get_default raw ''root'' (PStr (task_id t))),
                      meta_parent = dict_get_default raw ''parent'' PNone, meta_depth = d\<rparr>)
      | _ \<Rightarrow> Inr \<lparr>meta_root = task_id t, meta_parent = PNone, meta_depth = 0\<rparr>)"

record ChainPolicy =
  continuation :: "(string, string) dict"
  max_depth :: int

definition default_chain_policy :: ChainPolicy where
  "default_chain_policy =
     \<lparr>continuation = [(''codegen'', ''testing''), (''testing'', ''review''), (''review'', ''deploy''),
                      (''repair'', ''testing'')],
      max_depth = 8\<rparr>"

definition next_head :: "ChainPolicy \<Rightarrow> string \<Rightarrow> string option" where
  "next_head pol ty = dict_get (continuation pol) (before_dot ty)"

type_synonym chain_store = "(string, Task list) dict"

definition chain_record :: "string \<Rightarrow> Task \<Rightarrow> chain_store \<Rightarrow> chain_store" where
  "chain_record r t st = dict_set r (dict_get_default st r [] @ [t]) st"

record chainer =
  ch_policy :: ChainPolicy
  ch_store :: chain_store
  ch_bus :: event_bus
  ch_graph :: task_graph
  ch_moment :: nat

definition new_chainer :: "ChainPolicy \<Rightarrow> event_bus \<Rightarrow> chainer" where
  "new_chainer pol bus =
     \<lparr>ch_policy = pol, ch_store = [], ch_bus = bus, ch_graph = empty_graph, ch_moment = 0\<rparr>"

section \<open>Operations\<close>

definition chain_emit :: "chaining_event \<Rightarrow> chainer \<Rightarrow> chainer" where
  "chain_emit e ch = ch\<lparr>ch_bus := publish (Chaining_Event e) (ch_bus ch)\<rparr>"

definition terminate :: "string \<Rightarrow> string \<Rightarrow> int \<Rightarrow> chainer \<Rightarrow> chainer" where
  "terminate r reason depth ch = chain_emit (ChainTerminated r reason depth) ch"

definition make_child ::
  "task_env \<Rightarrow> Task \<Rightarrow> string \<Rightarrow> ChainMeta \<Rightarrow> chainer \<Rightarrow> Task \<times> chainer" where
  "make_child env parent ty m ch =
     (let child_meta = \<lparr>meta_root = meta_root m, meta_parent = PStr (task_id parent),
                        meta_depth = meta_depth m + 1\<rparr>
      in ((default_task env (ch_moment ch))
            \<lparr>workflow_id := workflow_id parent, task_status := PENDING, task_type := ty,
             task_provider := task_provider parent,
             payload := [(''_chain'', meta_to_payload child_meta)],
             max_attempts := max_attempts parent\<rparr>,
          ch\<lparr>ch_moment := ch_moment ch + 3\<rparr>))"

definition link_and_record ::
  "Task \<Rightarrow> Task \<Rightarrow> ChainMeta \<Rightarrow> chainer \<Rightarrow> (exn + unit) \<times> chainer" where
  "link_and_record parent child m ch =
     (case add_dependency (task_id child) (task_id parent) (ch_graph ch) of
        (Inl e, g) \<Rightarrow> (Inl e, ch\<lparr>ch_graph := g\<rparr>)
      | (Inr _, g) \<Rightarrow>
          (Inr (), ch\<lparr>ch_graph := g, ch_store := chain_record (meta_root m) child (ch_store ch)\<rparr>))"

definition on_completed :: "task_env \<Rightarrow> Task \<Rightarrow> chainer \<Rightarrow> (exn + Task list) \<times> chainer" where
  "on_completed env t ch =
     (let ch1 = ch\<lparr>ch_graph := mark_done (task_id t) (ch_graph ch)\<rparr> in
      case chain_meta t of
        Inl e \<Rightarrow> (Inl e, ch1)
      | Inr m \<Rightarrow>
          (case next_head (ch_policy ch1) (task_type t) of
             None \<Rightarrow> (Inr [], ch1)
           | Some h \<Rightarrow>
               if max_depth (ch_policy ch1) < meta_depth m + 1
               then (Inr [], terminate (meta_root m) ''max chain depth reached'' (meta_depth m) ch1)
               else
                 (case make_child env t (h @ ''.auto'') m ch1 of (child, ch2) \<Rightarrow>
                   (case link_and_record t child m ch2 of
                      (Inl e, ch3) \<Rightarrow> (Inl e, ch3)
                    | (Inr _, ch3) \<Rightarrow>
                        (Inr [child],
                         chain_emit (NextTaskGenerated (task_id t) (task_id child) (task_type child)
                           (task_type t @ '':completed'') (meta_depth m + 1)) ch3)))))"

definition on_failed :: "task_env \<Rightarrow> Task \<Rightarrow> chainer \<Rightarrow> (exn + Task list) \<times> chainer" where
  "on_failed env t ch =
     (let ch1 = ch\<lparr>ch_graph := add_task (task_id t) (ch_graph ch)\<rparr> in
      case chain_meta t of
        Inl e \<Rightarrow> (Inl e, ch1)
      | Inr m \<Rightarrow>
          if max_attempts t \<le> attempts t
          then (Inr [], chain_emit (EscalationRaised (task_id t) ''retries exhausted'' (meta_depth m)) ch1)
          else if max_depth (ch_policy ch1) < meta_depth m + 1
          then (Inr [], terminate (meta_root m) ''max chain depth reached'' (meta_depth m) ch1)
          else
            (case make_child env t ''repair.auto'' m ch1 of (child, ch2) \<Rightarrow>
               let repair = child\<lparr>payload :=
                     dict_set ''original_task_type'' (PStr (task_type t))
                       (dict_set ''repairs_task_id'' (PStr (task_id t)) (payload child))\<rparr>
               in (case link_and_record t repair m ch2 of
                     (Inl e, ch3) \<Rightarrow> (Inl e, ch3)
                   | (Inr _, ch3) \<Rightarrow>
                       (Inr [repair],
                        chain_emit (RepairTaskCreated (task_id t) (task_id repair) (attempts t + 1)
                          (meta_depth m + 1)) ch3))))"

section \<open>Frame facts\<close>

lemma chain_emit_simps [simp]:
  "ch_policy (chain_emit e ch) = ch_policy ch" "ch_store (chain_emit e ch) = ch_store ch"
  "ch_graph (chain_emit e ch) = ch_graph ch" "ch_moment (chain_emit e ch) = ch_moment ch"
  "ch_bus (chain_emit e ch) = publish (Chaining_Event e) (ch_bus ch)"
  by (simp_all add: chain_emit_def)

lemma terminate_simps [simp]:
  "ch_policy (terminate r s d ch) = ch_policy ch" "ch_store (terminate r s d ch) = ch_store ch"
  "ch_graph (terminate r s d ch) = ch_graph ch" "ch_moment (terminate r s d ch) = ch_moment ch"
  "ch_bus (terminate r s d ch) = publish (Chaining_Event (ChainTerminated r s d)) (ch_bus ch)"
  by (simp_all add: terminate_def)

text \<open>The child a task gets, up to the type and the entries that \<open>on_failed\<close> adds.\<close>

definition child_payload :: "Task \<Rightarrow> ChainMeta \<Rightarrow> (string, pyval) dict" where
  "child_payload t m =
     [(''_chain'', meta_to_payload \<lparr>meta_root = meta_root m, meta_parent = PStr (task_id t),
                                    meta_depth = meta_depth m + 1\<rparr>)]"

definition child_of :: "task_env \<Rightarrow> Task \<Rightarrow> string \<Rightarrow> ChainMeta \<Rightarrow> chainer \<Rightarrow> Task" where
  "child_of env t ty m ch = fst (make_child env t ty m ch)"

definition repair_of :: "task_env \<Rightarrow> Task \<Rightarrow> ChainMeta \<Rightarrow> chainer \<Rightarrow> Task" where
  "repair_of env t m ch =
     (child_of env t ''repair.auto'' m ch)\<lparr>payload := child_payload t m @
        [(''repairs_task_id'', PStr (task_id t)), (''original_task_type'', PStr (task_type t))]\<rparr>"

lemma make_child_eq:
  "make_child env t ty m ch = (child_of env t ty m ch, ch\<lparr>ch_moment := ch_moment ch + 3\<rparr>)"
  by (simp add: child_of_def make_child_def Let_def)

lemma child_of_simps [simp]:
  "task_id (child_of env t ty m ch) = uuid env (ch_moment ch)"
  "task_type (child_of env t ty m ch) = ty" "payload (child_of env t ty m ch) = child_payload t m"
  "attempts (child_of env t ty m ch) = 0" "max_attempts (child_of env t ty m ch) = max_attempts t"
  "task_status (child_of env t ty m ch) = PENDING"
  by (simp_all add: child_of_def make_child_def child_payload_def Let_def)

lemma repair_of_simps [simp]:
  "task_id (repair_of env t m ch) = uuid env (ch_moment ch)"
  "task_type (repair_of env t m ch) = ''repair.auto''"
  "attempts (repair_of env t m ch) = 0" "max_attempts (repair_of env t m ch) = max_attempts t"
  by (simp_all add: repair_of_def)

lemma child_of_graph [simp]: "child_of env t ty m (ch\<lparr>ch_graph := g\<rparr>) = child_of env t ty m ch"
  by (simp add: child_of_def make_child_def Let_def)

lemma repair_of_eq:
  "(child_of env t ''repair.auto'' m ch)\<lparr>payload :=
      dict_set ''original_task_type'' (PStr (task_type t))
        (dict_set ''repairs_task_id'' (PStr (task_id t)) (child_payload t m))\<rparr> = repair_of env t m ch"
  by (simp add: repair_of_def child_payload_def)

definition inherits :: "Task \<Rightarrow> ChainMeta \<Rightarrow> Task \<Rightarrow> bool" where
  "inherits t m c \<longleftrightarrow>
     chain_meta c = Inr \<lparr>meta_root = meta_root m, meta_parent = PStr (task_id t),
                         meta_depth = meta_depth m + 1\<rparr>"

lemma inherits_child [simp]: "inherits t m (child_of env t ty m ch)"
  by (simp add: inherits_def chain_meta_def child_payload_def meta_to_payload_def dict_get_default_def)

lemma inherits_repair [simp]: "inherits t m (repair_of env t m ch)"
  by (simp add: inherits_def chain_meta_def repair_of_def child_payload_def meta_to_payload_def
      dict_get_default_def)

text \<open>A link to a fresh task is never refused.\<close>

lemma add_dependency_fresh:
  assumes "graph_wf g" "\<not> dict_has (deps g) c" "c \<noteq> p"
  obtains g' where "add_dependency c p g = (Inr (), g')"
    "edges (deps g') = insert (c, p) (edges (deps g))" "done_tasks g' = done_tasks g"
    "\<And>n. dict_has (deps g') n \<longleftrightarrow> n = c \<or> n = p \<or> dict_has (deps g) n" "graph_wf g'"
proof -
  have "(p, c) \<notin> (edges (deps g))\<^sup>*"
  proof
    assume "(p, c) \<in> (edges (deps g))\<^sup>*"
    then show False using assms by (cases rule: rtranclE) (auto simp: graph_wf_def)
  qed
  with graph_wf_add_dependency [OF assms(1), of c p] show ?thesis
    by (cases rule: add_dependency_cases [of p c g, case_names Cycle Edge]) (auto intro: that)
qed

definition fresh_id :: "task_env \<Rightarrow> Task \<Rightarrow> chainer \<Rightarrow> bool" where
  "fresh_id env t ch \<longleftrightarrow>
     \<not> dict_has (deps (ch_graph ch)) (uuid env (ch_moment ch)) \<and> uuid env (ch_moment ch) \<noteq> task_id t"

section \<open>Both handlers, branch by branch\<close>

text \<open>What generating \<open>c\<close> after \<open>t\<close> does to the chainer, when its identifier is fresh.\<close>

definition generated :: "Task \<Rightarrow> ChainMeta \<Rightarrow> Task \<Rightarrow> chaining_event \<Rightarrow> chainer \<Rightarrow> chainer \<Rightarrow> bool" where
  "generated t m c e ch ch' \<longleftrightarrow>
     ch_policy ch' = ch_policy ch \<and>
     ch_store ch' = dict_set (meta_root m) (dict_get_default (ch_store ch) (meta_root m) [] @ [c]) (ch_store ch) \<and>
     ch_bus ch' = publish (Chaining_Event e) (ch_bus ch) \<and> ch_moment ch' = ch_moment ch + 3 \<and>
     edges (deps (ch_graph ch')) = insert (task_id c, task_id t) (edges (deps (ch_graph ch))) \<and>
     (\<forall>n. dict_has (deps (ch_graph ch')) n \<longleftrightarrow>
            n = task_id c \<or> n = task_id t \<or> dict_has (deps (ch_graph ch)) n) \<and>
     graph_wf (ch_graph ch')"

lemma on_completed_generates:
  assumes wf: "graph_wf (ch_graph ch)" and fresh: "fresh_id env t ch"
    and m: "chain_meta t = Inr m" "next_head (ch_policy ch) (task_type t) = Some h"
      "meta_depth m + 1 \<le> max_depth (ch_policy ch)"
  defines "c \<equiv> child_of env t (h @ ''.auto'') m ch"
  shows "\<exists>ch'. on_completed env t ch = (Inr [c], ch') \<and>
    generated t m c (NextTaskGenerated (task_id t) (task_id c) (h @ ''.auto'')
      (task_type t @ '':completed'') (meta_depth m + 1)) ch ch' \<and>
    set (done_tasks (ch_graph ch')) = insert (task_id t) (set (done_tasks (ch_graph ch)))"
proof -
  let ?g = "mark_done (task_id t) (ch_graph ch)"
  have "graph_wf ?g" "\<not> dict_has (deps ?g) (task_id c)" "task_id c \<noteq> task_id t"
    using wf fresh by (auto simp: c_def fresh_id_def)
  then obtain g' where "add_dependency (task_id c) (task_id t) ?g = (Inr (), g')"
    "edges (deps g') = insert (task_id c, task_id t) (edges (deps ?g))" "done_tasks g' = done_tasks ?g"
    "\<And>n. dict_has (deps g') n \<longleftrightarrow> n = task_id c \<or> n = task_id t \<or> dict_has (deps ?g) n" "graph_wf g'"
    by (rule add_dependency_fresh) auto
  with m show ?thesis
    by (auto simp: on_completed_def make_child_eq link_and_record_def generated_def c_def chain_record_def
        Let_def)
qed

lemma on_failed_generates:
  assumes wf: "graph_wf (ch_graph ch)" and fresh: "fresh_id env t ch"
    and m: "chain_meta t = Inr m" "attempts t < max_attempts t"
      "meta_depth m + 1 \<le> max_depth (ch_policy ch)"
  defines "c \<equiv> repair_of env t m ch"
  shows "\<exists>ch'. on_failed env t ch = (Inr [c], ch') \<and>
    generated t m c (RepairTaskCreated (task_id t) (task_id c) (attempts t + 1) (meta_depth m + 1)) ch ch' \<and>
    done_tasks (ch_graph ch') = done_tasks (ch_graph ch)"
proof -
  let ?g = "add_task (task_id t) (ch_graph ch)"
  have "graph_wf ?g" "\<not> dict_has (deps ?g) (task_id c)" "task_id c \<noteq> task_id t"
    using wf fresh by (auto simp: c_def fresh_id_def)
  then obtain g' where "add_dependency (task_id c) (task_id t) ?g = (Inr (), g')"
    "edges (deps g') = insert (task_id c, task_id t) (edges (deps ?g))" "done_tasks g' = done_tasks ?g"
    "\<And>n. dict_has (deps g') n \<longleftrightarrow> n = task_id c \<or> n = task_id t \<or> dict_has (deps ?g) n" "graph_wf g'"
    by (rule add_dependency_fresh) auto
  with m show ?thesis
    by (auto simp: on_failed_def make_child_eq link_and_record_def generated_def c_def chain_record_def
        repair_of_eq Let_def)
qed

section \<open>What every call keeps\<close>

text \<open>Without any assumption on the identifiers: what the handlers return and record.\<close>

definition well_generated :: "ChainPolicy \<Rightarrow> Task \<Rightarrow> Task list \<Rightarrow> bool" where
  "well_generated pol t cs \<longleftrightarrow>
     cs = [] \<or> (\<exists>m c. cs = [c] \<and> chain_meta t = Inr m \<and> inherits t m c \<and>
                      meta_depth m + 1 \<le> max_depth pol)"

text \<open>The store holds every task under the root it belongs to, within the depth bound.\<close>

definition store_ok :: "ChainPolicy \<Rightarrow> chain_store \<Rightarrow> bool" where
  "store_ok pol st \<longleftrightarrow>
     (\<forall>r ts c. dict_get st r = Some ts \<longrightarrow> c \<in> set ts \<longrightarrow>
        (\<exists>m. chain_meta c = Inr m \<and> meta_root m = r \<and> meta_depth m \<le> max_depth pol))"

lemma store_ok_record:
  "store_ok pol st \<Longrightarrow> inherits t m c \<Longrightarrow> meta_depth m + 1 \<le> max_depth pol \<Longrightarrow>
     store_ok pol (chain_record (meta_root m) c st)"
  by (cases "dict_get st (meta_root m)")
    (auto simp: store_ok_def chain_record_def inherits_def dict_get_default_def split: if_splits)

definition chainer_wf :: "chainer \<Rightarrow> bool" where
  "chainer_wf ch \<longleftrightarrow> graph_wf (ch_graph ch) \<and> store_ok (ch_policy ch) (ch_store ch)"

lemma link_and_record_keeps:
  assumes "chainer_wf ch" "inherits t m c" "meta_depth m + 1 \<le> max_depth (ch_policy ch)"
    and "link_and_record t c m ch = (r, ch')"
  shows "chainer_wf ch' \<and> ch_policy ch' = ch_policy ch"
proof -
  obtain q g where add: "add_dependency (task_id c) (task_id t) (ch_graph ch) = (q, g)"
    by (metis surj_pair)
  with graph_wf_add_dependency [of "ch_graph ch" "task_id c" "task_id t"] assms(1)
  have "graph_wf g" by (simp add: chainer_wf_def)
  with add assms store_ok_record [of "ch_policy ch" "ch_store ch" t m c] show ?thesis
    by (auto simp: link_and_record_def chainer_wf_def split: sum.splits)
qed

lemma chainer_wf_emit [simp]: "chainer_wf (chain_emit e ch) \<longleftrightarrow> chainer_wf ch"
  by (simp add: chainer_wf_def)

lemma chainer_wf_terminate [simp]: "chainer_wf (terminate r s d ch) \<longleftrightarrow> chainer_wf ch"
  by (simp add: chainer_wf_def)

lemma chainer_wf_moment [simp]: "chainer_wf (ch\<lparr>ch_moment := n\<rparr>) \<longleftrightarrow> chainer_wf ch"
  by (simp add: chainer_wf_def)

lemma on_completed_keeps:
  assumes "chainer_wf ch" "on_completed env t ch = (r, ch')"
  shows "chainer_wf ch' \<and> ch_policy ch' = ch_policy ch \<and>
         (\<forall>cs. r = Inr cs \<longrightarrow> well_generated (ch_policy ch) t cs)"
proof -
  let ?ch1 = "ch\<lparr>ch_graph := mark_done (task_id t) (ch_graph ch)\<rparr>"
  have wf1: "chainer_wf ?ch1" using assms(1) by (simp add: chainer_wf_def)
  show ?thesis
  proof (cases "\<exists>m h. chain_meta t = Inr m \<and> next_head (ch_policy ch) (task_type t) = Some h \<and>
      meta_depth m + 1 \<le> max_depth (ch_policy ch)")
    case False
    with assms(2) wf1 show ?thesis
      by (auto simp: on_completed_def well_generated_def Let_def not_less
          split: sum.splits option.splits if_splits)
  next
    case True
    then obtain m h where m: "chain_meta t = Inr m" "next_head (ch_policy ch) (task_type t) = Some h"
      "meta_depth m + 1 \<le> max_depth (ch_policy ch)" by blast
    let ?c = "child_of env t (h @ ''.auto'') m ch"
    let ?ch2 = "?ch1\<lparr>ch_moment := ch_moment ch + 3\<rparr>"
    obtain q ch3 where link: "link_and_record t ?c m ?ch2 = (q, ch3)" by (metis surj_pair)
    from link_and_record_keeps [OF _ inherits_child _ link] wf1 m(3)
    have "chainer_wf ch3 \<and> ch_policy ch3 = ch_policy ch" by simp
    with assms(2) m link show ?thesis
      by (auto simp: on_completed_def make_child_eq well_generated_def Let_def split: sum.splits)
  qed
qed

lemma on_failed_keeps:
  assumes "chainer_wf ch" "on_failed env t ch = (r, ch')"
  shows "chainer_wf ch' \<and> ch_policy ch' = ch_policy ch \<and>
         (\<forall>cs. r = Inr cs \<longrightarrow> well_generated (ch_policy ch) t cs)"
proof -
  let ?ch1 = "ch\<lparr>ch_graph := add_task (task_id t) (ch_graph ch)\<rparr>"
  have wf1: "chainer_wf ?ch1" using assms(1) by (simp add: chainer_wf_def)
  show ?thesis
  proof (cases "\<exists>m. chain_meta t = Inr m \<and> attempts t < max_attempts t \<and>
      meta_depth m + 1 \<le> max_depth (ch_policy ch)")
    case False
    with assms(2) wf1 show ?thesis
      by (auto simp: on_failed_def well_generated_def Let_def not_less not_le
          split: sum.splits if_splits)
  next
    case True
    then obtain m where m: "chain_meta t = Inr m" "attempts t < max_attempts t"
      "meta_depth m + 1 \<le> max_depth (ch_policy ch)" by blast
    let ?c = "repair_of env t m ch"
    let ?ch2 = "?ch1\<lparr>ch_moment := ch_moment ch + 3\<rparr>"
    obtain q ch3 where link: "link_and_record t ?c m ?ch2 = (q, ch3)" by (metis surj_pair)
    from link_and_record_keeps [OF _ inherits_repair _ link] wf1 m(3)
    have "chainer_wf ch3 \<and> ch_policy ch3 = ch_policy ch" by simp
    with assms(2) m link show ?thesis
      by (auto simp: on_failed_def make_child_eq well_generated_def repair_of_eq Let_def
          split: sum.splits)
  qed
qed

datatype chain_op = Task_completed task_env Task | Task_failed task_env Task

fun chain_step :: "chainer \<Rightarrow> chain_op \<Rightarrow> chainer" where
  "chain_step ch (Task_completed env t) = snd (on_completed env t ch)"
| "chain_step ch (Task_failed env t) = snd (on_failed env t ch)"

interpretation chainer_sys: invariant_system chain_step chainer_wf
proof unfold_locales
  fix ch e
  assume wf: "chainer_wf ch"
  show "chainer_wf (chain_step ch e)"
  proof (cases e)
    case (Task_completed env t)
    with on_completed_keeps [OF wf surjective_pairing] show ?thesis by simp
  next
    case (Task_failed env t)
    with on_failed_keeps [OF wf surjective_pairing] show ?thesis by simp
  qed
qed

lemma chainer_wf_new [simp]: "chainer_wf (new_chainer pol bus)"
  by (simp add: chainer_wf_def new_chainer_def store_ok_def)

lemma chain_step_policy: "chainer_wf ch \<Longrightarrow> ch_policy (chain_step ch e) = ch_policy ch"
  using on_completed_keeps [OF _ surjective_pairing] on_failed_keeps [OF _ surjective_pairing]
  by (cases e) simp_all

lemma run_policy: "chainer_wf ch \<Longrightarrow> ch_policy (run chain_step ch ops) = ch_policy ch"
proof (induction ops arbitrary: ch)
  case (Cons e ops)
  from Cons.IH [OF chainer_sys.step_inv [OF Cons.prems, of e]] chain_step_policy [OF Cons.prems, of e]
  show ?case by simp
qed simp

lemma reachable_chainer:
  "chainer_wf (run chain_step (new_chainer pol bus) ops) \<and>
   ch_policy (run chain_step (new_chainer pol bus) ops) = pol"
  using chainer_sys.run_inv [of "new_chainer pol bus" ops] run_policy [of "new_chainer pol bus" ops]
  by (simp add: new_chainer_def [THEN arg_cong, where f = ch_policy])

section \<open>Chains of tasks\<close>

text \<open>
  \<open>follows pol n t u\<close>: \<open>u\<close> comes from \<open>t\<close> by \<open>n\<close> generations, by any chainers of the policy
  in any reachable state; in between, workers may change a task in every field but its
  identifier and payload.
\<close>

inductive follows :: "ChainPolicy \<Rightarrow> nat \<Rightarrow> Task \<Rightarrow> Task \<Rightarrow> bool" for pol where
  start: "follows pol 0 t t"
| worked: "follows pol n t u \<Longrightarrow> task_id u' = task_id u \<Longrightarrow> payload u' = payload u \<Longrightarrow>
    follows pol n t u'"
| completed: "follows pol n t u \<Longrightarrow> ch = run chain_step (new_chainer pol bus) ops \<Longrightarrow>
    on_completed env u ch = (Inr cs, ch') \<Longrightarrow> c \<in> set cs \<Longrightarrow> follows pol (Suc n) t c"
| failed: "follows pol n t u \<Longrightarrow> ch = run chain_step (new_chainer pol bus) ops \<Longrightarrow>
    on_failed env u ch = (Inr cs, ch') \<Longrightarrow> c \<in> set cs \<Longrightarrow> follows pol (Suc n) t c"

lemma follows_depth:
  "follows pol n t u \<Longrightarrow> chain_meta t = Inr m \<Longrightarrow>
     \<exists>m'. chain_meta u = Inr m' \<and> meta_root m' = meta_root m \<and>
          meta_depth m' = meta_depth m + int n \<and> (0 < n \<longrightarrow> meta_depth m' \<le> max_depth pol)"
proof (induction rule: follows.induct)
  case (worked n t u u')
  have "chain_meta u' = chain_meta u" unfolding chain_meta_def worked.hyps(2,3) by (rule refl)
  with worked show ?case by simp
next
  case (completed n t u ch bus ops env cs ch' c)
  then have "well_generated pol u cs"
    using on_completed_keeps [of ch env u] reachable_chainer [of pol bus ops] by simp
  with completed show ?case by (auto simp: well_generated_def inherits_def)
next
  case (failed n t u ch bus ops env cs ch' c)
  then have "well_generated pol u cs"
    using on_failed_keeps [of ch env u] reachable_chainer [of pol bus ops] by simp
  with failed show ?case by (auto simp: well_generated_def inherits_def)
qed auto

text \<open>The identifiers in the graph are given ones or generated ones.\<close>

definition ids_known :: "task_env \<Rightarrow> string set \<Rightarrow> chainer \<Rightarrow> bool" where
  "ids_known env S ch \<longleftrightarrow>
     (\<forall>n. dict_has (deps (ch_graph ch)) n \<longrightarrow> n \<in> S \<or> (\<exists>i < ch_moment ch. n = uuid env i))"

lemma ids_known_fresh:
  assumes known: "ids_known env S ch" and uuids: "inj (uuid env)" "S \<inter> range (uuid env) = {}"
    and t: "task_id t \<in> S \<or> (\<exists>i < ch_moment ch. task_id t = uuid env i)"
  shows "fresh_id env t ch"
proof -
  have new: "\<not> (n \<in> S \<or> (\<exists>i < ch_moment ch. n = uuid env i))" if "n = uuid env (ch_moment ch)" for n
    using uuids that by (auto simp: inj_eq)
  with known t show ?thesis unfolding ids_known_def fresh_id_def by metis
qed

lemma ids_known_generated:
  assumes "ids_known env S ch" "generated t m c e ch ch'" "task_id c = uuid env (ch_moment ch)"
    and "task_id t \<in> S \<or> (\<exists>i < ch_moment ch. task_id t = uuid env i)"
  shows "ids_known env S ch'"
  unfolding ids_known_def
proof (intro allI impI)
  fix n
  assume "dict_has (deps (ch_graph ch')) n"
  with assms(2) consider "n = task_id c" | "n = task_id t" | "dict_has (deps (ch_graph ch)) n"
    by (auto simp: generated_def)
  then show "n \<in> S \<or> (\<exists>i < ch_moment ch'. n = uuid env i)"
  proof cases
    case 1
    with assms(2,3) have "ch_moment ch < ch_moment ch'" "n = uuid env (ch_moment ch)"
      by (simp_all add: generated_def)
    then show ?thesis by blast
  next
    case 2
    with assms(2,4) show ?thesis by (auto simp: generated_def intro: trans_less_add1)
  next
    case 3
    with assms(1) have "n \<in> S \<or> (\<exists>i < ch_moment ch. n = uuid env i)" by (simp add: ids_known_def)
    with assms(2) show ?thesis by (auto simp: generated_def intro: trans_less_add1)
  qed
qed

text \<open>The state in the middle of a chain begun with \<open>t\<close>: only \<open>u\<close> is open.\<close>

definition open_at :: "task_env \<Rightarrow> string \<Rightarrow> Task \<Rightarrow> chainer \<Rightarrow> bool" where
  "open_at env r u ch \<longleftrightarrow>
     graph_wf (ch_graph ch) \<and> ids_known env {r} ch \<and>
     (task_id u = r \<or> (\<exists>i < ch_moment ch. task_id u = uuid env i)) \<and>
     (\<forall>n. dict_has (deps (ch_graph ch)) n \<longrightarrow> n = task_id u \<or> n \<in> set (done_tasks (ch_graph ch)))"

lemma open_at_next:
  assumes uuids: "inj (uuid env)" "r \<notin> range (uuid env)" and u: "open_at env r u ch"
    and m: "chain_meta u = Inr m" "next_head (ch_policy ch) (task_type u) = Some h"
      "meta_depth m + 1 \<le> max_depth (ch_policy ch)"
  obtains c ch' m' where "on_completed env u ch = (Inr [c], ch')" "task_type c = h @ ''.auto''"
    "open_at env r c ch'" "ch_policy ch' = ch_policy ch" "chain_meta c = Inr m'"
    "meta_depth m' = meta_depth m + 1" "c \<in> set (dict_get_default (ch_store ch') (meta_root m) [])"
proof -
  let ?c = "child_of env u (h @ ''.auto'') m ch"
  from u have wf: "graph_wf (ch_graph ch)" by (simp add: open_at_def)
  have fresh: "fresh_id env u ch"
    using u uuids by (intro ids_known_fresh [of env "{r}"]) (auto simp: open_at_def)
  from on_completed_generates [OF wf fresh m] obtain ch' e where call:
    "on_completed env u ch = (Inr [?c], ch')" "generated u m ?c e ch ch'"
    "set (done_tasks (ch_graph ch')) = insert (task_id u) (set (done_tasks (ch_graph ch)))"
    by blast
  have "ids_known env {r} ch'"
    using u by (intro ids_known_generated [OF _ call(2)]) (auto simp: open_at_def)
  moreover have "\<exists>i < ch_moment ch'. task_id ?c = uuid env i"
    using call(2) by (intro exI [of _ "ch_moment ch"]) (simp add: generated_def)
  ultimately have "open_at env r ?c ch'"
    using u call(2,3) unfolding open_at_def generated_def by auto
  moreover from inherits_child [of u m env "h @ ''.auto''" ch] have
    "chain_meta ?c = Inr \<lparr>meta_root = meta_root m, meta_parent = PStr (task_id u),
       meta_depth = meta_depth m + 1\<rparr>"
    by (simp add: inherits_def)
  ultimately show ?thesis using call(2) by (intro that [OF call(1)]) (auto simp: generated_def)
qed

lemma open_at_last:
  assumes "open_at env r u ch" "next_head (ch_policy ch) (task_type u) = None" "chain_meta u = Inr m"
  shows "\<exists>ch'. on_completed env u ch = (Inr [], ch') \<and> is_complete (ch_graph ch')"
  using assms by (auto simp: on_completed_def open_at_def is_complete_iff Let_def)

section \<open>Properties\<close>

text \<open>
  C36: chains are bounded. However tasks complete and fail, whatever the workers do to a task
  other than rewriting its identifier and payload, a task generated \<open>n\<close> generations after
  another has the chain root of the first and its depth plus \<open>n\<close>, and \<open>n\<close> never exceeds the
  policy's depth bound less the first task's depth.
\<close>

theorem chains_are_bounded:
  assumes "follows pol n t u" "chain_meta t = Inr m" "0 < n"
  shows "int n \<le> max_depth pol - meta_depth m \<and>
         (\<exists>m'. chain_meta u = Inr m' \<and> meta_root m' = meta_root m \<and>
               meta_depth m' = meta_depth m + int n)"
  using follows_depth [OF assms(1,2)] assms(3) by auto

definition sample_task_env :: task_env where
  "sample_task_env = \<lparr>uuid = (\<lambda>n. replicate (n + 1) CHR ''i''), utc_now = (\<lambda>n. int n)\<rparr>"

definition sample_task :: "string \<Rightarrow> Task" where
  "sample_task ty =
     \<lparr>task_id = ''root'', workflow_id = None, task_status = COMPLETED, task_type = ty, payload = [],
      task_result = None, task_provider = ''opencode'', attempts = 1, max_attempts = 3,
      task_error = None, created_at = ''t'', updated_at = ''t''\<rparr>"

lemma sample_fresh [simp]: "fresh_id sample_task_env (sample_task ty) (new_chainer pol bus)"
  by (simp add: fresh_id_def sample_task_env_def sample_task_def new_chainer_def empty_graph_def)

lemma sample_meta [simp]:
  "chain_meta (sample_task ty) = Inr \<lparr>meta_root = ''root'', meta_parent = PNone, meta_depth = 0\<rparr>"
  by (simp add: chain_meta_def sample_task_def)

theorem chains_are_bounded_witness:
  "\<exists>u m'. follows default_chain_policy 1 (sample_task ''codegen'') u \<and>
          chain_meta u = Inr m' \<and> meta_root m' = ''root'' \<and> meta_depth m' = 1"
proof -
  let ?ch = "new_chainer default_chain_policy None"
  have "graph_wf (ch_graph ?ch)" by (simp add: new_chainer_def)
  from on_completed_generates [OF this sample_fresh sample_meta, of "''codegen''" "''testing''"]
  obtain c ch' where "on_completed sample_task_env (sample_task ''codegen'') ?ch = (Inr [c], ch')"
    by (auto simp: new_chainer_def default_chain_policy_def next_head_def before_dot_def sample_task_def)
  with completed [OF start, of ?ch default_chain_policy None "[]"]
  have "follows default_chain_policy 1 (sample_task ''codegen'') c" by simp
  from chains_are_bounded [OF this sample_meta] this show ?thesis by auto
qed

text \<open>
  Every generated task is audited under the root of its chain and at a depth within the
  bound, and the dependency graph stays acyclic, through every sequence of completions and
  failures, whatever identifiers the tasks carry.
\<close>

theorem chain_audit_invariant:
  "(let ch = run chain_step (new_chainer pol bus) ops in
      graph_wf (ch_graph ch) \<and>
      (\<forall>r ts c. dict_get (ch_store ch) r = Some ts \<longrightarrow> c \<in> set ts \<longrightarrow>
         (\<exists>m. chain_meta c = Inr m \<and> meta_root m = r \<and> meta_depth m \<le> max_depth pol)))"
  using reachable_chainer [of pol bus ops] unfolding Let_def chainer_wf_def store_ok_def by metis

theorem chain_audit_invariant_witness:
  "graph_wf (ch_graph (run chain_step (new_chainer default_chain_policy None)
     [Task_completed sample_task_env (sample_task ''codegen'')]))"
  using chain_audit_invariant [of default_chain_policy None
      "[Task_completed sample_task_env (sample_task ''codegen'')]"]
  by (simp add: Let_def del: foldl_Cons)

text \<open>
  The default pipeline. Completing a root code-generation task and then, one after the
  other, the task each completion generates yields exactly a testing, a review and a deploy
  task; the deploy task ends the chain, and then every task of the graph is done. (The
  identifiers the runtime draws are assumed distinct from each other and from the root's.)
\<close>

theorem default_pipeline:
  assumes "inj (uuid env)" "task_id t \<notin> range (uuid env)"
    and "chain_meta t = Inr m" "meta_depth m = 0" "before_dot (task_type t) = ''codegen''"
  shows "\<exists>c1 c2 c3 ch1 ch2 ch3 ch4.
    on_completed env t (new_chainer default_chain_policy bus) = (Inr [c1], ch1) \<and>
    on_completed env c1 ch1 = (Inr [c2], ch2) \<and> on_completed env c2 ch2 = (Inr [c3], ch3) \<and>
    on_completed env c3 ch3 = (Inr [], ch4) \<and>
    map task_type [c1, c2, c3] = [''testing.auto'', ''review.auto'', ''deploy.auto''] \<and>
    is_complete (ch_graph ch4)"
proof -
  let ?ch = "new_chainer default_chain_policy bus"
  note nexts = next_head_def default_chain_policy_def before_dot_def
  note step = open_at_next [OF assms(1,2)]
  have "open_at env (task_id t) t ?ch"
    by (simp add: open_at_def ids_known_def new_chainer_def) (simp add: empty_graph_def)
  moreover have pol: "ch_policy ?ch = default_chain_policy" by (simp add: new_chainer_def)
  ultimately obtain c1 ch1 m1 where c1:
    "on_completed env t ?ch = (Inr [c1], ch1)" "task_type c1 = ''testing'' @ ''.auto''"
    "open_at env (task_id t) c1 ch1" "ch_policy ch1 = ch_policy ?ch" "chain_meta c1 = Inr m1"
    "meta_depth m1 = meta_depth m + 1"
    using assms(3-5) by (rule_tac step [of t ?ch m "''testing''"])
      (auto simp: next_head_def default_chain_policy_def)
  from c1 pol assms(4) obtain c2 ch2 m2 where c2:
    "on_completed env c1 ch1 = (Inr [c2], ch2)" "task_type c2 = ''review'' @ ''.auto''"
    "open_at env (task_id t) c2 ch2" "ch_policy ch2 = ch_policy ch1" "chain_meta c2 = Inr m2"
    "meta_depth m2 = meta_depth m1 + 1"
    by (rule_tac step [of c1 ch1 m1 "''review''"]) (auto simp: nexts)
  from c1 c2 pol assms(4) obtain c3 ch3 m3 where c3:
    "on_completed env c2 ch2 = (Inr [c3], ch3)" "task_type c3 = ''deploy'' @ ''.auto''"
    "open_at env (task_id t) c3 ch3" "ch_policy ch3 = ch_policy ch2" "chain_meta c3 = Inr m3"
    by (rule_tac step [of c2 ch2 m2 "''deploy''"]) (auto simp: nexts)
  from open_at_last [OF c3(3) _ c3(5)] c1 c2 c3 pol obtain ch4 where
    "on_completed env c3 ch3 = (Inr [], ch4)" "is_complete (ch_graph ch4)"
    by (auto simp: nexts)
  with c1 c2 c3 show ?thesis by auto
qed

theorem default_pipeline_witness:
  "\<exists>c1 ch1. on_completed sample_task_env (sample_task ''codegen'')
       (new_chainer default_chain_policy None) = (Inr [c1], ch1) \<and> task_type c1 = ''testing.auto''"
proof -
  have "inj (uuid sample_task_env)"
    by (rule injI) (auto simp: sample_task_env_def dest: arg_cong [where f = length])
  moreover have "''root'' \<noteq> replicate (n + 1) CHR ''i''" for n by (cases n) auto
  then have "task_id (sample_task ''codegen'') \<notin> range (uuid sample_task_env)"
    by (auto simp: sample_task_env_def sample_task_def)
  moreover have "before_dot (task_type (sample_task ''codegen'')) = ''codegen''"
    by (simp add: sample_task_def before_dot_def)
  ultimately show ?thesis
    using default_pipeline [OF _ _ sample_meta, of sample_task_env "''codegen''" None] by auto
qed

text \<open>
  A continuation can run at once: when a completed task generates one, the graph reports
  it as ready, under a fresh identifier never refused as a cycle.
\<close>

theorem continuation_is_ready:
  assumes "graph_wf (ch_graph ch)" "fresh_id env t ch" "chain_meta t = Inr m"
    and "next_head (ch_policy ch) (task_type t) = Some h"
    and "meta_depth m + 1 \<le> max_depth (ch_policy ch)"
  shows "\<exists>c ch'. on_completed env t ch = (Inr [c], ch') \<and> task_type c = h @ ''.auto'' \<and>
           task_id c \<in> set (ready (ch_graph ch'))"
proof -
  let ?c = "child_of env t (h @ ''.auto'') m ch"
  from on_completed_generates [OF assms] obtain ch' e where call:
    "on_completed env t ch = (Inr [?c], ch')" "generated t m ?c e ch ch'"
    "set (done_tasks (ch_graph ch')) = insert (task_id t) (set (done_tasks (ch_graph ch)))"
    by blast
  have "task_id ?c \<notin> set (done_tasks (ch_graph ch'))"
    using assms(1,2) call(3) by (auto simp: graph_wf_def fresh_id_def)
  moreover have "p \<in> set (done_tasks (ch_graph ch'))"
    if "(task_id ?c, p) \<in> edges (deps (ch_graph ch'))" for p
  proof -
    from assms(2) have "(task_id ?c, p) \<notin> edges (deps (ch_graph ch))"
      using edge_source [of "task_id ?c" p "deps (ch_graph ch)"] by (auto simp: fresh_id_def)
    with that call(2) have "p = task_id t" by (simp add: generated_def)
    with call(3) show ?thesis by simp
  qed
  moreover have "dict_has (deps (ch_graph ch')) (task_id ?c)" "dict_ok (deps (ch_graph ch'))"
    using call(2) by (simp_all add: generated_def graph_wf_def)
  ultimately have "task_id ?c \<in> set (ready (ch_graph ch'))" by (simp add: ready_iff)
  with call(1) child_of_simps(2) show ?thesis by blast
qed

theorem continuation_is_ready_witness:
  "\<exists>c ch'. on_completed sample_task_env (sample_task ''testing'')
     (new_chainer default_chain_policy None) = (Inr [c], ch') \<and> task_id c \<in> set (ready (ch_graph ch'))"
  using continuation_is_ready [OF _ sample_fresh sample_meta, of default_chain_policy None "''testing''" "''review''"]
  by (auto simp: new_chainer_def default_chain_policy_def next_head_def before_dot_def sample_task_def)

text \<open>
  A repair task waits for the failed task itself: the graph never reports it as ready, in
  whatever way the graph is used later, as long as the failed task is not marked done.
\<close>

theorem repair_waits_for_failed_task:
  assumes "graph_wf (ch_graph ch)" "fresh_id env t ch" "chain_meta t = Inr m"
    and "attempts t < max_attempts t" "meta_depth m + 1 \<le> max_depth (ch_policy ch)"
    and "\<not> is_done (task_id t) (ch_graph ch)" "Mark_done (task_id t) \<notin> set later"
  shows "\<exists>c ch'. on_failed env t ch = (Inr [c], ch') \<and> task_type c = ''repair.auto'' \<and>
           task_id c \<notin> set (ready (run graph_step (ch_graph ch') later))"
proof -
  let ?c = "repair_of env t m ch"
  from on_failed_generates [OF assms(1-5)] obtain ch' e where call:
    "on_failed env t ch = (Inr [?c], ch')" "generated t m ?c e ch ch'"
    "done_tasks (ch_graph ch') = done_tasks (ch_graph ch)"
    by blast
  with assms(6,7) have "task_id ?c \<notin> set (ready (run graph_step (ch_graph ch') later))"
    by (intro blocked_never_ready [where t = "task_id t"]) (auto simp: generated_def is_done_def)
  with call(1) show ?thesis by auto
qed

theorem repair_waits_for_failed_task_witness:
  "\<exists>c ch'. on_failed sample_task_env (sample_task ''testing'')
     (new_chainer default_chain_policy None) = (Inr [c], ch') \<and>
     task_id c \<notin> set (ready (run graph_step (ch_graph ch') [Mark_done ''other'']))"
  using repair_waits_for_failed_task [OF _ sample_fresh sample_meta, of default_chain_policy None
      "''testing''" "[Mark_done ''other'']"]
  by (auto simp: new_chainer_def default_chain_policy_def sample_task_def is_done_def empty_graph_def
      graph_wf_empty [unfolded empty_graph_def] simp del: foldl_Cons)

end
