(* ===== verification/Failure_Analysis.thy ===== *)
theory Failure_Analysis
  imports Py_Value
begin

text \<open>
  The first half of \<open>orchestration/self_healing.py\<close>: failure output is parsed and classified
  into a signature. The regular expressions are written as matching functions on characters
  below 256; the hex digest of SHA-1 is a parameter. Shown: the parser reads back what a
  traceback prints, and numbers in a message do not tell signatures apart.
\<close>

section \<open>Characters and lines\<close>

definition is_word :: "char \<Rightarrow> bool" where
  "is_word c \<longleftrightarrow>
     (let n = of_char c :: nat in
      (48 \<le> n \<and> n \<le> 57) \<or> (65 \<le> n \<and> n \<le> 90) \<or> n = 95 \<or> (97 \<le> n \<and> n \<le> 122) \<or>
      n \<in> {170, 178, 179, 181, 185, 186, 188, 189, 190} \<or>
      (192 \<le> n \<and> n \<noteq> 215 \<and> n \<noteq> 247))"

definition is_line_break :: "char \<Rightarrow> bool" where
  "is_line_break c \<longleftrightarrow> (let n = of_char c :: nat in (10 \<le> n \<and> n \<le> 13) \<or> (28 \<le> n \<and> n \<le> 30) \<or> n = 133)"

definition lower_char :: "char \<Rightarrow> char" where
  "lower_char c =
     (let n = of_char c :: nat in
      if (65 \<le> n \<and> n \<le> 90) \<or> (192 \<le> n \<and> n \<le> 222 \<and> n \<noteq> 215) then char_of (n + 32) else c)"

text \<open>\<open>str.splitlines\<close>; the first argument is the current line, reversed.\<close>

definition skip_lf :: "string \<Rightarrow> string" where
  "skip_lf s = (if take 1 s = [CHR 0x0A] then drop 1 s else s)"

lemma skip_lf_length: "length (skip_lf s) \<le> length s"
  by (simp add: skip_lf_def)

function split_lines :: "string \<Rightarrow> string \<Rightarrow> string list" where
  "split_lines cur [] = (if cur = [] then [] else [rev cur])"
| "split_lines cur (c # cs) =
     (if is_line_break c
      then rev cur # split_lines [] (if c = CHR 0x0D then skip_lf cs else cs)
      else split_lines (c # cur) cs)"
  by pat_completeness auto
termination
  by (relation "measure (\<lambda>(cur, s). length s)") (auto simp: less_Suc_eq_le skip_lf_length)

definition splitlines :: "string \<Rightarrow> string list" where
  "splitlines s = split_lines [] s"

fun contains :: "string \<Rightarrow> string \<Rightarrow> bool" where
  "contains p [] \<longleftrightarrow> p = []"
| "contains p (c # cs) \<longleftrightarrow> take (length p) (c # cs) = p \<or> contains p cs"

definition ends_with :: "string \<Rightarrow> string \<Rightarrow> bool" where
  "ends_with s suf \<longleftrightarrow> length suf \<le> length s \<and> drop (length s - length suf) s = suf"

text \<open>The rest of a string after a literal prefix.\<close>

definition after :: "string \<Rightarrow> string \<Rightarrow> string option" where
  "after p s = (if take (length p) s = p then Some (drop (length p) s) else None)"

section \<open>Parsing a traceback\<close>

datatype FailureCategory = SYNTAX | IMPORT | DEPENDENCY | ASSERTION | TIMEOUT | LINT | RUNTIME | UNKNOWN

fun category_value :: "FailureCategory \<Rightarrow> string" where
  "category_value SYNTAX = ''syntax''"
| "category_value IMPORT = ''import''"
| "category_value DEPENDENCY = ''dependency''"
| "category_value ASSERTION = ''assertion''"
| "category_value TIMEOUT = ''timeout''"
| "category_value LINT = ''lint''"
| "category_value RUNTIME = ''runtime''"
| "category_value UNKNOWN = ''unknown''"

definition deterministic_categories :: "FailureCategory set" where
  "deterministic_categories = {LINT, DEPENDENCY}"

datatype RepairAction = RETRY | DETERMINISTIC_FIX | LLM_REPAIR | ROLLBACK | ESCALATE

fun action_value :: "RepairAction \<Rightarrow> string" where
  "action_value RETRY = ''retry''"
| "action_value DETERMINISTIC_FIX = ''deterministic_fix''"
| "action_value LLM_REPAIR = ''llm_repair''"
| "action_value ROLLBACK = ''rollback''"
| "action_value ESCALATE = ''escalate''"

record Frame =
  frame_file :: string
  frame_line :: int
  frame_func :: string

record ParsedTraceback =
  exception_type :: string
  tb_message :: string
  frames :: "Frame list"

definition last_frame :: "ParsedTraceback \<Rightarrow> Frame option" where
  "last_frame tb = (if frames tb = [] then None else Some (last (frames tb)))"

definition quote_mark :: string where
  "quote_mark = [dquote]"

text \<open>
  \<open>_FRAME_RE\<close> at the start of a string. Each repetition is followed by a character it cannot
  match, so the longest run is the only possible one.
\<close>

definition match_frame :: "string \<Rightarrow> (Frame \<times> string) option" where
  "match_frame s =
     (case after (''File '' @ quote_mark) s of None \<Rightarrow> None
      | Some s1 \<Rightarrow>
          let file = takeWhile (\<lambda>c. c \<noteq> dquote) s1 in
          if file = [] then None else
          (case after (quote_mark @ '', line '') (drop (length file) s1) of None \<Rightarrow> None
           | Some s2 \<Rightarrow>
               let ds = takeWhile is_digit s2 in
               if ds = [] then None else
               (case after '', in '' (drop (length ds) s2) of None \<Rightarrow> None
                | Some s3 \<Rightarrow>
                    let func = takeWhile (\<lambda>c. \<not> is_space c) s3 in
                    if func = [] then None
                    else Some (\<lparr>frame_file = file, frame_line = digits_value ds, frame_func = func\<rparr>,
                               drop (length func) s3))))"

lemma after_length: "after p s = Some r \<Longrightarrow> length r \<le> length s"
  by (auto simp: after_def split: if_splits)

lemma drop_run_shorter:
  "takeWhile P s \<noteq> [] \<Longrightarrow> length (drop (length (takeWhile P s)) s) < length s"
  by (cases s) auto

lemma match_frame_shorter: "match_frame s = Some (f, rest) \<Longrightarrow> length rest < length s"
  unfolding match_frame_def Let_def
  by (auto split: option.splits if_splits dest!: after_length drop_run_shorter simp del: length_drop)

text \<open>\<open>finditer\<close>: the matches from left to right, without overlap.\<close>

function find_frames :: "string \<Rightarrow> Frame list" where
  "find_frames s =
     (case match_frame s of
        Some (f, rest) \<Rightarrow> f # find_frames rest
      | None \<Rightarrow> (case s of [] \<Rightarrow> [] | c # cs \<Rightarrow> find_frames cs))"
  by pat_completeness auto
termination
  by (relation "measure length") (auto dest: match_frame_shorter)

declare find_frames.simps [simp del]

text \<open>
  \<open>_EXC_RE\<close>: the type is the run of word characters and dots before the colon, an ASCII
  letter or underscore followed by more that ends in one of four suffixes.
\<close>

definition is_type_start :: "char \<Rightarrow> bool" where
  "is_type_start c \<longleftrightarrow>
     (let n = of_char c :: nat in (65 \<le> n \<and> n \<le> 90) \<or> (97 \<le> n \<and> n \<le> 122) \<or> n = 95)"

definition exc_suffixes :: "string list" where
  "exc_suffixes = [''Error'', ''Exception'', ''Warning'', ''Failure'']"

definition match_exception :: "string \<Rightarrow> (string \<times> string) option" where
  "match_exception s =
     (let ty = takeWhile (\<lambda>c. is_word c \<or> c = CHR ''.'') s; rest = drop (length ty) s in
      case ty of [] \<Rightarrow> None
      | c # cs \<Rightarrow>
          if is_type_start c \<and> list_ex (ends_with cs) exc_suffixes
          then (case after '':'' rest of None \<Rightarrow> None
                | Some m \<Rightarrow> Some (ty, (case after '' '' m of None \<Rightarrow> m | Some m' \<Rightarrow> m')))
          else None)"

definition parse_traceback :: "string \<Rightarrow> ParsedTraceback" where
  "parse_traceback text =
     (let stripped = py_strip text; ls = splitlines stripped;
          message = (if stripped \<noteq> [] then last ls else []);
          hit = List.find (\<lambda>l. match_exception (py_strip l) \<noteq> None) (rev ls);
          (ty, msg) = (case hit of
                         None \<Rightarrow> ([], message)
                       | Some l \<Rightarrow> (case match_exception (py_strip l) of
                                      None \<Rightarrow> ([], message) | Some (ty, m) \<Rightarrow> (ty, py_strip m)))
      in \<lparr>exception_type = ty, tb_message = msg, frames = find_frames text\<rparr>)"

section \<open>Classification\<close>

record FailureSignature =
  sig_category :: FailureCategory
  sig_exception :: string
  sig_location :: string
  sig_message :: string

text \<open>\<open>sha1\<close> stands for the hex digest of the UTF-8 encoding.\<close>

definition signature_key :: "(string \<Rightarrow> string) \<Rightarrow> FailureSignature \<Rightarrow> string" where
  "signature_key sha1 s =
     take 16 (sha1 (category_value (sig_category s) @ ''|'' @ sig_exception s @ ''|'' @
                    sig_location s @ ''|'' @ sig_message s))"

record FailureAnalysis =
  an_signature :: FailureSignature
  an_summary :: string
  deterministic_fixable :: bool
  an_traceback :: ParsedTraceback

definition exc_category :: "(string, FailureCategory) dict" where
  "exc_category =
     [(''SyntaxError'', SYNTAX), (''IndentationError'', SYNTAX), (''ModuleNotFoundError'', DEPENDENCY),
      (''ImportError'', IMPORT), (''AssertionError'', ASSERTION), (''TimeoutError'', TIMEOUT)]"

text \<open>The search for a lint code (a letter and three digits between word boundaries).\<close>

definition lint_code_at :: "string \<Rightarrow> bool" where
  "lint_code_at s \<longleftrightarrow>
     (case s of [] \<Rightarrow> False
      | c # cs \<Rightarrow> c \<in> set ''EWFB'' \<and> 3 \<le> length cs \<and> list_all is_digit (take 3 cs) \<and>
                  (case drop 3 cs of [] \<Rightarrow> True | d # ds \<Rightarrow> \<not> is_word d))"

fun has_lint_code :: "bool \<Rightarrow> string \<Rightarrow> bool" where
  "has_lint_code after_word [] \<longleftrightarrow> False"
| "has_lint_code after_word (c # cs) \<longleftrightarrow>
     (\<not> after_word \<and> lint_code_at (c # cs)) \<or> has_lint_code (is_word c) cs"

definition categorize :: "ParsedTraceback \<Rightarrow> string \<Rightarrow> FailureCategory" where
  "categorize tb output =
     (case dict_get exc_category (exception_type tb) of
        Some c \<Rightarrow> c
      | None \<Rightarrow>
          let lowered = map lower_char output in
          if contains ''timed out'' lowered then TIMEOUT
          else if contains ''assert'' lowered \<and> contains ''failed'' lowered then ASSERTION
          else if contains ''ruff'' lowered \<or> has_lint_code False output then LINT
          else if exception_type tb \<noteq> [] then RUNTIME else UNKNOWN)"

text \<open>
  \<open>_NUM_RE.sub\<close>: a match starts and ends at a word boundary and consists of word characters,
  so it is a whole maximal run of them.
\<close>

definition is_hex :: "char \<Rightarrow> bool" where
  "is_hex c \<longleftrightarrow>
     (let n = of_char c :: nat in (48 \<le> n \<and> n \<le> 57) \<or> (65 \<le> n \<and> n \<le> 70) \<or> (97 \<le> n \<and> n \<le> 102))"

definition volatile :: "string \<Rightarrow> bool" where
  "volatile w \<longleftrightarrow>
     (case after ''0x'' w of Some h \<Rightarrow> h \<noteq> [] \<and> list_all is_hex h | None \<Rightarrow> False) \<or>
     (w \<noteq> [] \<and> list_all is_digit w)"

function mask_numbers :: "string \<Rightarrow> string" where
  "mask_numbers [] = []"
| "mask_numbers (c # cs) =
     (if is_word c
      then let w = takeWhile is_word (c # cs)
           in (if volatile w then ''N'' else w) @ mask_numbers (dropWhile is_word cs)
      else c # mask_numbers cs)"
  by pat_completeness auto
termination
  by (relation "measure length") (auto simp: le_imp_less_Suc length_dropWhile_le)

definition normalize :: "string \<Rightarrow> string" where
  "normalize m = take 160 (py_strip (mask_numbers m))"

definition analyze :: "string \<Rightarrow> FailureAnalysis" where
  "analyze output =
     (let tb = parse_traceback output; category = categorize tb output;
          location = (case last_frame tb of None \<Rightarrow> []
                      | Some f \<Rightarrow> frame_file f @ '':'' @ int_str (frame_line f));
          s = \<lparr>sig_category = category,
               sig_exception = (if exception_type tb \<noteq> [] then exception_type tb else category_value category),
               sig_location = location, sig_message = normalize (tb_message tb)\<rparr>;
          summary = py_strip (category_value category @ '': '' @
                      (if exception_type tb \<noteq> [] then exception_type tb else ''failure'') @ '' '' @ tb_message tb)
      in \<lparr>an_signature = s, an_summary = take 300 summary,
          deterministic_fixable = (category \<in> deterministic_categories), an_traceback = tb\<rparr>)"

section \<open>Masking numbers\<close>

lemma mask_boundary:
  "\<not> is_word c \<Longrightarrow> mask_numbers (a @ c # b) = mask_numbers a @ c # mask_numbers b"
proof (induction a rule: mask_numbers.induct)
  case (2 x xs)
  then show ?case
    by (cases "is_word x") (simp_all add: takeWhile_tail dropWhile_append3 Let_def)
qed simp

lemma is_digit_word: "is_digit c \<Longrightarrow> is_word c"
  by (simp add: is_digit_def is_word_def Let_def)

lemma is_hex_word: "is_hex c \<Longrightarrow> is_word c"
  by (auto simp: is_hex_def is_word_def Let_def)

lemma after_eq: "after p s = Some r \<longleftrightarrow> s = p @ r"
  by (auto simp: after_def) (metis append_take_drop_id)

lemma volatile_word: "volatile w \<Longrightarrow> w \<noteq> [] \<and> list_all is_word w"
proof -
  have "is_word CHR ''0''" "is_word CHR ''x''" by code_simp+
  then show "volatile w \<Longrightarrow> w \<noteq> [] \<and> list_all is_word w"
    by (auto simp: volatile_def after_eq list_all_iff is_digit_word is_hex_word split: option.splits)
qed

lemma mask_volatile: "volatile w \<Longrightarrow> mask_numbers w = ''N''"
proof -
  assume v: "volatile w"
  then obtain c cs where w: "w = c # cs" using volatile_word by (cases w) auto
  from volatile_word [OF v] have all: "\<forall>x \<in> set cs. is_word x" and c: "is_word c"
    by (auto simp: w list_all_iff)
  from v c show ?thesis
    by (simp add: w Let_def takeWhile_eq_all_conv [THEN iffD2, OF all]
        dropWhile_eq_Nil_conv [THEN iffD2, OF all])
qed

lemma mask_volatile_left:
  "volatile w \<Longrightarrow> b = [] \<or> \<not> is_word (hd b) \<Longrightarrow> mask_numbers (w @ b) = ''N'' @ mask_numbers b"
  by (cases b) (auto simp: mask_boundary mask_volatile)

lemma mask_volatile_between:
  assumes "volatile w" "a = [] \<or> \<not> is_word (last a)" "b = [] \<or> \<not> is_word (hd b)"
  shows "mask_numbers (a @ w @ b) = mask_numbers a @ ''N'' @ mask_numbers b"
proof (cases a rule: rev_cases)
  case (snoc ys y)
  with assms(2) have "mask_numbers (a @ w @ b) = mask_numbers ys @ y # mask_numbers (w @ b)"
    "mask_numbers a = mask_numbers ys @ [y]"
    using mask_boundary [of y ys "w @ b"] mask_boundary [of y ys "[]"] by simp_all
  with mask_volatile_left [OF assms(1,3)] show ?thesis by simp
qed (use mask_volatile_left [OF assms(1,3)] in simp)

section \<open>Printing and parsing a traceback\<close>

text \<open>
  Python's layout, line by line. An exception: the header, a line per frame with what the
  interpreter prints below it (the source line, markers), the type and the message, whose further lines
  follow. Exceptions raised while another was handled, or from another, come after it.
\<close>

record printed_frame =
  pf_frame :: Frame
  pf_below :: "string list"

record printed_error =
  pe_frames :: "printed_frame list"
  pe_type :: string
  pe_message :: string
  pe_more :: "string list"

datatype link = During | Cause

fun link_text :: "link \<Rightarrow> string" where
  "link_text During = ''During handling of the above exception, another exception occurred:''"
| "link_text Cause = ''The above exception was the direct cause of the following exception:''"

definition frame_head :: "Frame \<Rightarrow> string" where
  "frame_head f =
     ''  File '' @ quote_mark @ frame_file f @ quote_mark @ '', line '' @
     nat_digits (nat (frame_line f)) @ '', in '' @ frame_func f"

definition frame_lines :: "printed_frame \<Rightarrow> string list" where
  "frame_lines pf = frame_head (pf_frame pf) # pf_below pf"

definition error_line :: "printed_error \<Rightarrow> string" where
  "error_line e = pe_type e @ '': '' @ pe_message e"

definition error_lines :: "printed_error \<Rightarrow> string list" where
  "error_lines e =
     ''Traceback (most recent call last):'' # concat (map frame_lines (pe_frames e)) @
     error_line e # pe_more e"

definition traceback_lines :: "(printed_error \<times> link) list \<Rightarrow> printed_error \<Rightarrow> string list" where
  "traceback_lines earlier e =
     concat (map (\<lambda>(e', l). error_lines e' @ [[], link_text l, []]) earlier) @ error_lines e"

definition print_lines :: "string list \<Rightarrow> string" where
  "print_lines ls = concat (map (\<lambda>l. l @ [CHR 0x0A]) ls)"

text \<open>
  What the theorem asks for: files without quotes, functions without spaces, and no other line that
  looks like the start of a frame; of the last exception also one of the types the parser knows, and
  a message whose further lines do not look like an exception.
\<close>

definition one_line :: "string \<Rightarrow> bool" where
  "one_line l \<longleftrightarrow> list_all (\<lambda>c. \<not> is_line_break c) l"

definition quiet :: "string \<Rightarrow> bool" where
  "quiet l \<longleftrightarrow> one_line l \<and> \<not> contains (''File '' @ quote_mark) l"

definition frame_ok :: "Frame \<Rightarrow> bool" where
  "frame_ok f \<longleftrightarrow>
     frame_file f \<noteq> [] \<and> dquote \<notin> set (frame_file f) \<and> one_line (frame_file f) \<and> 0 \<le> frame_line f \<and>
     frame_func f \<noteq> [] \<and> list_all (\<lambda>c. \<not> is_space c) (frame_func f)"

definition error_ok :: "printed_error \<Rightarrow> bool" where
  "error_ok e \<longleftrightarrow>
     list_all (\<lambda>pf. frame_ok (pf_frame pf) \<and> list_all quiet (pf_below pf)) (pe_frames e) \<and>
     quiet (error_line e) \<and> list_all quiet (pe_more e)"

definition exception_ok :: "string \<Rightarrow> bool" where
  "exception_ok ty \<longleftrightarrow>
     ty \<noteq> [] \<and> is_type_start (hd ty) \<and> list_all (\<lambda>c. is_word c \<or> c = CHR ''.'') ty \<and>
     list_ex (ends_with (tl ty)) exc_suffixes"

definition message_ok :: "string \<Rightarrow> bool" where
  "message_ok m \<longleftrightarrow> m \<noteq> [] \<and> py_strip m = m"

definition last_error_ok :: "printed_error \<Rightarrow> bool" where
  "last_error_ok e \<longleftrightarrow>
     error_ok e \<and> exception_ok (pe_type e) \<and> message_ok (pe_message e) \<and>
     list_all (\<lambda>l. match_exception (py_strip l) = None) (pe_more e) \<and>
     (pe_more e \<noteq> [] \<longrightarrow> last (pe_more e) \<noteq> [] \<and> \<not> is_space (last (last (pe_more e))))"

lemma not_digit_comma: "\<not> is_digit CHR '',''" by code_simp

lemma match_frame_render:
  assumes "frame_ok f" "is_space c"
  shows "match_frame (''File '' @ quote_mark @ frame_file f @ quote_mark @ '', line '' @
           nat_digits (nat (frame_line f)) @ '', in '' @ frame_func f @ c # rest) = Some (f, c # rest)"
proof -
  let ?d = "nat_digits (nat (frame_line f))"
  let ?s3 = "frame_func f @ c # rest"
  let ?s2 = "?d @ '', in '' @ ?s3"
  let ?s1 = "frame_file f @ quote_mark @ '', line '' @ ?s2"
  have 1: "after (''File '' @ quote_mark) ((''File '' @ quote_mark) @ ?s1) = Some ?s1"
    and 2: "after (quote_mark @ '', line '') ((quote_mark @ '', line '') @ ?s2) = Some ?s2"
    and 3: "after '', in '' ('', in '' @ ?s3) = Some ?s3"
    by (simp_all only: after_eq)
  have "takeWhile (\<lambda>c. c \<noteq> dquote) ?s1 = frame_file f"
    using assms(1) by (auto simp: quote_mark_def frame_ok_def list_all_iff intro!: takeWhile_stop)
  moreover have "takeWhile is_digit ?s2 = ?d"
    using nat_digits_facts not_digit_comma by (auto intro!: takeWhile_stop)
  moreover have "takeWhile (\<lambda>c. \<not> is_space c) ?s3 = frame_func f"
    using assms by (auto simp: frame_ok_def intro!: takeWhile_stop)
  ultimately show ?thesis
    using 1 2 3 nat_digits_facts [of "nat (frame_line f)"] assms(1)
    unfolding match_frame_def by (simp add: Let_def frame_ok_def)
qed

lemma find_frames_skip: "c \<noteq> CHR ''F'' \<Longrightarrow> find_frames (c # s) = find_frames s"
  by (simp add: find_frames.simps [of "c # s"] match_frame_def after_def)

lemma find_frames_head:
  assumes "frame_ok f"
  shows "find_frames (frame_head f @ CHR 0x0A # rest) = f # find_frames rest"
proof -
  let ?s = "''File '' @ quote_mark @ frame_file f @ quote_mark @ '', line '' @
              nat_digits (nat (frame_line f)) @ '', in '' @ frame_func f @ CHR 0x0A # rest"
  have "frame_head f @ CHR 0x0A # rest = CHR '' '' # CHR '' '' # ?s"
    by (simp add: frame_head_def)
  moreover have blank: "CHR '' '' \<noteq> CHR ''F''" by simp
  ultimately have "find_frames (frame_head f @ CHR 0x0A # rest) = find_frames ?s"
    by (simp only: find_frames_skip [OF blank])
  also have "\<dots> = f # find_frames (CHR 0x0A # rest)"
  proof -
    have "is_space CHR 0x0A" by code_simp
    with assms match_frame_render [of f "CHR 0x0A" rest]
    have m: "match_frame ?s = Some (f, CHR 0x0A # rest)" by simp
    show ?thesis by (subst find_frames.simps) (simp only: m option.case prod.case)
  qed
  also have "find_frames (CHR 0x0A # rest) = find_frames rest" by (rule find_frames_skip) simp
  finally show ?thesis .
qed

text \<open>A line that does not contain the start of a frame has no frame, whatever follows it.\<close>

lemma take_before_break:
  assumes "take (length p) (l @ c # rest) = p" "c \<notin> set p"
  shows "take (length p) l = p"
proof (cases "length p \<le> length l")
  case False
  then have "(take (length p) (l @ c # rest)) ! length l = c"
    by (cases "length p - length l") (auto simp: nth_append_length)
  with assms False show ?thesis by (metis not_le nth_mem)
qed (use assms in simp)

lemma find_frames_quiet:
  "\<not> contains (''File '' @ quote_mark) l \<Longrightarrow> find_frames (l @ CHR 0x0A # rest) = find_frames rest"
proof (induction l)
  case Nil
  have "CHR 0x0A \<noteq> CHR ''F''" by simp
  then show ?case by (simp add: find_frames_skip)
next
  case (Cons c l)
  have "CHR 0x0A \<notin> set (''File '' @ quote_mark)" by code_simp
  with Cons.prems take_before_break [of "''File '' @ quote_mark" "c # l" "CHR 0x0A" rest]
  have "after (''File '' @ quote_mark) ((c # l) @ CHR 0x0A # rest) = None"
    unfolding after_def contains.simps by (metis append_Cons)
  then have "match_frame ((c # l) @ CHR 0x0A # rest) = None" unfolding match_frame_def by (simp only: option.case)
  then have "find_frames ((c # l) @ CHR 0x0A # rest) = find_frames (l @ CHR 0x0A # rest)"
    by (subst find_frames.simps) simp
  with Cons show ?case by simp
qed

lemma print_lines_simps [simp]:
  "print_lines [] = []" "print_lines (l # ls) = l @ CHR 0x0A # print_lines ls"
  "print_lines (ls @ ms) = print_lines ls @ print_lines ms"
  by (simp_all add: print_lines_def)

lemma find_frames_quiet_lines: "list_all quiet ls \<Longrightarrow> find_frames (print_lines ls @ rest) = find_frames rest"
  by (induction ls) (auto simp: quiet_def find_frames_quiet)

lemma find_frames_frames:
  "list_all (\<lambda>pf. frame_ok (pf_frame pf) \<and> list_all quiet (pf_below pf)) pfs \<Longrightarrow>
     find_frames (print_lines (concat (map frame_lines pfs)) @ rest) = map pf_frame pfs @ find_frames rest"
  by (induction pfs) (auto simp: frame_lines_def find_frames_head find_frames_quiet_lines)

lemma find_frames_error:
  assumes "error_ok e"
  shows "find_frames (print_lines (error_lines e) @ rest) = map pf_frame (pe_frames e) @ find_frames rest"
proof -
  have "\<not> contains (''File '' @ quote_mark) ''Traceback (most recent call last):''" by code_simp
  from find_frames_quiet [OF this] assms
    find_frames_frames [of "pe_frames e" "print_lines (error_line e # pe_more e) @ rest"]
    find_frames_quiet_lines [of "error_line e # pe_more e" rest]
  show ?thesis by (simp add: error_lines_def error_ok_def)
qed

lemma find_frames_traceback:
  assumes "list_all (\<lambda>(e', l). error_ok e') earlier" "error_ok e"
  shows "find_frames (print_lines (traceback_lines earlier e)) =
     map pf_frame (concat (map (\<lambda>(e', l). pe_frames e') earlier) @ pe_frames e)"
  using assms(1)
proof (induction earlier)
  case Nil
  have "find_frames [] = []" by (simp add: find_frames.simps match_frame_def after_def)
  with find_frames_error [OF assms(2), of "[]"] show ?case by (simp add: traceback_lines_def)
next
  case (Cons x earlier)
  obtain e' l where x: "x = (e', l)" by (cases x)
  have link: "list_all quiet [[], link_text l, []]"
  proof -
    have "quiet []" "quiet (link_text During)" "quiet (link_text Cause)" by code_simp+
    then show ?thesis by (cases l) simp_all
  qed
  have "print_lines (traceback_lines (x # earlier) e) = print_lines (error_lines e') @
      print_lines [[], link_text l, []] @ print_lines (traceback_lines earlier e)"
    by (simp add: traceback_lines_def x)
  with find_frames_error [of e'] find_frames_quiet_lines [OF link] Cons x show ?case by simp
qed

subsection \<open>The lines\<close>

lemma split_lines_line:
  "one_line l \<Longrightarrow> split_lines cur (l @ CHR 0x0A # s) = (rev cur @ l) # split_lines [] s"
proof (induction l arbitrary: cur)
  case Nil
  have "is_line_break CHR 0x0A" by code_simp
  then show ?case by simp
qed (simp add: one_line_def)

lemma split_lines_end: "one_line l \<Longrightarrow> rev cur @ l \<noteq> [] \<Longrightarrow> split_lines cur l = [rev cur @ l]"
  by (induction l arbitrary: cur) (auto simp: one_line_def)

lemma splitlines_print:
  "list_all one_line ls \<Longrightarrow> one_line l \<Longrightarrow> l \<noteq> [] \<Longrightarrow> splitlines (print_lines ls @ l) = ls @ [l]"
  unfolding splitlines_def by (induction ls) (simp_all add: split_lines_line split_lines_end)

lemma dropWhile_keep: "xs \<noteq> [] \<Longrightarrow> \<not> P (hd xs) \<Longrightarrow> dropWhile P xs = xs"
  by (cases xs) auto

lemma py_strip_id: "s \<noteq> [] \<Longrightarrow> \<not> is_space (hd s) \<Longrightarrow> \<not> is_space (last s) \<Longrightarrow> py_strip s = s"
  by (simp add: py_strip_def dropWhile_keep hd_rev)

lemma py_strip_last: "py_strip s = s \<Longrightarrow> s \<noteq> [] \<Longrightarrow> \<not> is_space (last s)"
  unfolding py_strip_def by (metis hd_dropWhile last_rev rev_is_Nil_conv)

lemma type_start_not_space: "is_type_start c \<Longrightarrow> \<not> is_space c"
  by (auto simp: is_type_start_def is_space_def Let_def)

lemma type_start_not_break: "is_word c \<or> c = CHR ''.'' \<Longrightarrow> \<not> is_line_break c"
  by (auto simp: is_word_def is_line_break_def Let_def)

lemma match_exception_line:
  assumes "exception_ok ty" "message_ok msg"
  shows "match_exception (ty @ '': '' @ msg) = Some (ty, msg)"
proof -
  have colon: "\<not> (is_word CHR '':'' \<or> CHR '':'' = CHR ''.'')" by code_simp
  have "takeWhile (\<lambda>c. is_word c \<or> c = CHR ''.'') (ty @ CHR '':'' # '' '' @ msg) = ty"
    using assms(1) colon by (intro takeWhile_stop) (auto simp: exception_ok_def)
  moreover have "after '':'' (CHR '':'' # '' '' @ msg) = Some ('' '' @ msg)" "after '' '' ('' '' @ msg) = Some msg"
    by (simp_all only: after_eq append.simps)
  ultimately show ?thesis
    using assms(1) by (cases ty) (auto simp: match_exception_def exception_ok_def Let_def)
qed

section \<open>Properties\<close>

lemma stripped_lines:
  assumes "list_all one_line (ls @ [l])" "l \<noteq> []" "\<not> is_space (last l)"
    and "print_lines ls @ l \<noteq> []" "\<not> is_space (hd (print_lines ls @ l))"
  shows "py_strip (print_lines (ls @ [l])) = print_lines ls @ l" "splitlines (print_lines ls @ l) = ls @ [l]"
proof -
  have "is_space CHR 0x0A" by code_simp
  with assms show "py_strip (print_lines (ls @ [l])) = print_lines ls @ l"
    by (simp add: py_strip_def dropWhile_keep hd_rev hd_append split: if_splits)
  show "splitlines (print_lines ls @ l) = ls @ [l]" using assms(1,2) by (intro splitlines_print) auto
qed

lemma find_last_match:
  "f x \<noteq> None \<Longrightarrow> list_all (\<lambda>y. f y = None) ys \<Longrightarrow> List.find (\<lambda>l. f l \<noteq> None) (rev (xs @ x # ys)) = Some x"
  by (induction ys rule: rev_induct) auto

lemma traceback_one_line:
  assumes "list_all (\<lambda>(e', l). error_ok e') earlier" "error_ok e"
  shows "list_all one_line (traceback_lines earlier e)"
proof -
  have "\<not> is_space c \<Longrightarrow> \<not> is_line_break c" for c
    by (auto simp: is_space_def is_line_break_def Let_def)
  then have "one_line (frame_func f)" if "frame_ok f" for f
    using that by (auto simp: frame_ok_def one_line_def list_all_iff)
  moreover have "one_line ''  File ''" "one_line quote_mark" "one_line '', line ''" "one_line '', in ''"
    and title: "one_line ''Traceback (most recent call last):''" by code_simp+
  moreover have link: "one_line (link_text l)" for l
  proof -
    have "one_line (link_text During)" "one_line (link_text Cause)" by code_simp+
    then show ?thesis by (cases l) simp_all
  qed
  moreover have "one_line (nat_digits n)" for n
    using nat_digits_facts [of n] by (auto simp: one_line_def list_all_iff is_digit_def is_line_break_def Let_def)
  ultimately have head: "one_line (frame_head f)" if "frame_ok f" for f
    using that by (auto simp: frame_head_def frame_ok_def one_line_def)
  have "list_all one_line (error_lines e)" if "error_ok e" for e
    using that head title
    by (auto simp: error_lines_def error_ok_def frame_lines_def quiet_def list_all_iff)
  then show ?thesis
    using assms link
    by (auto simp: traceback_lines_def list_all_iff one_line_def)
qed

text \<open>
  C39: The parser reads back a traceback laid out as Python prints it: with the source lines below the
  frames, possibly at the end of a chain of exceptions, a message of several lines, and the trailing
  line break. Its frames are all frames of the chain in order, and the exception is the last one: its
  type and the first line of its message. Asked for is that no other line looks like a frame or, after
  the last exception, like an exception, and that the last exception has a message and a type with one
  of the four suffixes of the pattern.
\<close>

theorem traceback_roundtrip:
  assumes "list_all (\<lambda>(e', l). error_ok e') earlier" "last_error_ok e"
  shows "parse_traceback (print_lines (traceback_lines earlier e)) =
     \<lparr>exception_type = pe_type e, tb_message = pe_message e,
      frames = map pf_frame (concat (map (\<lambda>(e', l). pe_frames e') earlier) @ pe_frames e)\<rparr>"
proof -
  let ?lines = "traceback_lines earlier e"
  have e: "error_ok e" "exception_ok (pe_type e)" "message_ok (pe_message e)"
    using assms(2) by (simp_all add: last_error_ok_def)
  obtain c cs where ty: "pe_type e = c # cs" "is_type_start c"
    using e(2) by (cases "pe_type e") (auto simp: exception_ok_def)
  have msg: "pe_message e \<noteq> []" "py_strip (pe_message e) = pe_message e" using e(3) by (simp_all add: message_ok_def)
  then have last: "\<not> is_space (last (pe_message e))" by (rule_tac py_strip_last)
  obtain pre where pre: "?lines = pre @ error_line e # pe_more e"
    by (simp add: traceback_lines_def error_lines_def)
  obtain ls l where ls: "?lines = ls @ [l]" "l \<noteq> []" "\<not> is_space (last l)"
  proof (cases "pe_more e" rule: rev_cases)
    case Nil
    with pre msg(1) last that [of pre "error_line e"] show ?thesis by (simp add: error_line_def)
  next
    case (snoc ms m)
    with pre assms(2) that [of "pre @ error_line e # ms" m] show ?thesis by (simp add: last_error_ok_def)
  qed
  have head: "\<exists>s. print_lines ls @ l = CHR ''T'' # s"
  proof -
    have "\<exists>s. print_lines (error_lines e') @ rest = CHR ''T'' # s" for e' rest by (simp add: error_lines_def)
    then have "\<exists>s. print_lines ?lines = CHR ''T'' # s"
      by (cases earlier) (auto simp: traceback_lines_def, metis append.right_neutral)
    then have "\<exists>s. (print_lines ls @ l) @ [CHR 0x0A] = CHR ''T'' # s" by (simp add: ls(1))
    with ls(2) show ?thesis by (cases "print_lines ls @ l") (simp_all del: append_assoc)
  qed
  have "\<not> is_space CHR ''T''" by code_simp
  with head stripped_lines [of ls l] ls traceback_one_line [OF assms(1) e(1)]
  have strip: "py_strip (print_lines ?lines) = print_lines ls @ l" and
    lines: "splitlines (print_lines ls @ l) = pre @ error_line e # pe_more e"
    unfolding pre [symmetric] by fastforce+
  have line: "py_strip (error_line e) = error_line e"
    using msg(1) last ty type_start_not_space by (intro py_strip_id) (auto simp: error_line_def)
  have hit: "match_exception (error_line e) = Some (pe_type e, pe_message e)"
    unfolding error_line_def by (rule match_exception_line [OF e(2,3)])
  have "List.find (\<lambda>l. match_exception (py_strip l) \<noteq> None) (rev (pre @ error_line e # pe_more e)) = Some (error_line e)"
    using hit line assms(2) by (intro find_last_match) (simp_all add: last_error_ok_def)
  then show ?thesis
    using hit line lines strip msg(2) find_frames_traceback [OF assms(1) e(1)]
    unfolding parse_traceback_def Let_def by simp
qed

definition sample_frame :: Frame where
  "sample_frame = \<lparr>frame_file = ''a.py'', frame_line = 12, frame_func = ''main''\<rparr>"

definition sample_error :: "string \<Rightarrow> string \<Rightarrow> string list \<Rightarrow> printed_error" where
  "sample_error ty msg ls =
     \<lparr>pe_frames = [\<lparr>pf_frame = sample_frame, pf_below = [''    run(x)'', ''    ^^^^^^'']\<rparr>],
      pe_type = ty, pe_message = msg, pe_more = ls\<rparr>"

theorem traceback_roundtrip_witness:
  "let tb = parse_traceback (print_lines (traceback_lines [(sample_error ''KeyError'' ''1'' [], During)]
       (sample_error ''app.LoadFailure'' ''no such key'' [''hint: add it''])))
   in exception_type tb = ''app.LoadFailure'' \<and> tb_message tb = ''no such key'' \<and> length (frames tb) = 2"
proof -
  have "error_ok (sample_error ''KeyError'' ''1'' [])"
    "last_error_ok (sample_error ''app.LoadFailure'' ''no such key'' [''hint: add it''])"
    by code_simp+
  with traceback_roundtrip [of "[(sample_error ''KeyError'' ''1'' [], During)]"
      "sample_error ''app.LoadFailure'' ''no such key'' [''hint: add it'']"]
  show ?thesis by (simp add: Let_def) (simp add: sample_error_def)
qed

text \<open>
  The pattern asks for a colon after the type, but an exception without a message is printed without
  one: a bare \<open>assert\<close> that fails has no exception type and falls into no category.
\<close>

lemma bare_assertion_unknown:
  "let tb = ''Traceback (most recent call last):''; an = analyze (print_lines
       ([tb] @ frame_lines \<lparr>pf_frame = sample_frame, pf_below = [''    assert x'']\<rparr> @ [''AssertionError'']))
   in sig_category (an_signature an) = UNKNOWN \<and> exception_type (an_traceback an) = []"
  by code_simp

text \<open>
  Signatures are stable. Two failures whose messages differ only in a number or an address
  that stands between word boundaries, and agree in category, type and place, have the same
  signature key, for every digest.
\<close>

theorem numbers_do_not_matter:
  assumes "volatile v" "volatile w" "a = [] \<or> \<not> is_word (last a)" "b = [] \<or> \<not> is_word (hd b)"
  shows "signature_key sha1 \<lparr>sig_category = c, sig_exception = ty, sig_location = loc,
           sig_message = normalize (a @ v @ b)\<rparr> =
         signature_key sha1 \<lparr>sig_category = c, sig_exception = ty, sig_location = loc,
           sig_message = normalize (a @ w @ b)\<rparr>"
  using mask_volatile_between [OF assms(1,3,4)] mask_volatile_between [OF assms(2,3,4)]
  by (simp add: normalize_def)

theorem numbers_do_not_matter_witness:
  "signature_key (\<lambda>s. s) \<lparr>sig_category = RUNTIME, sig_exception = ''E'', sig_location = [],
     sig_message = normalize (''at '' @ ''0x7f3a'' @ '': 12'')\<rparr> =
   signature_key (\<lambda>s. s) \<lparr>sig_category = RUNTIME, sig_exception = ''E'', sig_location = [],
     sig_message = normalize (''at '' @ ''99'' @ '': 12'')\<rparr>"
proof -
  have "volatile ''0x7f3a''" "volatile ''99''" "\<not> is_word (last ''at '')" "\<not> is_word (hd '': 12'')"
    by code_simp+
  then show ?thesis by (intro numbers_do_not_matter) simp_all
qed

end
