(* ===== verification/Self_Healing.thy ===== *)
theory Self_Healing
  imports Failure_Analysis Events
begin

text \<open>
  The second half of \<open>orchestration/self_healing.py\<close>: the failure memory, the repair history,
  the decision under limits and the handler, as one operation that no other handling interrupts
  (\<open>Healing_Calls\<close> has them overlap). The rollback callback is a parameter. Handling failures one after the
  other, the runtime is a \<open>counted_system\<close>: the attempts of a signature never decrease and never pass the
  bound of the policy.
\<close>

section \<open>Policy, memory and history\<close>

record RepairPolicy =
  max_repair_attempts :: int
  deterministic_first :: bool
  rollback_after_repeats :: int

definition default_repair_policy :: RepairPolicy where
  "default_repair_policy =
     \<lparr>max_repair_attempts = 3, deterministic_first = True, rollback_after_repeats = 3\<rparr>"

record RepairDecision =
  dec_action :: RepairAction
  dec_category :: FailureCategory
  dec_key :: string
  dec_attempt :: int
  dec_reason :: string

text \<open>
  The runtime: its policy, the counts of the failure memory, the attempts and the log of the
  repair history, the bus, and the calls made to the rollback callback.
\<close>

record healing =
  h_policy :: RepairPolicy
  h_counts :: "(string, int) dict"
  h_attempts :: "(string, int) dict"
  h_log :: "(string \<times> string) list"
  h_bus :: event_bus
  h_rollbacks :: "(string \<times> string) list"

definition new_healing :: "RepairPolicy \<Rightarrow> event_bus \<Rightarrow> healing" where
  "new_healing pol bus =
     \<lparr>h_policy = pol, h_counts = [], h_attempts = [], h_log = [], h_bus = bus, h_rollbacks = []\<rparr>"

definition memory_record :: "string \<Rightarrow> healing \<Rightarrow> int \<times> healing" where
  "memory_record key h =
     (let n = dict_get_default (h_counts h) key 0 + 1
      in (n, h\<lparr>h_counts := dict_set key n (h_counts h)\<rparr>))"

definition occurrences :: "string \<Rightarrow> healing \<Rightarrow> int" where
  "occurrences key h = dict_get_default (h_counts h) key 0"

definition attempts_for :: "string \<Rightarrow> healing \<Rightarrow> int" where
  "attempts_for key h = dict_get_default (h_attempts h) key 0"

definition history_record :: "string \<Rightarrow> RepairAction \<Rightarrow> healing \<Rightarrow> healing" where
  "history_record key a h =
     (let h1 = (if a \<in> {DETERMINISTIC_FIX, LLM_REPAIR, RETRY}
                then h\<lparr>h_attempts := dict_set key (dict_get_default (h_attempts h) key 0 + 1) (h_attempts h)\<rparr>
                else h)
      in h1\<lparr>h_log := h_log h1 @ [(key, action_value a)]\<rparr>)"

definition heal_emit :: "healing_event \<Rightarrow> healing \<Rightarrow> healing" where
  "heal_emit e h = h\<lparr>h_bus := publish (Healing_Event e) (h_bus h)\<rparr>"

section \<open>Decision and handling\<close>

definition decide :: "RepairPolicy \<Rightarrow> FailureAnalysis \<Rightarrow> int \<Rightarrow> int \<Rightarrow> RepairAction \<times> string" where
  "decide pol an prior occ =
     (if max_repair_attempts pol \<le> prior then (ESCALATE, ''repair attempts exhausted'')
      else if sig_category (an_signature an) = TIMEOUT \<and> prior = 0
      then (RETRY, ''transient timeout - retry once'')
      else if deterministic_fixable an \<and> deterministic_first pol
      then (DETERMINISTIC_FIX,
            category_value (sig_category (an_signature an)) @ '' is mechanically fixable'')
      else if rollback_after_repeats pol \<le> occ
      then (ROLLBACK, ''recurring regression - rolling back'')
      else (LLM_REPAIR, ''needs reasoning-based repair''))"

text \<open>
  The environment: the digest, and the rollback callback, if there is one. It gets the task,
  the reference and the calls made before, and may raise.
\<close>

record healing_env =
  sha1 :: "string \<Rightarrow> string"
  rollback_fn :: "(string \<Rightarrow> string \<Rightarrow> (string \<times> string) list \<Rightarrow> exn option) option"

definition call_rollback :: "healing_env \<Rightarrow> string \<Rightarrow> string \<Rightarrow> healing \<Rightarrow> exn option \<times> healing" where
  "call_rollback env task ref h =
     (case rollback_fn env of
        None \<Rightarrow> (None, h)
      | Some f \<Rightarrow> (f task ref (h_rollbacks h), h\<lparr>h_rollbacks := h_rollbacks h @ [(task, ref)]\<rparr>))"

text \<open>
  \<open>handle_failure\<close> up to its first await: classify, count the failure, read the attempts made so
  far, announce the analysis.
\<close>

record diagnosis =
  dg_analysis :: FailureAnalysis
  dg_key :: string
  dg_occurrences :: int
  dg_prior :: int

definition diagnose :: "healing_env \<Rightarrow> string \<Rightarrow> string \<Rightarrow> healing \<Rightarrow> diagnosis \<times> healing" where
  "diagnose env task out h =
     (let an = analyze out; s = an_signature an; key = signature_key (sha1 env) s;
          (occ, h1) = memory_record key h;
          prior = attempts_for key h1
      in (\<lparr>dg_analysis = an, dg_key = key, dg_occurrences = occ, dg_prior = prior\<rparr>,
          heal_emit (FailureAnalyzed task (category_value (sig_category s)) key
                       (deterministic_fixable an) occ) h1))"

text \<open>Up to its second await: decide on what was read, record, announce the decision.\<close>

definition settle :: "string \<Rightarrow> diagnosis \<Rightarrow> healing \<Rightarrow> RepairDecision \<times> healing" where
  "settle task dg h =
     (let (a, reason) = decide (h_policy h) (dg_analysis dg) (dg_prior dg) (dg_occurrences dg);
          h1 = history_record (dg_key dg) a h;
          att = attempts_for (dg_key dg) h1
      in (\<lparr>dec_action = a, dec_category = sig_category (an_signature (dg_analysis dg)),
           dec_key = dg_key dg, dec_attempt = att, dec_reason = reason\<rparr>,
          heal_emit (RepairDecisionMade task (action_value a) att reason) h1))"

text \<open>Both together, if no other handling comes between them.\<close>

definition judge :: "healing_env \<Rightarrow> string \<Rightarrow> string \<Rightarrow> healing \<Rightarrow> RepairDecision \<times> int \<times> healing" where
  "judge env task out h =
     (case diagnose env task out h of (dg, h1) \<Rightarrow>
        case settle task dg h1 of (d, h2) \<Rightarrow> (d, dg_prior dg, h2))"

text \<open>One handling on its own. How handlings overlap is the subject of \<open>Healing_Calls\<close>.\<close>

definition handle_failure ::
  "healing_env \<Rightarrow> string \<Rightarrow> string \<Rightarrow> string \<Rightarrow> healing \<Rightarrow> (exn + RepairDecision) \<times> healing" where
  "handle_failure env task out ref h =
     (case judge env task out h of (d, prior, h4) \<Rightarrow>
        if dec_action d = ROLLBACK then
          (case call_rollback env task ref h4 of
             (Some e, h5) \<Rightarrow> (Inl e, h5)
           | (None, h5) \<Rightarrow> (Inr d, heal_emit (RolledBack task ref (dec_reason d)) h5))
        else if dec_action d = ESCALATE
        then (Inr d, heal_emit (RepairEscalated task (dec_reason d) prior) h4)
        else (Inr d, h4))"

section \<open>Frame facts\<close>

lemma heal_emit_simps [simp]:
  "h_policy (heal_emit e h) = h_policy h" "h_counts (heal_emit e h) = h_counts h"
  "h_attempts (heal_emit e h) = h_attempts h" "h_log (heal_emit e h) = h_log h"
  "h_rollbacks (heal_emit e h) = h_rollbacks h"
  "h_bus (heal_emit e h) = publish (Healing_Event e) (h_bus h)"
  by (simp_all add: heal_emit_def)

lemma memory_record_simps [simp]:
  "fst (memory_record key h) = occurrences key h + 1"
  "h_policy (snd (memory_record key h)) = h_policy h"
  "h_counts (snd (memory_record key h)) = dict_set key (occurrences key h + 1) (h_counts h)"
  "h_attempts (snd (memory_record key h)) = h_attempts h"
  "h_log (snd (memory_record key h)) = h_log h" "h_bus (snd (memory_record key h)) = h_bus h"
  by (simp_all add: memory_record_def occurrences_def Let_def)

abbreviation counts_as_attempt :: "RepairAction \<Rightarrow> bool" where
  "counts_as_attempt a \<equiv> a \<in> {DETERMINISTIC_FIX, LLM_REPAIR, RETRY}"

lemma history_record_simps [simp]:
  "h_policy (history_record key a h) = h_policy h" "h_counts (history_record key a h) = h_counts h"
  "h_log (history_record key a h) = h_log h @ [(key, action_value a)]"
  "h_bus (history_record key a h) = h_bus h"
  "attempts_for k (history_record key a h) =
     attempts_for k h + (if k = key \<and> counts_as_attempt a then 1 else 0)"
  by (auto simp: history_record_def attempts_for_def Let_def)

lemma attempts_for_frame [simp]:
  "attempts_for k (heal_emit e h) = attempts_for k h"
  "attempts_for k (snd (memory_record key h)) = attempts_for k h"
  by (simp_all add: attempts_for_def)

lemma call_rollback_simps [simp]:
  "h_policy (snd (call_rollback env t r h)) = h_policy h"
  "h_counts (snd (call_rollback env t r h)) = h_counts h"
  "h_attempts (snd (call_rollback env t r h)) = h_attempts h"
  "h_log (snd (call_rollback env t r h)) = h_log h" "h_bus (snd (call_rollback env t r h)) = h_bus h"
  by (simp_all add: call_rollback_def split: option.split)

text \<open>What the handler decides, and what it does to the counters and the log.\<close>

definition key_of :: "healing_env \<Rightarrow> string \<Rightarrow> string" where
  "key_of env out = signature_key (sha1 env) (an_signature (analyze out))"

definition decided :: "healing_env \<Rightarrow> string \<Rightarrow> healing \<Rightarrow> RepairAction" where
  "decided env out h =
     fst (decide (h_policy h) (analyze out) (attempts_for (key_of env out) h)
            (occurrences (key_of env out) h + 1))"

lemma judge_facts:
  assumes "judge env task out h = (d, prior, h')"
  shows "dec_action d = decided env out h" "dec_key d = key_of env out"
    "dec_category d = sig_category (an_signature (analyze out))"
    "dec_attempt d = attempts_for (key_of env out) h'"
    "prior = attempts_for (key_of env out) h"
    "h_policy h' = h_policy h"
    "h_counts h' = dict_set (key_of env out) (occurrences (key_of env out) h + 1) (h_counts h)"
    "attempts_for k h' = attempts_for k h +
       (if k = key_of env out \<and> counts_as_attempt (decided env out h) then 1 else 0)"
    "h_log h' = h_log h @ [(key_of env out, action_value (decided env out h))]"
proof -
  define h1 where "h1 = snd (memory_record (key_of env out) h)"
  have mem: "memory_record (key_of env out) h = (occurrences (key_of env out) h + 1, h1)"
    by (simp add: prod_eq_iff h1_def)
  have h1: "h_policy h1 = h_policy h" "h_log h1 = h_log h" "attempts_for k h1 = attempts_for k h"
    "h_counts h1 = dict_set (key_of env out) (occurrences (key_of env out) h + 1) (h_counts h)" for k
    by (simp_all add: h1_def)
  obtain a reason where dec: "decide (h_policy h) (analyze out) (attempts_for (key_of env out) h)
      (occurrences (key_of env out) h + 1) = (a, reason)" by (metis surj_pair)
  have eq: "decided env out h = a" using dec by (simp add: decided_def)
  note unfolded = assms [unfolded judge_def diagnose_def settle_def Let_def key_of_def [symmetric] mem prod.case]
  show "dec_action d = decided env out h" "dec_key d = key_of env out"
    "dec_category d = sig_category (an_signature (analyze out))"
    "dec_attempt d = attempts_for (key_of env out) h'"
    "prior = attempts_for (key_of env out) h"
    "h_policy h' = h_policy h"
    "h_counts h' = dict_set (key_of env out) (occurrences (key_of env out) h + 1) (h_counts h)"
    "attempts_for k h' = attempts_for k h +
       (if k = key_of env out \<and> counts_as_attempt (decided env out h) then 1 else 0)"
    "h_log h' = h_log h @ [(key_of env out, action_value (decided env out h))]"
    using unfolded dec eq h1 by auto
qed

lemma handle_failure_state:
  assumes "handle_failure env task out ref h = (r, h')"
  shows "h_policy h' = h_policy h"
    "h_counts h' = dict_set (key_of env out) (occurrences (key_of env out) h + 1) (h_counts h)"
    "attempts_for k h' = attempts_for k h +
       (if k = key_of env out \<and> counts_as_attempt (decided env out h) then 1 else 0)"
    "h_log h' = h_log h @ [(key_of env out, action_value (decided env out h))]"
    "\<forall>d. r = Inr d \<longrightarrow> dec_action d = decided env out h"
proof -
  obtain d prior h4 where j: "judge env task out h = (d, prior, h4)" by (metis prod_cases3)
  obtain q h5 where rb: "call_rollback env task ref h4 = (q, h5)" by (metis surj_pair)
  with call_rollback_simps [of env task ref h4] have h5:
    "h_policy h5 = h_policy h4" "h_counts h5 = h_counts h4" "h_attempts h5 = h_attempts h4"
    "h_log h5 = h_log h4" by simp_all
  then have att: "attempts_for k h5 = attempts_for k h4" by (simp add: attempts_for_def)
  from assms j rb have "h' = h4 \<or> h' = h5 \<or> (\<exists>e. h' = heal_emit e h4) \<or> (\<exists>e. h' = heal_emit e h5)"
    by (auto simp: handle_failure_def split: option.splits if_splits)
  then have same: "h_policy h' = h_policy h4" "h_counts h' = h_counts h4" "h_log h' = h_log h4"
    "attempts_for k h' = attempts_for k h4"
    using h5 att by auto
  note facts = judge_facts [OF j]
  show "h_policy h' = h_policy h"
    "h_counts h' = dict_set (key_of env out) (occurrences (key_of env out) h + 1) (h_counts h)"
    "attempts_for k h' = attempts_for k h +
       (if k = key_of env out \<and> counts_as_attempt (decided env out h) then 1 else 0)"
    "h_log h' = h_log h @ [(key_of env out, action_value (decided env out h))]"
    using same facts(6,7,9) facts(8) [of k] by simp_all
  show "\<forall>d. r = Inr d \<longrightarrow> dec_action d = decided env out h"
    using assms j rb facts(1) by (auto simp: handle_failure_def split: option.splits if_splits)
qed

section \<open>Runs\<close>

datatype healing_op = Handle healing_env string string string

fun healing_step :: "healing \<Rightarrow> healing_op \<Rightarrow> healing" where
  "healing_step h (Handle env task out ref) = snd (handle_failure env task out ref h)"

lemma healing_step_state:
  "h_policy (healing_step h (Handle env task out ref)) = h_policy h"
  "occurrences k (healing_step h (Handle env task out ref)) =
     occurrences k h + (if k = key_of env out then 1 else 0)"
  "attempts_for k (healing_step h (Handle env task out ref)) = attempts_for k h +
     (if k = key_of env out \<and> counts_as_attempt (decided env out h) then 1 else 0)"
  "h_log (healing_step h (Handle env task out ref)) =
     h_log h @ [(key_of env out, action_value (decided env out h))]"
  using handle_failure_state [OF surjective_pairing, where env = env and task = task and out = out and ref = ref and h = h]
  by (simp_all add: occurrences_def)

text \<open>The repair actions the log holds for a signature.\<close>

definition repairs_logged :: "string \<Rightarrow> healing \<Rightarrow> nat" where
  "repairs_logged k h =
     length (filter (\<lambda>(k', a). k' = k \<and> a \<in> {''retry'', ''deterministic_fix'', ''llm_repair''}) (h_log h))"

definition healing_wf :: "RepairPolicy \<Rightarrow> healing \<Rightarrow> bool" where
  "healing_wf pol h \<longleftrightarrow>
     h_policy h = pol \<and>
     (\<forall>k. 0 \<le> attempts_for k h \<and> attempts_for k h \<le> max 0 (max_repair_attempts pol) \<and>
          attempts_for k h \<le> occurrences k h \<and> int (repairs_logged k h) = attempts_for k h)"

lemma healing_wf_new [simp]: "healing_wf pol (new_healing pol bus)"
  by (simp add: healing_wf_def new_healing_def attempts_for_def occurrences_def repairs_logged_def
      dict_get_default_def)

lemma attempt_below_bound:
  "counts_as_attempt (fst (decide pol an prior occ)) \<Longrightarrow> prior < max_repair_attempts pol"
  by (auto simp: decide_def split: if_splits)

lemma logged_attempt:
  "action_value a \<in> {''retry'', ''deterministic_fix'', ''llm_repair''} \<longleftrightarrow> counts_as_attempt a"
  by (cases a) simp_all

lemma repairs_logged_step:
  "repairs_logged k (healing_step h (Handle env task out ref)) = repairs_logged k h +
     (if k = key_of env out \<and> counts_as_attempt (decided env out h) then 1 else 0)"
  unfolding repairs_logged_def healing_step_state(4) using logged_attempt [of "decided env out h"]
  by auto

lemma healing_wf_step:
  assumes "healing_wf pol h"
  shows "healing_wf pol (healing_step h (Handle env task out ref))"
proof -
  have "attempts_for (key_of env out) h < max_repair_attempts pol"
    if "counts_as_attempt (decided env out h)"
    using attempt_below_bound that assms unfolding decided_def healing_wf_def by blast
  moreover have "attempts_for (key_of env out) h \<le> occurrences (key_of env out) h + 1"
    using assms unfolding healing_wf_def by (meson add_increasing2 zero_le_one)
  ultimately show ?thesis
    using assms unfolding healing_wf_def healing_step_state repairs_logged_step by auto
qed

interpretation healing_sys: counted_system healing_step "healing_wf pol" "\<lambda>h k. attempts_for k h"
    "max 0 (max_repair_attempts pol)" for pol
proof unfold_locales
  fix h e
  show "healing_wf pol h \<Longrightarrow> healing_wf pol (healing_step h e)"
    by (cases e) (simp only: healing_wf_step)
  show "healing_wf pol h \<Longrightarrow> attempts_for k h \<le> attempts_for k (healing_step h e)" for k
    by (cases e) (simp add: healing_step_state del: healing_step.simps)
qed (simp add: healing_wf_def)

text \<open>The course of one recurring failure under the default policy.\<close>

definition default_schedule :: "FailureCategory \<Rightarrow> nat \<Rightarrow> RepairAction" where
  "default_schedule c i =
     (if c \<in> deterministic_categories then (if i \<le> 3 then DETERMINISTIC_FIX else ESCALATE)
      else if c = TIMEOUT \<and> i = 1 then RETRY
      else if i \<le> 2 then LLM_REPAIR else ROLLBACK)"

lemma analyze_fixable:
  "deterministic_fixable (analyze out) \<longleftrightarrow>
     sig_category (an_signature (analyze out)) \<in> deterministic_categories"
  by (simp add: analyze_def Let_def)

lemma default_decision:
  "fst (decide default_repair_policy (analyze out)
          (if sig_category (an_signature (analyze out)) \<in> deterministic_categories
           then min (int n) 3 else min (int n) 2) (int n + 1)) =
   default_schedule (sig_category (an_signature (analyze out))) (n + 1)"
  by (auto simp: decide_def default_repair_policy_def default_schedule_def analyze_fixable
      deterministic_categories_def min_def)

lemma default_run:
  fixes env out calls bus
  defines "h \<equiv> run healing_step (new_healing default_repair_policy bus)
                  (map (\<lambda>(task, ref). Handle env task out ref) calls)"
    and "c \<equiv> sig_category (an_signature (analyze out))"
  shows "h_policy h = default_repair_policy \<and> occurrences (key_of env out) h = int (length calls) \<and>
         attempts_for (key_of env out) h =
           (if c \<in> deterministic_categories then min (int (length calls)) 3
            else min (int (length calls)) 2) \<and>
         h_log h = map (\<lambda>i. (key_of env out, action_value (default_schedule c i))) [1..<length calls + 1]"
  unfolding h_def c_def
proof (induction calls rule: rev_induct)
  case Nil
  show ?case
    by (simp add: new_healing_def attempts_for_def occurrences_def dict_get_default_def)
next
  case (snoc call calls)
  obtain task ref where call: "call = (task, ref)" by (metis surj_pair)
  let ?h = "run healing_step (new_healing default_repair_policy bus)
              (map (\<lambda>(task, ref). Handle env task out ref) calls)"
  let ?c = "sig_category (an_signature (analyze out))"
  from snoc.IH have dec: "decided env out ?h = default_schedule ?c (length calls + 1)"
    unfolding decided_def using default_decision [of out "length calls"] by simp
  have "run healing_step (new_healing default_repair_policy bus)
      (map (\<lambda>(task, ref). Handle env task out ref) (calls @ [call])) =
      healing_step ?h (Handle env task out ref)"
    by (simp add: call)
  moreover have "counts_as_attempt (default_schedule ?c (length calls + 1)) \<longleftrightarrow>
      (if ?c \<in> deterministic_categories then length calls < 3 else length calls < 2)"
    by (auto simp: default_schedule_def deterministic_categories_def)
  ultimately show ?case
    using snoc.IH dec by (auto simp: healing_step_state simp del: healing_step.simps)
qed

section \<open>Properties\<close>

text \<open>
  Handled one after the other, failures are repaired within the bound: the log never holds more
  than \<open>max_repair_attempts\<close> repair actions (retry, deterministic fix, model repair) for one
  signature, and the history counts exactly those.
\<close>

theorem sequential_repairs_are_bounded:
  "int (repairs_logged k (run healing_step (new_healing pol bus) ops)) \<le> max 0 (max_repair_attempts pol) \<and>
   int (repairs_logged k (run healing_step (new_healing pol bus) ops)) =
     attempts_for k (run healing_step (new_healing pol bus) ops)"
  using healing_sys.run_inv [OF healing_wf_new [of pol bus], of ops]
    healing_sys.counter_run_bound [OF healing_wf_new [of pol bus], where k = k and es = ops]
  by (simp add: healing_wf_def)

text \<open>
  Exhaustion is final. Once a signature has used up its repair attempts, every later
  failure with that signature escalates, whatever is handled in between.
\<close>

theorem exhausted_signature_escalates:
  assumes "healing_wf pol h" "max_repair_attempts pol \<le> attempts_for (key_of env out) h"
  shows "\<exists>d. fst (handle_failure env task out ref (run healing_step h ops)) = Inr d \<and>
             dec_action d = ESCALATE"
proof -
  let ?h = "run healing_step h ops"
  have "max_repair_attempts pol \<le> attempts_for (key_of env out) ?h"
    using healing_sys.counter_run [OF assms(1), where k = "key_of env out" and es = ops] assms(2) by linarith
  moreover have "h_policy ?h = pol"
    using healing_sys.run_inv [OF assms(1), of ops] by (simp add: healing_wf_def)
  ultimately have dec: "decided env out ?h = ESCALATE" by (simp add: decided_def decide_def)
  obtain d prior h4 where j: "judge env task out ?h = (d, prior, h4)" by (metis prod_cases3)
  with judge_facts(1) [OF j] dec show ?thesis by (auto simp: handle_failure_def)
qed

definition sample_healing_env :: healing_env where
  "sample_healing_env = \<lparr>sha1 = (\<lambda>s. s), rollback_fn = None\<rparr>"

theorem exhausted_signature_escalates_witness:
  "\<exists>d. fst (handle_failure sample_healing_env ''t1'' ''boom'' ''good''
     (run healing_step (new_healing \<lparr>max_repair_attempts = 0, deterministic_first = True,
        rollback_after_repeats = 3\<rparr> None) [Handle sample_healing_env ''t2'' ''bang'' ''good''])) = Inr d \<and>
     dec_action d = ESCALATE"
  by (rule exhausted_signature_escalates [OF healing_wf_new])
    (simp add: new_healing_def attempts_for_def dict_get_default_def)

text \<open>
  The default policy, step by step, for one failure that keeps recurring. A lint or
  dependency failure is fixed mechanically three times and then escalates. Any other is
  given to the model for its first two occurrences (a timeout is retried once first) and
  rolled back every time from the third on: it never escalates, since a rollback does not
  count as an attempt.
\<close>

theorem default_policy_course:
  "h_log (run healing_step (new_healing default_repair_policy bus)
     (map (\<lambda>(task, ref). Handle env task out ref) calls)) =
   map (\<lambda>i. (key_of env out,
             action_value (default_schedule (sig_category (an_signature (analyze out))) i)))
     [1..<length calls + 1]"
  using default_run by blast

text \<open>
  Every decision is audited. A handled failure adds its one entry to the history, counts
  one occurrence, calls the rollback callback exactly for a rollback, and emits the analysis,
  the decision and the rollback or escalation, in this order.
\<close>

theorem failure_handling_audited:
  assumes "handle_failure env task out ref h = (Inr d, h')" "h_bus h \<noteq> None"
  shows "h_log h' = h_log h @ [(dec_key d, action_value (dec_action d))] \<and>
         occurrences (dec_key d) h' = occurrences (dec_key d) h + 1 \<and>
         h_rollbacks h' = h_rollbacks h @
           (if dec_action d = ROLLBACK \<and> rollback_fn env \<noteq> None then [(task, ref)] else []) \<and>
         published (h_bus h') = published (h_bus h) @ map Healing_Event
           ([FailureAnalyzed task (category_value (dec_category d)) (dec_key d)
               (deterministic_fixable (analyze out)) (occurrences (dec_key d) h + 1),
             RepairDecisionMade task (action_value (dec_action d)) (dec_attempt d) (dec_reason d)] @
            (if dec_action d = ROLLBACK then [RolledBack task ref (dec_reason d)]
             else if dec_action d = ESCALATE
             then [RepairEscalated task (dec_reason d) (attempts_for (dec_key d) h)] else []))"
proof -
  obtain d4 prior h4 where j: "judge env task out h = (d4, prior, h4)" by (metis prod_cases3)
  from assms(1) j have d: "d4 = d"
    by (auto simp: handle_failure_def split: prod.splits option.splits if_splits)
  note facts = judge_facts [OF j [unfolded d]]
  define h1 where "h1 = snd (memory_record (dec_key d) h)"
  have mem: "memory_record (dec_key d) h = (occurrences (dec_key d) h + 1, h1)"
    by (simp add: prod_eq_iff h1_def)
  have h1: "h_bus h1 = h_bus h" "h_rollbacks h1 = h_rollbacks h"
    by (simp_all add: h1_def) (simp add: memory_record_def Let_def)
  have rb: "h_rollbacks (history_record k a x) = h_rollbacks x" for k a x
    by (simp add: history_record_def Let_def)
  have bus4: "published (h_bus h4) = published (h_bus h) @ map Healing_Event
      [FailureAnalyzed task (category_value (dec_category d)) (dec_key d)
         (deterministic_fixable (analyze out)) (occurrences (dec_key d) h + 1),
       RepairDecisionMade task (action_value (dec_action d)) (dec_attempt d) (dec_reason d)]"
    and rb4: "h_rollbacks h4 = h_rollbacks h" and ne4: "h_bus h4 \<noteq> None"
    using j [unfolded judge_def diagnose_def settle_def Let_def key_of_def [symmetric] facts(2) [symmetric] mem prod.case]
      assms(2) facts(2) d h1 by (auto simp: rb publish_Some split: prod.splits)
  have log: "h_log h' = h_log h @ [(dec_key d, action_value (dec_action d))]"
    "occurrences (dec_key d) h' = occurrences (dec_key d) h + 1"
    using handle_failure_state(2,4) [OF assms(1)] facts(1,2) by (simp_all add: occurrences_def)
  from assms(1) j d bus4 rb4 ne4 facts(2,5) log show ?thesis
    by (auto simp: handle_failure_def call_rollback_def split: option.splits if_splits)
qed

theorem failure_handling_audited_witness:
  "\<exists>d h'. handle_failure sample_healing_env ''t'' ''boom'' ''good'' (new_healing default_repair_policy (Some [])) =
            (Inr d, h') \<and> length (published (h_bus h')) = 2"
proof -
  let ?h = "new_healing default_repair_policy (Some [])"
  have dec: "decided sample_healing_env ''boom'' ?h = LLM_REPAIR"
  proof -
    have c: "sig_category (an_signature (analyze ''boom'')) = UNKNOWN" by code_simp
    have "decided sample_healing_env ''boom'' ?h = default_schedule (sig_category (an_signature (analyze ''boom''))) 1"
      using default_decision [of "''boom''" 0]
      by (simp add: decided_def new_healing_def attempts_for_def occurrences_def dict_get_default_def
          split: if_splits)
    with c show ?thesis by (simp add: default_schedule_def deterministic_categories_def)
  qed
  obtain d prior h4 where j: "judge sample_healing_env ''t'' ''boom'' ?h = (d, prior, h4)"
    by (metis prod_cases3)
  with judge_facts(1) [OF j] dec have
    call: "handle_failure sample_healing_env ''t'' ''boom'' ''good'' ?h = (Inr d, h4)"
    by (simp add: handle_failure_def)
  have "h_bus ?h = Some []" by (simp add: new_healing_def)
  with failure_handling_audited [OF call] judge_facts(1) [OF j] dec call show ?thesis by simp
qed

end
