(* ===== verification/Workflows.thy ===== *)
theory Workflows
  imports Py_Value Errors
begin

text \<open>
  \<open>workflows/machine.py\<close>, \<open>workflows/base.py\<close> and the four declarations under
  \<open>workflows/definitions/\<close>: state machines as data. No code interprets them. \<open>machine.py\<close> states what a
  loader, which the repository does not have yet, is to enforce: one initial state, no orphans, no
  unreachable states, every terminal state reachable. Shown: the declared machines have these
  properties, of the graph of their transitions.
\<close>

section \<open>Declarations\<close>

text \<open>A guard is what awaiting it gives for a context: it may raise. No declared transition has one.\<close>

record Transition =
  from_state :: string
  to_state :: string
  trigger :: string
  guard :: "((string, pyval) dict \<Rightarrow> exn + bool) option"
  tr_description :: string

definition edge :: "string \<Rightarrow> string \<Rightarrow> string \<Rightarrow> Transition" where
  "edge a b t =
     \<lparr>from_state = a, to_state = b, trigger = t, guard = None, tr_description = []\<rparr>"

record StateMachine =
  machine_name :: string
  machine_version :: string
  initial_state :: string
  states :: "string list"
  terminal_states :: "string list"
  transitions :: "Transition list"
  machine_metadata :: "(string, pyval) dict"

definition transitions_from :: "StateMachine \<Rightarrow> string \<Rightarrow> Transition list" where
  "transitions_from m s = filter (\<lambda>t. from_state t = s) (transitions m)"

definition is_terminal :: "StateMachine \<Rightarrow> string \<Rightarrow> bool" where
  "is_terminal m s \<longleftrightarrow> s \<in> set (terminal_states m)"

text \<open>The class of a schema with its fields, each with whether it is required.\<close>

record schema =
  schema_class :: string
  schema_fields :: "(string \<times> bool) list"

record WorkflowDefinition =
  wf_name :: string
  wf_version :: string
  wf_description :: string
  wf_machine :: StateMachine
  input_schema :: schema
  output_schema :: schema
  wf_tags :: "string list"

section \<open>The declared workflows\<close>

definition code_generation_machine :: StateMachine where
  "code_generation_machine =
     \<lparr>machine_name = ''code_generation'', machine_version = ''1.0.0'', initial_state = ''planning'',
      states = [''planning'', ''drafting'', ''self_reviewing'', ''validating'',
                ''committing'', ''completed'', ''failed''],
      terminal_states = [''completed'', ''failed''],
      transitions =
        [edge ''planning'' ''drafting'' ''plan_ready'',
         edge ''drafting'' ''self_reviewing'' ''draft_ready'',
         edge ''self_reviewing'' ''drafting'' ''needs_revision'',
         edge ''self_reviewing'' ''validating'' ''draft_approved'',
         edge ''validating'' ''committing'' ''validation_passed'',
         edge ''validating'' ''drafting'' ''validation_failed'',
         edge ''committing'' ''completed'' ''commit_pushed'',
         edge ''planning'' ''failed'' ''plan_aborted'',
         edge ''drafting'' ''failed'' ''draft_aborted'',
         edge ''validating'' ''failed'' ''validation_exhausted'',
         edge ''committing'' ''failed'' ''commit_failed''],
      machine_metadata = []\<rparr>"

definition code_generation_workflow :: WorkflowDefinition where
  "code_generation_workflow =
     \<lparr>wf_name = ''code_generation'', wf_version = ''1.0.0'',
      wf_description = ''Autonomous code generation: plan -> draft -> self-review -> validate -> commit.'',
      wf_machine = code_generation_machine,
      input_schema = \<lparr>schema_class = ''CodeGenerationInputs'',
         schema_fields = [(''repo'', True), (''target_branch'', True), (''spec_ref'', True), (''language'', True)]\<rparr>,
      output_schema = \<lparr>schema_class = ''CodeGenerationOutputs'',
         schema_fields = [(''branch'', True), (''commit_sha'', True), (''pr_number'', False)]\<rparr>,
      wf_tags = [''codegen'', ''autonomous'']\<rparr>"

definition testing_machine :: StateMachine where
  "testing_machine =
     \<lparr>machine_name = ''testing'', machine_version = ''1.0.0'', initial_state = ''materializing_env'',
      states = [''materializing_env'', ''installing_deps'', ''running_tests'',
                ''collecting_artifacts'', ''completed'', ''failed''],
      terminal_states = [''completed'', ''failed''],
      transitions =
        [edge ''materializing_env'' ''installing_deps'' ''env_ready'',
         edge ''installing_deps'' ''running_tests'' ''deps_installed'',
         edge ''running_tests'' ''collecting_artifacts'' ''tests_done'',
         edge ''collecting_artifacts'' ''completed'' ''artifacts_persisted'',
         edge ''materializing_env'' ''failed'' ''env_unavailable'',
         edge ''installing_deps'' ''failed'' ''deps_failed'',
         edge ''running_tests'' ''failed'' ''runner_crashed''],
      machine_metadata = []\<rparr>"

definition testing_workflow :: WorkflowDefinition where
  "testing_workflow =
     \<lparr>wf_name = ''testing'', wf_version = ''1.0.0'',
      wf_description = ''Run a project'' @ [CHR 0x27] @ ''s test suite inside the sandbox and persist artifacts.'',
      wf_machine = testing_machine,
      input_schema = \<lparr>schema_class = ''TestingInputs'',
         schema_fields = [(''repo'', True), (''ref'', True), (''framework'', True), (''selectors'', False)]\<rparr>,
      output_schema = \<lparr>schema_class = ''TestingOutputs'',
         schema_fields = [(''passed'', True), (''failed'', True), (''skipped'', True), (''coverage_pct'', False)]\<rparr>,
      wf_tags = [''testing'', ''autonomous'']\<rparr>"

definition auto_repair_machine :: StateMachine where
  "auto_repair_machine =
     \<lparr>machine_name = ''auto_repair'', machine_version = ''1.0.0'', initial_state = ''diagnosing'',
      states = [''diagnosing'', ''proposing_patch'', ''applying_patch'', ''validating'',
                ''completed'', ''exhausted'', ''failed''],
      terminal_states = [''completed'', ''exhausted'', ''failed''],
      transitions =
        [edge ''diagnosing'' ''proposing_patch'' ''diagnosis_ready'',
         edge ''proposing_patch'' ''applying_patch'' ''patch_proposed'',
         edge ''applying_patch'' ''validating'' ''patch_applied'',
         edge ''validating'' ''completed'' ''validation_passed'',
         edge ''validating'' ''diagnosing'' ''validation_failed_retry'',
         edge ''validating'' ''exhausted'' ''max_attempts_reached'',
         edge ''diagnosing'' ''failed'' ''diagnosis_unavailable'',
         edge ''applying_patch'' ''failed'' ''apply_failed''],
      machine_metadata = []\<rparr>"

definition auto_repair_workflow :: WorkflowDefinition where
  "auto_repair_workflow =
     \<lparr>wf_name = ''auto_repair'', wf_version = ''1.0.0'',
      wf_description = ''Diagnose, patch, validate - iteratively, up to N attempts.'',
      wf_machine = auto_repair_machine,
      input_schema = \<lparr>schema_class = ''AutoRepairInputs'',
         schema_fields = [(''repo'', True), (''failing_signal'', True), (''max_attempts'', False)]\<rparr>,
      output_schema = \<lparr>schema_class = ''AutoRepairOutputs'',
         schema_fields = [(''repaired'', True), (''attempts_used'', True), (''final_diff_hash'', False)]\<rparr>,
      wf_tags = [''repair'', ''autonomous'']\<rparr>"

definition code_review_machine :: StateMachine where
  "code_review_machine =
     \<lparr>machine_name = ''code_review'', machine_version = ''1.0.0'', initial_state = ''collecting_diff'',
      states = [''collecting_diff'', ''analyzing'', ''synthesizing_findings'',
                ''publishing'', ''completed'', ''failed''],
      terminal_states = [''completed'', ''failed''],
      transitions =
        [edge ''collecting_diff'' ''analyzing'' ''diff_collected'',
         edge ''analyzing'' ''synthesizing_findings'' ''analysis_done'',
         edge ''synthesizing_findings'' ''publishing'' ''findings_ready'',
         edge ''publishing'' ''completed'' ''published'',
         edge ''collecting_diff'' ''failed'' ''diff_unavailable'',
         edge ''analyzing'' ''failed'' ''analysis_failed'',
         edge ''publishing'' ''failed'' ''publish_failed''],
      machine_metadata = []\<rparr>"

definition code_review_workflow :: WorkflowDefinition where
  "code_review_workflow =
     \<lparr>wf_name = ''code_review'', wf_version = ''1.0.0'',
      wf_description = ''Automated code review for a pull request.'',
      wf_machine = code_review_machine,
      input_schema = \<lparr>schema_class = ''CodeReviewInputs'',
         schema_fields = [(''repo'', True), (''pr_number'', True), (''reviewer_profile'', True)]\<rparr>,
      output_schema = \<lparr>schema_class = ''CodeReviewOutputs'',
         schema_fields = [(''decision'', True), (''findings_total'', True)]\<rparr>,
      wf_tags = [''review'', ''autonomous'']\<rparr>"

definition all_workflows :: "WorkflowDefinition list" where
  "all_workflows = [code_generation_workflow, testing_workflow, auto_repair_workflow, code_review_workflow]"

section \<open>The graph of a machine\<close>

definition moves :: "StateMachine \<Rightarrow> (string \<times> string) set" where
  "moves m = {(from_state t, to_state t) | t. t \<in> set (transitions m)}"

text \<open>
  The check, executable: the states reached within a number of transitions, and the conditions, with
  determinism (at most one transition from a state for a trigger) and the terminal states as the only
  ones a run can end in.
\<close>

fun reach_within :: "nat \<Rightarrow> StateMachine \<Rightarrow> string list \<Rightarrow> string list" where
  "reach_within 0 m ss = ss"
| "reach_within (Suc n) m ss =
     reach_within n m (remdups (ss @ concat (map (\<lambda>s. map to_state (transitions_from m s)) ss)))"

definition well_formed :: "StateMachine \<Rightarrow> bool" where
  "well_formed m \<longleftrightarrow>
     initial_state m \<in> set (states m) \<and> \<not> is_terminal m (initial_state m) \<and>
     list_all (\<lambda>s. s \<in> set (states m)) (terminal_states m) \<and>
     list_all (\<lambda>t. from_state t \<in> set (states m) \<and> to_state t \<in> set (states m)) (transitions m) \<and>
     list_all (\<lambda>t. case guard t of None \<Rightarrow> True | Some g \<Rightarrow> False) (transitions m) \<and>
     list_all (\<lambda>t. \<not> is_terminal m (from_state t)) (transitions m) \<and>
     distinct (map (\<lambda>t. (from_state t, trigger t)) (transitions m)) \<and>
     list_all (\<lambda>s. s \<in> set (reach_within (length (states m)) m [initial_state m])) (states m) \<and>
     list_all (\<lambda>s. list_ex (is_terminal m) (reach_within (length (states m)) m [s])) (states m)"

lemma moves_from: "t \<in> set (transitions_from m s) \<Longrightarrow> (s, to_state t) \<in> moves m"
  by (auto simp: transitions_from_def moves_def)

lemma reach_within_sound:
  "x \<in> set (reach_within n m ss) \<Longrightarrow> \<exists>s \<in> set ss. (s, x) \<in> (moves m)\<^sup>*"
proof (induction n m ss rule: reach_within.induct)
  case (2 n m ss)
  from 2(2) have "x \<in> set (reach_within n m
      (remdups (ss @ concat (map (\<lambda>s. map to_state (transitions_from m s)) ss))))" by simp
  from 2(1) [OF this] obtain s where
    s: "s \<in> set (remdups (ss @ concat (map (\<lambda>s. map to_state (transitions_from m s)) ss)))"
    "(s, x) \<in> (moves m)\<^sup>*" by blast
  from s(1) have "s \<in> set ss \<or> (\<exists>r \<in> set ss. \<exists>t \<in> set (transitions_from m r). s = to_state t)"
    by auto
  then show ?case
  proof (elim disjE bexE)
    fix r t
    assume "r \<in> set ss" "t \<in> set (transitions_from m r)" "s = to_state t"
    with s(2) moves_from [of t m r] show ?case by (auto intro: converse_rtrancl_into_rtrancl)
  qed (use s(2) in auto)
qed auto

lemma reach_states:
  "well_formed m \<Longrightarrow> (s, t) \<in> (moves m)\<^sup>* \<Longrightarrow> s \<in> set (states m) \<Longrightarrow> t \<in> set (states m)"
  by (erule rtranclE) (auto simp: well_formed_def moves_def list_all_iff)

text \<open>What a machine that passes the check is as a graph.\<close>

lemma well_formed_graph:
  assumes "well_formed m"
  shows "{s. (initial_state m, s) \<in> (moves m)\<^sup>*} = set (states m)"
    and "s \<in> set (states m) \<Longrightarrow> \<exists>t. is_terminal m t \<and> (s, t) \<in> (moves m)\<^sup>*"
    and "s \<in> set (states m) \<Longrightarrow> transitions_from m s = [] \<longleftrightarrow> is_terminal m s"
proof -
  have init: "initial_state m \<in> set (states m)" using assms by (simp add: well_formed_def)
  have "(initial_state m, s) \<in> (moves m)\<^sup>*" if "s \<in> set (states m)" for s
  proof -
    from assms that have "s \<in> set (reach_within (length (states m)) m [initial_state m])"
      by (simp add: well_formed_def list_all_iff)
    then show ?thesis using reach_within_sound by fastforce
  qed
  with reach_states [OF assms _ init] show "{s. (initial_state m, s) \<in> (moves m)\<^sup>*} = set (states m)" by auto
  show ends: "\<exists>t. is_terminal m t \<and> (s, t) \<in> (moves m)\<^sup>*" if s: "s \<in> set (states m)" for s
  proof -
    from assms s obtain t where "t \<in> set (reach_within (length (states m)) m [s])" "is_terminal m t"
      by (fastforce simp: well_formed_def list_all_iff list_ex_iff)
    then show ?thesis using reach_within_sound by fastforce
  qed
  assume s: "s \<in> set (states m)"
  show "transitions_from m s = [] \<longleftrightarrow> is_terminal m s"
  proof
    assume none: "transitions_from m s = []"
    from ends [OF s] obtain t where t: "is_terminal m t" "(s, t) \<in> (moves m)\<^sup>*" by blast
    from t(2) show "is_terminal m s"
    proof (cases rule: converse_rtranclE)
      case (step y)
      with none show ?thesis by (auto simp: moves_def transitions_from_def filter_empty_conv)
    qed (use t(1) in simp)
  qed (use assms in \<open>auto simp: well_formed_def transitions_from_def filter_empty_conv list_all_iff\<close>)
qed

text \<open>A rank that falls with every transition bounds every path.\<close>

lemma path_bounded:
  assumes "list_all (\<lambda>t. rank (to_state t) < rank (from_state t)) (transitions m)"
  shows "(s, s') \<in> moves m ^^ n \<Longrightarrow> n + rank s' \<le> (rank s :: nat)"
proof (induction n arbitrary: s')
  case (Suc n)
  then obtain r where r: "(s, r) \<in> moves m ^^ n" "(r, s') \<in> moves m" by auto
  have "rank s' < rank r" using r(2) assms by (auto simp: moves_def list_all_iff)
  with Suc.IH [OF r(1)] show ?case by simp
qed simp

section \<open>The declared machines\<close>

lemmas reach_step = reach_within.simps numeral_nat

lemma code_generation_sel:
  "initial_state code_generation_machine =
     ''planning''"
  "states code_generation_machine =
     [''planning'', ''drafting'', ''self_reviewing'', ''validating'', ''committing'',
      ''completed'', ''failed'']"
  "terminal_states code_generation_machine =
     [''completed'', ''failed'']"
  "transitions code_generation_machine =
     [edge ''planning'' ''drafting'' ''plan_ready'', edge ''drafting'' ''self_reviewing''
      ''draft_ready'', edge ''self_reviewing'' ''drafting'' ''needs_revision'', edge
      ''self_reviewing'' ''validating'' ''draft_approved'', edge ''validating'' ''committing''
      ''validation_passed'', edge ''validating'' ''drafting'' ''validation_failed'', edge
      ''committing'' ''completed'' ''commit_pushed'', edge ''planning'' ''failed''
      ''plan_aborted'', edge ''drafting'' ''failed'' ''draft_aborted'', edge ''validating''
      ''failed'' ''validation_exhausted'', edge ''committing'' ''failed'' ''commit_failed'']"
  by (simp_all add: code_generation_machine_def)

lemma code_generation_successors:
  "map to_state (transitions_from code_generation_machine ''planning'') = [''drafting'', ''failed'']"
  "map to_state (transitions_from code_generation_machine ''drafting'') = [''self_reviewing'', ''failed'']"
  "map to_state (transitions_from code_generation_machine ''self_reviewing'') = [''drafting'', ''validating'']"
  "map to_state (transitions_from code_generation_machine ''validating'') = [''committing'', ''drafting'', ''failed'']"
  "map to_state (transitions_from code_generation_machine ''committing'') = [''completed'', ''failed'']"
  "map to_state (transitions_from code_generation_machine ''completed'') = []"
  "map to_state (transitions_from code_generation_machine ''failed'') = []"
  by (simp_all add: code_generation_sel transitions_from_def edge_def)

lemma well_formed_code_generation: "well_formed code_generation_machine"
proof -
  have init: "set (reach_within 7 code_generation_machine [''planning'']) = set [''planning'', ''drafting'', ''self_reviewing'', ''validating'', ''committing'', ''completed'', ''failed'']"
    by (simp add: reach_step code_generation_successors) auto
  have "list_ex (is_terminal code_generation_machine) (reach_within 7 code_generation_machine [''planning''])"
    "list_ex (is_terminal code_generation_machine) (reach_within 7 code_generation_machine [''drafting''])"
    "list_ex (is_terminal code_generation_machine) (reach_within 7 code_generation_machine [''self_reviewing''])"
    "list_ex (is_terminal code_generation_machine) (reach_within 7 code_generation_machine [''validating''])"
    "list_ex (is_terminal code_generation_machine) (reach_within 7 code_generation_machine [''committing''])"
    "list_ex (is_terminal code_generation_machine) (reach_within 7 code_generation_machine [''completed''])"
    "list_ex (is_terminal code_generation_machine) (reach_within 7 code_generation_machine [''failed''])"
    by (simp_all add: reach_step code_generation_successors is_terminal_def code_generation_sel)
  with init show ?thesis
    by (simp add: well_formed_def is_terminal_def code_generation_sel edge_def numeral_nat del: reach_within.simps)
qed

lemma testing_sel:
  "initial_state testing_machine =
     ''materializing_env''"
  "states testing_machine =
     [''materializing_env'', ''installing_deps'', ''running_tests'', ''collecting_artifacts'',
      ''completed'', ''failed'']"
  "terminal_states testing_machine =
     [''completed'', ''failed'']"
  "transitions testing_machine =
     [edge ''materializing_env'' ''installing_deps'' ''env_ready'', edge ''installing_deps''
      ''running_tests'' ''deps_installed'', edge ''running_tests'' ''collecting_artifacts''
      ''tests_done'', edge ''collecting_artifacts'' ''completed'' ''artifacts_persisted'', edge
      ''materializing_env'' ''failed'' ''env_unavailable'', edge ''installing_deps'' ''failed''
      ''deps_failed'', edge ''running_tests'' ''failed'' ''runner_crashed'']"
  by (simp_all add: testing_machine_def)

lemma testing_successors:
  "map to_state (transitions_from testing_machine ''materializing_env'') = [''installing_deps'', ''failed'']"
  "map to_state (transitions_from testing_machine ''installing_deps'') = [''running_tests'', ''failed'']"
  "map to_state (transitions_from testing_machine ''running_tests'') = [''collecting_artifacts'', ''failed'']"
  "map to_state (transitions_from testing_machine ''collecting_artifacts'') = [''completed'']"
  "map to_state (transitions_from testing_machine ''completed'') = []"
  "map to_state (transitions_from testing_machine ''failed'') = []"
  by (simp_all add: testing_sel transitions_from_def edge_def)

lemma well_formed_testing: "well_formed testing_machine"
proof -
  have init: "set (reach_within 6 testing_machine [''materializing_env'']) = set [''materializing_env'', ''installing_deps'', ''running_tests'', ''collecting_artifacts'', ''completed'', ''failed'']"
    by (simp add: reach_step testing_successors) auto
  have "list_ex (is_terminal testing_machine) (reach_within 6 testing_machine [''materializing_env''])"
    "list_ex (is_terminal testing_machine) (reach_within 6 testing_machine [''installing_deps''])"
    "list_ex (is_terminal testing_machine) (reach_within 6 testing_machine [''running_tests''])"
    "list_ex (is_terminal testing_machine) (reach_within 6 testing_machine [''collecting_artifacts''])"
    "list_ex (is_terminal testing_machine) (reach_within 6 testing_machine [''completed''])"
    "list_ex (is_terminal testing_machine) (reach_within 6 testing_machine [''failed''])"
    by (simp_all add: reach_step testing_successors is_terminal_def testing_sel)
  with init show ?thesis
    by (simp add: well_formed_def is_terminal_def testing_sel edge_def numeral_nat del: reach_within.simps)
qed

lemma auto_repair_sel:
  "initial_state auto_repair_machine =
     ''diagnosing''"
  "states auto_repair_machine =
     [''diagnosing'', ''proposing_patch'', ''applying_patch'', ''validating'', ''completed'',
      ''exhausted'', ''failed'']"
  "terminal_states auto_repair_machine =
     [''completed'', ''exhausted'', ''failed'']"
  "transitions auto_repair_machine =
     [edge ''diagnosing'' ''proposing_patch'' ''diagnosis_ready'', edge ''proposing_patch''
      ''applying_patch'' ''patch_proposed'', edge ''applying_patch'' ''validating''
      ''patch_applied'', edge ''validating'' ''completed'' ''validation_passed'', edge
      ''validating'' ''diagnosing'' ''validation_failed_retry'', edge ''validating''
      ''exhausted'' ''max_attempts_reached'', edge ''diagnosing'' ''failed''
      ''diagnosis_unavailable'', edge ''applying_patch'' ''failed'' ''apply_failed'']"
  by (simp_all add: auto_repair_machine_def)

lemma auto_repair_successors:
  "map to_state (transitions_from auto_repair_machine ''diagnosing'') = [''proposing_patch'', ''failed'']"
  "map to_state (transitions_from auto_repair_machine ''proposing_patch'') = [''applying_patch'']"
  "map to_state (transitions_from auto_repair_machine ''applying_patch'') = [''validating'', ''failed'']"
  "map to_state (transitions_from auto_repair_machine ''validating'') = [''completed'', ''diagnosing'', ''exhausted'']"
  "map to_state (transitions_from auto_repair_machine ''completed'') = []"
  "map to_state (transitions_from auto_repair_machine ''exhausted'') = []"
  "map to_state (transitions_from auto_repair_machine ''failed'') = []"
  by (simp_all add: auto_repair_sel transitions_from_def edge_def)

lemma well_formed_auto_repair: "well_formed auto_repair_machine"
proof -
  have init: "set (reach_within 7 auto_repair_machine [''diagnosing'']) = set [''diagnosing'', ''proposing_patch'', ''applying_patch'', ''validating'', ''completed'', ''exhausted'', ''failed'']"
    by (simp add: reach_step auto_repair_successors) auto
  have "list_ex (is_terminal auto_repair_machine) (reach_within 7 auto_repair_machine [''diagnosing''])"
    "list_ex (is_terminal auto_repair_machine) (reach_within 7 auto_repair_machine [''proposing_patch''])"
    "list_ex (is_terminal auto_repair_machine) (reach_within 7 auto_repair_machine [''applying_patch''])"
    "list_ex (is_terminal auto_repair_machine) (reach_within 7 auto_repair_machine [''validating''])"
    "list_ex (is_terminal auto_repair_machine) (reach_within 7 auto_repair_machine [''completed''])"
    "list_ex (is_terminal auto_repair_machine) (reach_within 7 auto_repair_machine [''exhausted''])"
    "list_ex (is_terminal auto_repair_machine) (reach_within 7 auto_repair_machine [''failed''])"
    by (simp_all add: reach_step auto_repair_successors is_terminal_def auto_repair_sel)
  with init show ?thesis
    by (simp add: well_formed_def is_terminal_def auto_repair_sel edge_def numeral_nat del: reach_within.simps)
qed

lemma code_review_sel:
  "initial_state code_review_machine =
     ''collecting_diff''"
  "states code_review_machine =
     [''collecting_diff'', ''analyzing'', ''synthesizing_findings'', ''publishing'',
      ''completed'', ''failed'']"
  "terminal_states code_review_machine =
     [''completed'', ''failed'']"
  "transitions code_review_machine =
     [edge ''collecting_diff'' ''analyzing'' ''diff_collected'', edge ''analyzing''
      ''synthesizing_findings'' ''analysis_done'', edge ''synthesizing_findings'' ''publishing''
      ''findings_ready'', edge ''publishing'' ''completed'' ''published'', edge
      ''collecting_diff'' ''failed'' ''diff_unavailable'', edge ''analyzing'' ''failed''
      ''analysis_failed'', edge ''publishing'' ''failed'' ''publish_failed'']"
  by (simp_all add: code_review_machine_def)

lemma code_review_successors:
  "map to_state (transitions_from code_review_machine ''collecting_diff'') = [''analyzing'', ''failed'']"
  "map to_state (transitions_from code_review_machine ''analyzing'') = [''synthesizing_findings'', ''failed'']"
  "map to_state (transitions_from code_review_machine ''synthesizing_findings'') = [''publishing'']"
  "map to_state (transitions_from code_review_machine ''publishing'') = [''completed'', ''failed'']"
  "map to_state (transitions_from code_review_machine ''completed'') = []"
  "map to_state (transitions_from code_review_machine ''failed'') = []"
  by (simp_all add: code_review_sel transitions_from_def edge_def)

lemma well_formed_code_review: "well_formed code_review_machine"
proof -
  have init: "set (reach_within 6 code_review_machine [''collecting_diff'']) = set [''collecting_diff'', ''analyzing'', ''synthesizing_findings'', ''publishing'', ''completed'', ''failed'']"
    by (simp add: reach_step code_review_successors)
  have "list_ex (is_terminal code_review_machine) (reach_within 6 code_review_machine [''collecting_diff''])"
    "list_ex (is_terminal code_review_machine) (reach_within 6 code_review_machine [''analyzing''])"
    "list_ex (is_terminal code_review_machine) (reach_within 6 code_review_machine [''synthesizing_findings''])"
    "list_ex (is_terminal code_review_machine) (reach_within 6 code_review_machine [''publishing''])"
    "list_ex (is_terminal code_review_machine) (reach_within 6 code_review_machine [''completed''])"
    "list_ex (is_terminal code_review_machine) (reach_within 6 code_review_machine [''failed''])"
    by (simp_all add: reach_step code_review_successors is_terminal_def code_review_sel)
  with init show ?thesis
    by (simp add: well_formed_def is_terminal_def code_review_sel edge_def numeral_nat del: reach_within.simps)
qed

section \<open>Properties\<close>

lemma declared_workflows_well_formed:
  "list_all (\<lambda>w. well_formed (wf_machine w)) all_workflows"
  by (simp add: all_workflows_def code_generation_workflow_def testing_workflow_def
      auto_repair_workflow_def code_review_workflow_def well_formed_code_generation
      well_formed_testing well_formed_auto_repair well_formed_code_review)

text \<open>
  C40: Each of the four declared workflows has a machine of its own name and version with what
  \<open>machine.py\<close> demands: from the initial state exactly the declared states can be reached, so no state
  is orphaned or unreachable and no transition leaves the declared states; the terminal states are
  declared and are exactly the ones without transitions; from every state a terminal state can be
  reached; and at most one transition from a state has a given trigger.
\<close>

theorem declared_machines_well_formed:
  "list_all (\<lambda>w. let m = wf_machine w in
     {s. (initial_state m, s) \<in> (moves m)\<^sup>*} = set (states m) \<and>
     set (terminal_states m) \<subseteq> set (states m) \<and>
     list_all (\<lambda>s. (transitions_from m s = [] \<longleftrightarrow> is_terminal m s) \<and>
       (\<exists>t. is_terminal m t \<and> (s, t) \<in> (moves m)\<^sup>*)) (states m) \<and>
     distinct (map (\<lambda>t. (from_state t, trigger t)) (transitions m)) \<and>
     machine_name m = wf_name w \<and> machine_version m = wf_version w) all_workflows"
proof -
  have graph: "{s. (initial_state m, s) \<in> (moves m)\<^sup>*} = set (states m) \<and>
     set (terminal_states m) \<subseteq> set (states m) \<and>
     list_all (\<lambda>s. (transitions_from m s = [] \<longleftrightarrow> is_terminal m s) \<and>
       (\<exists>t. is_terminal m t \<and> (s, t) \<in> (moves m)\<^sup>*)) (states m) \<and>
     distinct (map (\<lambda>t. (from_state t, trigger t)) (transitions m))" if "well_formed m" for m
    using well_formed_graph [OF that] that by (auto simp: list_all_iff well_formed_def)
  moreover have "list_all (\<lambda>w. machine_name (wf_machine w) = wf_name w \<and>
      machine_version (wf_machine w) = wf_version w) all_workflows"
    by (simp add: all_workflows_def code_generation_workflow_def testing_workflow_def
        auto_repair_workflow_def code_review_workflow_def code_generation_machine_def
        testing_machine_def auto_repair_machine_def code_review_machine_def)
  ultimately show ?thesis
    using declared_workflows_well_formed unfolding Let_def list_all_iff by blast
qed

text \<open>
  Testing and code review are linear: no path of either machine has more than four
  transitions.
\<close>

lemma testing_and_review_terminate:
  "(initial_state testing_machine, s) \<in> moves testing_machine ^^ n \<Longrightarrow> n \<le> 4"
  "(initial_state code_review_machine, s) \<in> moves code_review_machine ^^ n \<Longrightarrow> n \<le> 4"
proof -
  define r where "r = (\<lambda>s. if s = ''materializing_env'' then 4 else if s = ''installing_deps'' then 3
    else if s = ''running_tests'' then 2 else if s = ''collecting_artifacts'' then 1 else (0::nat))"
  assume "(initial_state testing_machine, s) \<in> moves testing_machine ^^ n"
  then have "n + r s \<le> r (initial_state testing_machine)"
    by (rule path_bounded [rotated]) (simp add: testing_machine_def edge_def r_def)
  then show "n \<le> 4" by (simp add: testing_machine_def r_def)
next
  define r where "r = (\<lambda>s. if s = ''collecting_diff'' then 4 else if s = ''analyzing'' then 3
    else if s = ''synthesizing_findings'' then 2 else if s = ''publishing'' then 1 else (0::nat))"
  assume "(initial_state code_review_machine, s) \<in> moves code_review_machine ^^ n"
  then have "n + r s \<le> r (initial_state code_review_machine)"
    by (rule path_bounded [rotated]) (simp add: code_review_machine_def edge_def r_def)
  then show "n \<le> 4" by (simp add: code_review_machine_def r_def)
qed

text \<open>
  The repair machine does not bound its attempts: diagnosing, patching and failing
  validation can be repeated any number of times without reaching a terminal state.
\<close>

lemma edge_moves: "edge a b t \<in> set (transitions m) \<Longrightarrow> (a, b) \<in> moves m"
  by (force simp: moves_def edge_def)

lemma auto_repair_can_loop:
  "(''diagnosing'', ''diagnosing'') \<in> moves auto_repair_machine ^^ (4 * n)"
proof -
  have "(''diagnosing'', ''proposing_patch'') \<in> moves auto_repair_machine"
    by (rule edge_moves [where t = "''diagnosis_ready''"]) (simp add: auto_repair_sel)
  moreover have "(''proposing_patch'', ''applying_patch'') \<in> moves auto_repair_machine"
    by (rule edge_moves [where t = "''patch_proposed''"]) (simp add: auto_repair_sel)
  moreover have "(''applying_patch'', ''validating'') \<in> moves auto_repair_machine"
    by (rule edge_moves [where t = "''patch_applied''"]) (simp add: auto_repair_sel)
  moreover have "(''validating'', ''diagnosing'') \<in> moves auto_repair_machine"
    by (rule edge_moves [where t = "''validation_failed_retry''"]) (simp add: auto_repair_sel)
  ultimately have lap: "(''diagnosing'', ''diagnosing'') \<in> moves auto_repair_machine ^^ 4"
    by (auto simp: numeral_eq_Suc relcomp_unfold)
  show ?thesis
  proof (induction n)
    case (Suc n)
    from relcompI [OF lap Suc] show ?case by (simp only: relpow_add [symmetric] mult_Suc_right)
  qed simp
qed

end
