(* ===== verification/Effects.thy ===== *)
theory Effects
  imports Errors
begin

text \<open>
  Code with state that may raise: an operation takes the state and returns an exception or a
  value together with the state it leaves. A raised exception keeps the effects made before it.
  The locale \<open>frame_relation\<close> is the interface between such code and what it is shown to
  leave alone: a reflexive and transitive relation between states is kept by sequences and loops
  of operations that keep it.
\<close>

type_synonym ('s, 'a) op = "'s \<Rightarrow> (exn + 'a) \<times> 's"

definition op_return :: "'a \<Rightarrow> ('s, 'a) op" where
  "op_return x s = (Inr x, s)"

definition op_raise :: "exn \<Rightarrow> ('s, 'a) op" where
  "op_raise e s = (Inl e, s)"

definition op_bind :: "('s, 'a) op \<Rightarrow> ('a \<Rightarrow> ('s, 'b) op) \<Rightarrow> ('s, 'b) op" where
  "op_bind m f s = (case m s of (Inl e, s') \<Rightarrow> (Inl e, s') | (Inr x, s') \<Rightarrow> f x s')"

text \<open>A \<open>for\<close> loop whose body may raise.\<close>

fun op_each :: "('a \<Rightarrow> ('s, unit) op) \<Rightarrow> 'a list \<Rightarrow> ('s, unit) op" where
  "op_each f [] = op_return ()"
| "op_each f (x # xs) = op_bind (f x) (\<lambda>_. op_each f xs)"

text \<open>A pure computation that may raise, and a change of the state that cannot.\<close>

definition op_lift :: "exn + 'a \<Rightarrow> ('s, 'a) op" where
  "op_lift r s = (r, s)"

definition op_modify :: "('s \<Rightarrow> 's) \<Rightarrow> ('s, unit) op" where
  "op_modify f s = (Inr (), f s)"

lemma op_simps [simp]:
  "op_return x s = (Inr x, s)" "op_raise e s = (Inl e, s)" "op_lift r s = (r, s)"
  "op_modify g s = (Inr (), g s)"
  by (simp_all add: op_return_def op_raise_def op_lift_def op_modify_def)

text \<open>What a sequence that returned a value did.\<close>

lemma op_bind_Inr:
  "op_bind m f s = (Inr y, s2) \<longleftrightarrow> (\<exists>x s1. m s = (Inr x, s1) \<and> f x s1 = (Inr y, s2))"
  by (auto simp: op_bind_def split: prod.splits sum.splits)

lemma op_bindE:
  assumes "op_bind m f s = (Inr y, s2)"
  obtains x s1 where "m s = (Inr x, s1)" "f x s1 = (Inr y, s2)"
  using assms by (auto simp: op_bind_Inr)

lemma op_bind_ok [simp]: "m s = (Inr x, s1) \<Longrightarrow> op_bind m f s = f x s1"
  by (simp add: op_bind_def)

lemma op_bind_raised [simp]: "m s = (Inl e, s1) \<Longrightarrow> op_bind m f s = (Inl e, s1)"
  by (simp add: op_bind_def)

locale frame_relation =
  fixes R :: "'s \<Rightarrow> 's \<Rightarrow> bool"
  assumes frame_refl: "R s s"
    and frame_trans: "R s t \<Longrightarrow> R t u \<Longrightarrow> R s u"
begin

lemma frame_bind:
  assumes "R s (snd (m s))" "\<And>x s1. m s = (Inr x, s1) \<Longrightarrow> R s1 (snd (f x s1))"
  shows "R s (snd (op_bind m f s))"
  using assms frame_trans [OF assms(1)]
  by (cases "m s"; cases "fst (m s)") (auto simp: op_bind_def)

lemma frame_each:
  assumes "\<And>x s. x \<in> set xs \<Longrightarrow> R s (snd (f x s))"
  shows "R s (snd (op_each f xs s))"
  using assms by (induction xs arbitrary: s) (auto intro: frame_refl frame_bind)

end

end
