(* ===== verification/Task_Pipeline.thy ===== *)
theory Task_Pipeline
  imports Task_Models Interfaces Effects
begin

text \<open>
  \<open>tasks/repository.py\<close>, \<open>tasks/executor.py\<close>, the dispatch loop of \<open>scheduler/main.py\<close> and
  the consume loop of \<open>opencode-worker/main.py\<close>. The database table, the Redis lists and the
  published messages are one explicit state; a queue holds the decoded messages, its left end
  first. Each call of the database or of Redis is one interaction; the environment says which
  interactions raise (before having any effect), what the clocks read, how the database driver
  hands out JSON columns, and which columns the deployed table has.
\<close>

section \<open>State and environment\<close>

record task_row =
  row_id :: string
  row_workflow :: "string option"
  row_status :: string
  row_type :: string
  row_payload :: "(string, pyval) dict"
  row_result :: "(string, pyval) dict option"
  row_provider :: "string option"
  row_attempts :: int
  row_max_attempts :: int
  row_error :: "string option"
  row_created :: time
  row_updated :: time

record queue_message =
  msg_id :: string
  msg_type :: string
  msg_payload :: "(string, pyval) dict"
  msg_provider :: string
  msg_max_attempts :: int

record pipeline =
  table :: "(string, task_row) dict"
  queues :: "(string, queue_message list) dict"
  bus_log :: "(string, pyval) dict list"
  executions :: "string list"
  pl_moment :: nat

text \<open>
  \<open>executions\<close> is a ghost: the identifiers of the tasks executed so far. \<open>jsonb_text\<close>: the
  driver hands out a JSON column as its text (its documented default) and not as a dictionary.
  \<open>workflow_refused w\<close>: what the database raises for a row that names the workflow \<open>w\<close>, if it does
  (no such row in \<open>workflows\<close>, or no UUID).
\<close>

record pipe_env =
  faulty :: "nat \<Rightarrow> bool"
  wall_clock :: "nat \<Rightarrow> time"
  jsonb_text :: bool
  table_columns :: "string list"
  workflow_refused :: "string \<Rightarrow> exn option"

text \<open>The columns of \<open>infra/postgres/init.sql\<close> (and of \<open>scripts/init_db.py\<close>).\<close>

definition declared_columns :: "string list" where
  "declared_columns =
     [''id'', ''workflow_id'', ''status'', ''task_type'', ''payload'', ''result'', ''provider'',
      ''attempts'', ''max_attempts'', ''created_at'', ''updated_at'']"

definition connection_error :: exn where
  "connection_error = PyExn ''ConnectionError'' ''connection lost''"

text \<open>One interaction: raise, or have the effect and return its value.\<close>

definition interact :: "pipe_env \<Rightarrow> (pipeline \<Rightarrow> (exn + 'a) \<times> pipeline) \<Rightarrow> (pipeline, 'a) op" where
  "interact env f p =
     (let p1 = p\<lparr>pl_moment := pl_moment p + 1\<rparr>
      in if faulty env (pl_moment p) then (Inl connection_error, p1) else f p1)"

section \<open>tasks/repository.py\<close>

definition task_of_status :: "string \<Rightarrow> exn + TaskStatus" where
  "task_of_status s =
     (case List.find (\<lambda>st. task_status_value st = s)
             [PENDING, SCHEDULED, RUNNING, COMPLETED, TASK_FAILED, RETRYING] of
        Some st \<Rightarrow> Inr st
      | None \<Rightarrow> Inl (PyExn ''ValueError'' (repr_str s @ '' is not a valid TaskStatus'')))"

text \<open>
  \<open>dict(v)\<close> of a JSON column: its text is never empty, and \<open>dict\<close> of a non-empty string
  raises. An empty payload dictionary is falsy and gives the empty dictionary.
\<close>

definition column_dict :: "pipe_env \<Rightarrow> (string, pyval) dict \<Rightarrow> exn + (string, pyval) dict" where
  "column_dict env d =
     (if jsonb_text env
      then Inl (PyExn ''ValueError''
             ''dictionary update sequence element #0 has length 1; 2 is required'')
      else Inr d)"

definition row_to_task :: "pipe_env \<Rightarrow> task_row \<Rightarrow> exn + Task" where
  "row_to_task env r =
     try_bind (task_of_status (row_status r)) (\<lambda>st.
     try_bind (column_dict env (row_payload r)) (\<lambda>pl.
     try_bind (case row_result r of None \<Rightarrow> Inr None
               | Some d \<Rightarrow> try_bind (column_dict env d) (\<lambda>d. Inr (Some d))) (\<lambda>res.
     Inr \<lparr>task_id = row_id r,
          workflow_id = (case row_workflow r of Some w \<Rightarrow> if w \<noteq> [] then Some w else None | None \<Rightarrow> None),
          task_status = st, task_type = row_type r, payload = pl, task_result = res,
          task_provider = (case row_provider r of Some q \<Rightarrow> if q \<noteq> [] then q else ''opencode''
                           | None \<Rightarrow> ''opencode''),
          attempts = row_attempts r, max_attempts = row_max_attempts r,
          task_error = (if ''error'' \<in> set (table_columns env) then row_error r else None),
          created_at = isoformat (row_created r), updated_at = isoformat (row_updated r)\<rparr>)))"

fun rows_to_tasks :: "pipe_env \<Rightarrow> task_row list \<Rightarrow> exn + Task list" where
  "rows_to_tasks env [] = Inr []"
| "rows_to_tasks env (r # rs) =
     try_bind (row_to_task env r) (\<lambda>t. try_bind (rows_to_tasks env rs) (\<lambda>ts. Inr (t # ts)))"

text \<open>The row the \<open>INSERT\<close> writes, with the columns' defaults.\<close>

definition inserted_row :: "time \<Rightarrow> Task \<Rightarrow> task_row" where
  "inserted_row now t =
     \<lparr>row_id = task_id t, row_workflow = workflow_id t,
      row_status = task_status_value (task_status t), row_type = task_type t,
      row_payload = payload t, row_result = None, row_provider = Some (task_provider t),
      row_attempts = 0, row_max_attempts = max_attempts t, row_error = None,
      row_created = now, row_updated = now\<rparr>"

definition repo_create :: "pipe_env \<Rightarrow> Task \<Rightarrow> (pipeline, Task) op" where
  "repo_create env t = interact env (\<lambda>p.
     let now = wall_clock env (pl_moment p) in
     if dict_has (table p) (task_id t)
     then (Inl (PyExn ''UniqueViolationError'' ''duplicate key value violates unique constraint''), p)
     else case Option.bind (workflow_id t) (workflow_refused env) of Some e \<Rightarrow> (Inl e, p) | None \<Rightarrow>
          (Inr (t\<lparr>created_at := isoformat now, updated_at := isoformat now\<rparr>),
           p\<lparr>table := dict_set (task_id t) (inserted_row now t) (table p)\<rparr>))"

definition repo_get :: "pipe_env \<Rightarrow> string \<Rightarrow> (pipeline, Task option) op" where
  "repo_get env i = interact env (\<lambda>p.
     case dict_get (table p) i of
       None \<Rightarrow> (Inr None, p)
     | Some r \<Rightarrow> (try_bind (row_to_task env r) (\<lambda>t. Inr (Some t)), p))"

text \<open>
  \<open>update_status\<close>: a column named in the statement that the table does not have makes the
  database refuse it; a missing row makes it a statement without effect.
\<close>

definition update_status ::
  "pipe_env \<Rightarrow> string \<Rightarrow> TaskStatus \<Rightarrow> (string, pyval) dict option \<Rightarrow> string option \<Rightarrow> int option \<Rightarrow>
     (pipeline, unit) op" where
  "update_status env i st res err att = interact env (\<lambda>p.
     if err \<noteq> None \<and> ''error'' \<notin> set (table_columns env)
     then (Inl (PyExn ''UndefinedColumnError''
             (''column '' @ [dquote] @ ''error'' @ [dquote] @ '' of relation '' @ [dquote] @ ''tasks'' @
              [dquote] @ '' does not exist'')), p)
     else
       (Inr (),
        case dict_get (table p) i of None \<Rightarrow> p
        | Some r \<Rightarrow>
            p\<lparr>table := dict_set i
               (r\<lparr>row_status := task_status_value st,
                  row_result := (case res of None \<Rightarrow> row_result r | Some d \<Rightarrow> Some d),
                  row_error := (case err of None \<Rightarrow> row_error r | Some e \<Rightarrow> Some e),
                  row_attempts := (case att of None \<Rightarrow> row_attempts r | Some a \<Rightarrow> a),
                  row_updated := wall_clock env (pl_moment p)\<rparr>) (table p)\<rparr>))"

definition pending_rows :: "nat \<Rightarrow> pipeline \<Rightarrow> task_row list" where
  "pending_rows limit p =
     take limit (sort_key row_created
       (filter (\<lambda>r. row_status r = ''PENDING'') (dict_values (table p))))"

definition get_pending :: "pipe_env \<Rightarrow> nat \<Rightarrow> (pipeline, Task list) op" where
  "get_pending env limit = interact env (\<lambda>p. (rows_to_tasks env (pending_rows limit p), p))"

section \<open>Redis\<close>

definition queue :: "pipeline \<Rightarrow> string \<Rightarrow> queue_message list" where
  "queue p k = dict_get_default (queues p) k []"

definition redis_lpush :: "pipe_env \<Rightarrow> string \<Rightarrow> queue_message \<Rightarrow> (pipeline, unit) op" where
  "redis_lpush env k m = interact env (\<lambda>p.
     (Inr (), p\<lparr>queues := dict_set k (m # queue p k) (queues p)\<rparr>))"

text \<open>\<open>blpop\<close> with a timeout: the leftmost entry, or nothing.\<close>

definition redis_blpop :: "pipe_env \<Rightarrow> string \<Rightarrow> (pipeline, queue_message option) op" where
  "redis_blpop env k = interact env (\<lambda>p.
     case queue p k of [] \<Rightarrow> (Inr None, p)
     | m # ms \<Rightarrow> (Inr (Some m), p\<lparr>queues := dict_set k ms (queues p)\<rparr>))"

definition redis_publish :: "pipe_env \<Rightarrow> (string, pyval) dict \<Rightarrow> (pipeline, unit) op" where
  "redis_publish env msg = interact env (\<lambda>p. (Inr (), p\<lparr>bus_log := bus_log p @ [msg]\<rparr>))"

section \<open>scheduler/main.py\<close>

definition queue_key :: "string \<Rightarrow> string" where
  "queue_key q = ''tasks:'' @ q"

definition message_of :: "Task \<Rightarrow> string \<Rightarrow> queue_message" where
  "message_of t q =
     \<lparr>msg_id = task_id t, msg_type = task_type t, msg_payload = payload t, msg_provider = q,
      msg_max_attempts = max_attempts t\<rparr>"

definition dispatch :: "pipe_env \<Rightarrow> Task \<Rightarrow> (pipeline, unit) op" where
  "dispatch env t =
     (let q = (if task_provider t \<noteq> [] then task_provider t else ''opencode'') in
      op_bind (update_status env (task_id t) SCHEDULED None None (Some 1)) (\<lambda>_.
      op_bind (redis_lpush env (queue_key q) (message_of t q)) (\<lambda>_ p.
      redis_publish env [(''event'', PStr ''task_scheduled''), (''task_id'', PStr (task_id t)),
                         (''provider'', PStr q),
                         (''timestamp'', PStr (isoformat (wall_clock env (pl_moment p))))] p)))"

text \<open>One round of \<open>poll_pg\<close>: whatever is raised is logged and the round ends.\<close>

definition poll_round :: "pipe_env \<Rightarrow> pipeline \<Rightarrow> pipeline" where
  "poll_round env p = snd (op_bind (get_pending env 10) (op_each (dispatch env)) p)"

section \<open>tasks/executor.py\<close>

definition payload_get :: "(string, pyval) dict \<Rightarrow> string \<Rightarrow> pyval \<Rightarrow> pyval" where
  "payload_get d k v = dict_get_default d k v"

fun is_number :: "pyval \<Rightarrow> bool" where
  "is_number (PBool b) \<longleftrightarrow> True"
| "is_number (PInt i) \<longleftrightarrow> True"
| "is_number (PFloat q) \<longleftrightarrow> True"
| "is_number _ \<longleftrightarrow> False"

definition execute_task ::
  "queue_message \<Rightarrow> exn + (string, pyval) dict option \<times> string option" where
  "execute_task m =
     (if msg_type m = ''echo'' then
        let message = payload_get (msg_payload m) ''message'' (PStr [])
        in Inr (Some [(''echo'', message), (''output'', PStr (''processed: '' @ py_str message))], None)
      else if msg_type m = ''sleep'' then
        let duration = payload_get (msg_payload m) ''duration'' (PInt 1)
        in if is_number duration then Inr (Some [(''slept'', duration)], None)
           else Inl (PyExn ''TypeError'' ''duration is not a number'')
      else if msg_type m = ''fail'' then
        Inr (None, Some (''simulated failure for task type '' @ repr_str ''fail''))
      else Inr (Some [(''processed'', PBool True), (''task_type'', PStr (msg_type m)),
                      (''input'', PDict (msg_payload m))], None))"

section \<open>opencode-worker/main.py\<close>

definition task_queue :: string where
  "task_queue = ''tasks:opencode''"

text \<open>\<open>publish_event\<close> logs and drops what is raised.\<close>

definition publish_event ::
  "pipe_env \<Rightarrow> string \<Rightarrow> string \<Rightarrow> (string, pyval) dict \<Rightarrow> (pipeline, unit) op" where
  "publish_event env event i extra p =
     (Inr (), snd (redis_publish env
        ([(''event'', PStr event), (''task_id'', PStr i),
          (''timestamp'', PStr (isoformat (wall_clock env (pl_moment p))))] @ extra) p))"

definition execute_op :: "queue_message \<Rightarrow> (pipeline, (string, pyval) dict option \<times> string option) op" where
  "execute_op m p = (execute_task m, p\<lparr>executions := executions p @ [msg_id m]\<rparr>)"

definition on_task_error :: "pipe_env \<Rightarrow> queue_message \<Rightarrow> string \<Rightarrow> (pipeline, unit) op" where
  "on_task_error env m err =
     op_bind (repo_get env (msg_id m)) (\<lambda>db.
       let att = (case db of Some t \<Rightarrow> attempts t | None \<Rightarrow> 0) + 1;
           again = (case db of Some t \<Rightarrow> att < max_attempts t | None \<Rightarrow> False)
       in if again then
            op_bind (update_status env (msg_id m) RETRYING None (Some err) (Some att)) (\<lambda>_.
            redis_lpush env task_queue m)
          else
            op_bind (update_status env (msg_id m) TASK_FAILED None (Some err) (Some att)) (\<lambda>_.
            publish_event env ''task_failed'' (msg_id m) [(''error'', PStr err)]))"

definition on_task_done :: "pipe_env \<Rightarrow> queue_message \<Rightarrow> (string, pyval) dict option \<Rightarrow> (pipeline, unit) op" where
  "on_task_done env m res =
     op_bind (update_status env (msg_id m) COMPLETED res None (Some 0)) (\<lambda>_.
     publish_event env ''task_completed'' (msg_id m)
       [(''result'', (case res of None \<Rightarrow> PNone | Some d \<Rightarrow> PDict d))])"

definition consume_message :: "pipe_env \<Rightarrow> queue_message \<Rightarrow> (pipeline, unit) op" where
  "consume_message env m =
     op_bind (update_status env (msg_id m) RUNNING None None None) (\<lambda>_.
     op_bind (execute_op m) (\<lambda>(res, err).
       case err of
         None \<Rightarrow> on_task_done env m res
       | Some e \<Rightarrow> if e \<noteq> [] then on_task_error env m e else on_task_done env m res))"

text \<open>One round of \<open>consume\<close>.\<close>

definition consume_round :: "pipe_env \<Rightarrow> pipeline \<Rightarrow> pipeline" where
  "consume_round env p =
     snd (op_bind (redis_blpop env task_queue) (\<lambda>m.
            case m of None \<Rightarrow> op_return () | Some m \<Rightarrow> consume_message env m) p)"

section \<open>What each interaction does\<close>

lemma interact_faulty:
  "faulty env (pl_moment p) \<Longrightarrow> interact env f p = (Inl connection_error, p\<lparr>pl_moment := pl_moment p + 1\<rparr>)"
  by (simp add: interact_def)

lemma interact_ok: "\<not> faulty env (pl_moment p) \<Longrightarrow> interact env f p = f (p\<lparr>pl_moment := pl_moment p + 1\<rparr>)"
  by (simp add: interact_def)

lemma queue_moment [simp]:
  "queue (p\<lparr>pl_moment := n\<rparr>) k = queue p k" "queue (p\<lparr>table := tb\<rparr>) k = queue p k"
  "queue (p\<lparr>bus_log := l\<rparr>) k = queue p k" "queue (p\<lparr>executions := l2\<rparr>) k = queue p k"
  by (simp_all add: queue_def)

lemma queue_set [simp]: "queue (p\<lparr>queues := dict_set k v (queues p)\<rparr>) k' = (if k' = k then v else queue p k')"
  by (simp add: queue_def)

text \<open>Same table, queues and executions.\<close>

definition same_core :: "pipeline \<Rightarrow> pipeline \<Rightarrow> bool" where
  "same_core p q \<longleftrightarrow> table q = table p \<and> queues q = queues p \<and> executions q = executions p"

lemma same_core_refl [simp]: "same_core p p"
  by (simp add: same_core_def)

lemma same_core_moment [simp]: "same_core p (p\<lparr>pl_moment := n\<rparr>)"
  by (simp add: same_core_def)

text \<open>
  \<open>row_set i st p q\<close>: at most row \<open>i\<close> changed from \<open>p\<close> to \<open>q\<close>, and if it exists its status is
  now \<open>st\<close>.
\<close>

definition row_set :: "string \<Rightarrow> TaskStatus \<Rightarrow> pipeline \<Rightarrow> pipeline \<Rightarrow> bool" where
  "row_set i st p q \<longleftrightarrow>
     queues q = queues p \<and> executions q = executions p \<and>
     dict_keys (table q) = dict_keys (table p) \<and>
     (\<forall>j. j \<noteq> i \<longrightarrow> dict_get (table q) j = dict_get (table p) j) \<and>
     (\<forall>r. dict_get (table p) i = Some r \<longrightarrow>
        (\<exists>r'. dict_get (table q) i = Some r' \<and> row_status r' = task_status_value st \<and>
              row_id r' = row_id r))"

lemma update_status_cases:
  obtains (raised) e where "fst (update_status env i st res err att p) = Inl e"
      "same_core p (snd (update_status env i st res err att p))"
  | (updated) "fst (update_status env i st res err att p) = Inr ()"
      "row_set i st p (snd (update_status env i st res err att p))"
proof (cases "fst (update_status env i st res err att p)")
  case (Inl e)
  moreover from Inl have "same_core p (snd (update_status env i st res err att p))"
    by (auto simp: update_status_def interact_def same_core_def Let_def split: if_splits option.splits)
  ultimately show ?thesis by (rule raised)
next
  case (Inr u)
  then have "row_set i st p (snd (update_status env i st res err att p))"
    by (auto simp: update_status_def interact_def row_set_def Let_def dict_keys_set_present dict_has_get
        split: if_splits option.splits)
  with Inr show ?thesis by (intro updated) auto
qed

lemma redis_publish_core [simp]: "same_core p (snd (redis_publish env msg p))"
  by (simp add: redis_publish_def interact_def same_core_def Let_def)

lemma publish_event_core [simp]: "same_core p (snd (publish_event env ev i extra p))"
  using redis_publish_core by (simp add: publish_event_def)

lemma repo_get_core [simp]: "same_core p (snd (repo_get env i p))"
  by (auto simp: repo_get_def interact_def same_core_def Let_def split: option.split)

lemma redis_lpush_state:
  "table (snd (redis_lpush env k m p)) = table p \<and> executions (snd (redis_lpush env k m p)) = executions p \<and>
   (queues (snd (redis_lpush env k m p)) = queues p \<or>
    queues (snd (redis_lpush env k m p)) = dict_set k (m # queue p k) (queues p))"
  by (simp add: redis_lpush_def interact_def Let_def)

section \<open>Rounds keep the pipeline consistent\<close>

definition queued :: "pipeline \<Rightarrow> string \<Rightarrow> bool" where
  "queued p i \<longleftrightarrow> (\<exists>k. i \<in> msg_id ` set (queue p k))"

definition row_has_status :: "pipeline \<Rightarrow> string \<Rightarrow> TaskStatus set \<Rightarrow> bool" where
  "row_has_status p i sts \<longleftrightarrow>
     (\<exists>r st. dict_get (table p) i = Some r \<and> st \<in> sts \<and> row_status r = task_status_value st)"

text \<open>
  No task is queued twice, and a queued task is a row that is scheduled or to be retried.
\<close>

definition pipeline_wf :: "pipeline \<Rightarrow> bool" where
  "pipeline_wf p \<longleftrightarrow>
     dict_ok (table p) \<and> (\<forall>i r. dict_get (table p) i = Some r \<longrightarrow> row_id r = i) \<and>
     (\<forall>k. distinct (map msg_id (queue p k))) \<and>
     (\<forall>k k'. k \<noteq> k' \<longrightarrow> msg_id ` set (queue p k) \<inter> msg_id ` set (queue p k') = {}) \<and>
     (\<forall>i. queued p i \<longrightarrow> row_has_status p i {SCHEDULED, RETRYING})"

lemma same_core_wf: "same_core p q \<Longrightarrow> pipeline_wf q = pipeline_wf p"
  by (simp add: same_core_def pipeline_wf_def queued_def row_has_status_def queue_def)

lemma same_core_queued: "same_core p q \<Longrightarrow> queued q i = queued p i"
  by (simp add: same_core_def queued_def queue_def)

lemma row_set_queued: "row_set j st p q \<Longrightarrow> queued q i = queued p i"
  by (simp add: row_set_def queued_def queue_def)

lemma row_set_wf:
  assumes "row_set i st p q" "pipeline_wf p" "\<not> queued p i"
  shows "pipeline_wf q"
proof -
  have q: "queue q k = queue p k" for k using assms(1) by (simp add: row_set_def queue_def)
  have rows: "row_id r = j" if "dict_get (table q) j = Some r" for j r
  proof (cases "j = i")
    case True
    from that have "dict_has (table q) j" by (auto simp: dict_has_get)
    with assms(1) have "dict_has (table p) j" by (simp add: row_set_def dict_has_def)
    then obtain r0 where "dict_get (table p) j = Some r0" by (auto simp: dict_has_get)
    with assms that True show ?thesis by (auto simp: row_set_def pipeline_wf_def)
  next
    case False
    with assms that show ?thesis by (auto simp: row_set_def pipeline_wf_def)
  qed
  have st: "row_has_status q j {SCHEDULED, RETRYING}" if j: "queued q j" for j
  proof -
    from j row_set_queued [OF assms(1)] have qp: "queued p j" by simp
    with assms(3) have "j \<noteq> i" by auto
    with qp assms(1,2) show ?thesis by (auto simp: row_set_def pipeline_wf_def row_has_status_def)
  qed
  from assms have "dict_ok (table q)" by (simp add: row_set_def pipeline_wf_def dict_ok_def)
  with rows st assms(2) show ?thesis by (auto simp: pipeline_wf_def q)
qed

lemma lpush_wf:
  assumes "pipeline_wf p" "\<not> queued p (msg_id m)" "row_has_status p (msg_id m) {SCHEDULED, RETRYING}"
  shows "pipeline_wf (snd (redis_lpush env k m p))"
proof -
  let ?q = "snd (redis_lpush env k m p)"
  note state = redis_lpush_state [of env k m p]
  from state consider "queues ?q = queues p" | "queues ?q = dict_set k (m # queue p k) (queues p)" by auto
  then show ?thesis
  proof cases
    case 1
    with state have "same_core p ?q" by (simp add: same_core_def)
    with same_core_wf assms(1) show ?thesis by blast
  next
    case 2
    then have q: "queue ?q k' = (if k' = k then m # queue p k else queue p k')" for k'
      by (simp add: queue_def)
    have new: "msg_id m \<notin> msg_id ` set (queue p k')" for k' using assms(2) by (auto simp: queued_def)
    have "row_has_status ?q j {SCHEDULED, RETRYING}" if "queued ?q j" for j
    proof -
      have "j = msg_id m \<or> queued p j"
        using that unfolding queued_def q by (auto split: if_splits)
      with assms(1,3) state show ?thesis by (auto simp: pipeline_wf_def row_has_status_def)
    qed
    moreover have "distinct (map msg_id (queue ?q k'))" for k'
      using assms(1) new [of k] unfolding q pipeline_wf_def by simp
    moreover have "msg_id ` set (queue ?q k1) \<inter> msg_id ` set (queue ?q k2) = {}" if "k1 \<noteq> k2" for k1 k2
    proof -
      have "msg_id ` set (queue p k1) \<inter> msg_id ` set (queue p k2) = {}"
        using assms(1) that unfolding pipeline_wf_def by blast
      with new [of k1] new [of k2] that show ?thesis unfolding q by auto
    qed
    moreover have "table ?q = table p" using state by simp
    ultimately show ?thesis using assms(1) unfolding pipeline_wf_def by metis
  qed
qed

text \<open>Everything about task \<open>i\<close> is as before.\<close>

definition same_at :: "string \<Rightarrow> pipeline \<Rightarrow> pipeline \<Rightarrow> bool" where
  "same_at i p q \<longleftrightarrow>
     dict_get (table q) i = dict_get (table p) i \<and> queued q i = queued p i \<and>
     count_list (executions q) i = count_list (executions p) i"

lemma same_at_trans: "same_at i p q \<Longrightarrow> same_at i q r \<Longrightarrow> same_at i p r"
  by (simp add: same_at_def)

lemma same_core_at: "same_core p q \<Longrightarrow> same_at i p q"
  by (simp add: same_at_def same_core_queued) (simp add: same_core_def)

lemma row_set_at: "row_set j st p q \<Longrightarrow> i \<noteq> j \<Longrightarrow> same_at i p q"
  by (simp add: same_at_def row_set_queued) (simp add: row_set_def)

lemma update_status_at: "i \<noteq> j \<Longrightarrow> same_at i p (snd (update_status env j st res err att p))"
  by (rule update_status_cases [of env j st res err att p]) (auto dest: same_core_at row_set_at)

lemma lpush_queued:
  "queued (snd (redis_lpush env k m p)) i \<Longrightarrow> queued p i \<or> i = msg_id m"
  "queued p i \<Longrightarrow> queued (snd (redis_lpush env k m p)) i"
proof -
  have q: "queue (snd (redis_lpush env k m p)) k' = queue p k' \<or>
      queue (snd (redis_lpush env k m p)) k' = m # queue p k'" for k'
    using redis_lpush_state [of env k m p] by (auto simp: queue_def)
  show "queued (snd (redis_lpush env k m p)) i \<Longrightarrow> queued p i \<or> i = msg_id m"
    unfolding queued_def by (metis (no_types, lifting) q image_iff set_ConsD)
  show "queued p i \<Longrightarrow> queued (snd (redis_lpush env k m p)) i"
    unfolding queued_def by (metis (no_types, lifting) q image_iff list.set_intros(2))
qed

lemma lpush_at: "i \<noteq> msg_id m \<Longrightarrow> same_at i p (snd (redis_lpush env k m p))"
  using lpush_queued(1) [of env k m p i] lpush_queued(2) [of p i env k m] redis_lpush_state [of env k m p] by (auto simp: same_at_def)

interpretation at: frame_relation "same_at i" for i
  by unfold_locales (auto simp: same_at_def)

lemma message_of_id [simp]: "msg_id (message_of t q) = task_id t"
  by (simp add: message_of_def)

lemma dispatch_at: "i \<noteq> task_id t \<Longrightarrow> same_at i p (snd (dispatch env t p))"
  unfolding dispatch_def Let_def
  by (intro at.frame_bind update_status_at lpush_at) (auto intro: same_core_at)

lemma op_each_at:
  "i \<notin> task_id ` set ts \<Longrightarrow> same_at i p (snd (op_each (dispatch env) ts p))"
  by (rule at.frame_each) (auto intro: dispatch_at)

lemma on_task_done_at: "i \<noteq> msg_id m \<Longrightarrow> same_at i p (snd (on_task_done env m res p))"
  unfolding on_task_done_def
  by (intro at.frame_bind update_status_at) (auto intro: same_core_at)

lemma on_task_error_at: "i \<noteq> msg_id m \<Longrightarrow> same_at i p (snd (on_task_error env m err p))"
  unfolding on_task_error_def Let_def
  by (rule at.frame_bind, rule same_core_at, simp)
    (auto intro!: at.frame_bind update_status_at lpush_at intro: same_core_at)

lemma consume_message_at: "i \<noteq> msg_id m \<Longrightarrow> same_at i p (snd (consume_message env m p))"
proof -
  assume i: "i \<noteq> msg_id m"
  have ex: "same_at i q (snd (execute_op m q))" for q
    using i by (simp add: execute_op_def same_at_def queued_def)
  show ?thesis
    unfolding consume_message_def
    by (rule at.frame_bind, rule update_status_at [OF i], rule at.frame_bind, rule ex)
      (use i in \<open>auto intro: on_task_done_at on_task_error_at split: option.split\<close>)
qed

text \<open>What the scheduler's query returns.\<close>

lemma rows_to_tasks_ids: "rows_to_tasks env rs = Inr ts \<Longrightarrow> map task_id ts = map row_id rs"
  by (induction rs arbitrary: ts) (auto simp: row_to_task_def split: sum.splits)

lemma set_pending_rows: "r \<in> set (pending_rows n p) \<Longrightarrow> r \<in> set (dict_values (table p)) \<and> row_status r = ''PENDING''"
  using in_set_takeD [of r n] by (fastforce simp: pending_rows_def)

lemma dict_values_ids:
  assumes "dict_ok d" "\<forall>i r. dict_get d i = Some r \<longrightarrow> f r = i"
  shows "map f (dict_values d) = dict_keys d"
  using assms by (auto simp: dict_get_in [symmetric])

lemma pending_ids_distinct:
  assumes "pipeline_wf p"
  shows "distinct (map row_id (pending_rows n p))"
proof -
  have "map row_id (dict_values (table p)) = dict_keys (table p)"
    using assms by (intro dict_values_ids) (auto simp: pipeline_wf_def)
  moreover have "distinct (dict_keys (table p))" using assms by (simp add: pipeline_wf_def dict_ok_def)
  ultimately have "distinct (map row_id (dict_values (table p)))" by metis
  then have "distinct (map row_id (filter (\<lambda>r. row_status r = ''PENDING'') (dict_values (table p))))"
    by (rule distinct_map_filter)
  then have "distinct (map row_id (sort_key row_created
      (filter (\<lambda>r. row_status r = ''PENDING'') (dict_values (table p)))))"
    unfolding distinct_map by simp
  then show ?thesis unfolding pending_rows_def take_map [symmetric] by (rule distinct_take)
qed

lemma pending_row_get:
  assumes "pipeline_wf p" "r \<in> set (pending_rows n p)"
  shows "dict_get (table p) (row_id r) = Some r \<and> row_status r = ''PENDING''"
proof -
  from set_pending_rows [OF assms(2)] obtain i where "(i, r) \<in> set (table p)" by auto
  then have "dict_get (table p) i = Some r" using assms(1) by (simp add: pipeline_wf_def dict_get_in)
  with assms(1) set_pending_rows [OF assms(2)] show ?thesis by (auto simp: pipeline_wf_def)
qed

lemma pending_not_queued:
  "pipeline_wf p \<Longrightarrow> dict_get (table p) i = Some r \<Longrightarrow> row_status r = ''PENDING'' \<Longrightarrow> \<not> queued p i"
  by (auto simp: pipeline_wf_def row_has_status_def)

lemma dispatch_wf:
  assumes "pipeline_wf p" "\<not> queued p (task_id t)" "dict_get (table p) (task_id t) = Some r"
  shows "pipeline_wf (snd (dispatch env t p))"
proof -
  let ?u = "update_status env (task_id t) SCHEDULED None None (Some 1) p"
  show ?thesis
  proof (cases rule: update_status_cases [of env "task_id t" SCHEDULED None None "Some 1" p])
    case (raised e)
    then have "snd (dispatch env t p) = snd ?u"
      by (cases ?u) (simp add: dispatch_def op_bind_def Let_def)
    with raised(2) assms(1) same_core_wf show ?thesis by auto
  next
    case updated
    let ?q = "if task_provider t \<noteq> [] then task_provider t else ''opencode''"
    let ?l = "redis_lpush env (queue_key ?q) (message_of t ?q) (snd ?u)"
    have "pipeline_wf (snd ?u)" by (rule row_set_wf [OF updated(2) assms(1,2)])
    moreover have "\<not> queued (snd ?u) (task_id t)" using row_set_queued [OF updated(2)] assms(2) by simp
    moreover have "row_has_status (snd ?u) (task_id t) {SCHEDULED, RETRYING}"
      using updated(2) assms(3) unfolding row_set_def row_has_status_def by blast
    ultimately have wf: "pipeline_wf (snd ?l)" by (intro lpush_wf) simp_all
    have "same_core (snd ?l) (snd (dispatch env t p))"
      using updated(1) by (cases ?u; cases ?l) (auto simp: dispatch_def op_bind_def Let_def split: sum.split)
    with wf same_core_wf show ?thesis by blast
  qed
qed

lemma dispatch_all_wf:
  "pipeline_wf p \<Longrightarrow> distinct (map task_id ts) \<Longrightarrow>
     \<forall>t \<in> set ts. \<not> queued p (task_id t) \<and> (\<exists>r. dict_get (table p) (task_id t) = Some r) \<Longrightarrow>
     pipeline_wf (snd (op_each (dispatch env) ts p))"
proof (induction ts arbitrary: p)
  case (Cons t ts)
  obtain x q where d: "dispatch env t p = (x, q)" by (metis surj_pair)
  have wf: "pipeline_wf q" using dispatch_wf [OF Cons.prems(1), of t _ env] Cons.prems(3) d by auto
  show ?case
  proof (cases x)
    case (Inl e)
    with d wf show ?thesis by (simp add: op_bind_def)
  next
    case (Inr u)
    have "\<not> queued q (task_id s) \<and> (\<exists>r. dict_get (table q) (task_id s) = Some r)" if "s \<in> set ts" for s
    proof -
      from that Cons.prems(2) have "task_id s \<noteq> task_id t" by (metis distinct.simps(2) imageI list.set_map list.simps(9))
      with dispatch_at [of "task_id s" t p env] d have "same_at (task_id s) p q" by simp
      with that Cons.prems(3) show ?thesis by (simp add: same_at_def)
    qed
    with Cons.IH [OF wf] Cons.prems(2) have "pipeline_wf (snd (op_each (dispatch env) ts q))" by simp
    with d Inr show ?thesis by (simp add: op_bind_def)
  qed
qed (simp add:)

lemma get_pending_result:
  "get_pending env n p = (x, q) \<Longrightarrow>
     q = p\<lparr>pl_moment := pl_moment p + 1\<rparr> \<and> (\<forall>ts. x = Inr ts \<longrightarrow> rows_to_tasks env (pending_rows n p) = Inr ts)"
  by (auto simp: get_pending_def interact_def pending_rows_def Let_def split: if_splits)

lemma poll_round_cases:
  obtains (nothing) "same_core p (poll_round env p)"
  | (polled) ts where "rows_to_tasks env (pending_rows 10 p) = Inr ts"
      "poll_round env p = snd (op_each (dispatch env) ts (p\<lparr>pl_moment := pl_moment p + 1\<rparr>))"
proof (cases "fst (get_pending env 10 p)")
  case (Inl e)
  with get_pending_result [of env 10 p "fst (get_pending env 10 p)" "snd (get_pending env 10 p)"]
  have "poll_round env p = p\<lparr>pl_moment := pl_moment p + 1\<rparr>"
    by (cases "get_pending env 10 p") (simp add: poll_round_def op_bind_def)
  then have "same_core p (poll_round env p)" by simp
  then show ?thesis by (rule nothing)
next
  case (Inr ts)
  with get_pending_result [of env 10 p "fst (get_pending env 10 p)" "snd (get_pending env 10 p)"]
  show ?thesis
    by (intro polled [of ts]; cases "get_pending env 10 p") (simp_all add: poll_round_def op_bind_def)
qed

lemma poll_round_wf: "pipeline_wf p \<Longrightarrow> pipeline_wf (poll_round env p)"
proof (cases rule: poll_round_cases [where env = env and p = p])
  case nothing
  then show "pipeline_wf p \<Longrightarrow> ?thesis" using same_core_wf by blast
next
  case (polled ts)
  assume wf: "pipeline_wf p"
  let ?p = "p\<lparr>pl_moment := pl_moment p + 1\<rparr>"
  have ids: "map task_id ts = map row_id (pending_rows 10 p)" by (rule rows_to_tasks_ids [OF polled(1)])
  have "\<not> queued ?p (task_id t) \<and> (\<exists>r. dict_get (table ?p) (task_id t) = Some r)" if "t \<in> set ts" for t
  proof -
    from that ids obtain r where r: "r \<in> set (pending_rows 10 p)" "task_id t = row_id r"
      by (metis (no_types, lifting) image_iff list.set_map)
    with pending_row_get [OF wf r(1)] pending_not_queued [OF wf] show ?thesis
      by (simp add: queued_def)
  qed
  moreover have "pipeline_wf ?p" using wf same_core_wf [OF same_core_moment [of p]] by blast
  ultimately have "pipeline_wf (snd (op_each (dispatch env) ts ?p))"
    using ids pending_ids_distinct [OF wf] by (intro dispatch_all_wf) auto
  with polled(2) show ?thesis by simp
qed

text \<open>The worker's round: the task it popped is in no queue until it pushes it back.\<close>

definition unqueued :: "string \<Rightarrow> pipeline \<Rightarrow> bool" where
  "unqueued i p \<longleftrightarrow> pipeline_wf p \<and> \<not> queued p i"

lemma same_core_unqueued: "same_core p q \<Longrightarrow> unqueued i p \<Longrightarrow> unqueued i q"
  using same_core_wf same_core_queued by (simp add: unqueued_def)

lemma update_status_unqueued: "unqueued i p \<Longrightarrow> unqueued i (snd (update_status env i st res err att p))"
proof (cases rule: update_status_cases [of env i st res err att p])
  case updated
  assume u: "unqueued i p"
  from row_set_wf [OF updated(2)] row_set_queued [OF updated(2)] u show ?thesis
    by (simp add: unqueued_def)
qed (use same_core_unqueued in blast)

lemma op_bind_unqueued:
  assumes "unqueued i (snd (m p))" "\<And>x q. m p = (Inr x, q) \<Longrightarrow> unqueued i q \<Longrightarrow> pipeline_wf (snd (f x q))"
  shows "pipeline_wf (snd (op_bind m f p))"
  using assms by (cases "m p"; cases "fst (m p)") (auto simp: op_bind_def unqueued_def)

lemma unqueued_wf: "unqueued i p \<Longrightarrow> pipeline_wf p"
  by (simp add: unqueued_def)

lemma publish_event_wf: "unqueued i p \<Longrightarrow> pipeline_wf (snd (publish_event env ev j extra p))"
  using same_core_wf [OF publish_event_core] by (simp add: unqueued_def)

lemma on_task_done_wf: "unqueued (msg_id m) p \<Longrightarrow> pipeline_wf (snd (on_task_done env m res p))"
  unfolding on_task_done_def
  by (rule op_bind_unqueued, erule update_status_unqueued, rule publish_event_wf)

lemma retry_wf:
  assumes "unqueued (msg_id m) p" "dict_get (table p) (msg_id m) = Some r"
  shows "pipeline_wf (snd (op_bind (update_status env (msg_id m) RETRYING None err att)
           (\<lambda>_. redis_lpush env task_queue m) p))"
proof (cases rule: update_status_cases [of env "msg_id m" RETRYING None err att p])
  case (raised e)
  then show ?thesis
    using same_core_wf [OF raised(2)] assms(1)
    by (cases "update_status env (msg_id m) RETRYING None err att p") (simp add: op_bind_def unqueued_def)
next
  case updated
  let ?q = "snd (update_status env (msg_id m) RETRYING None err att p)"
  have "row_has_status ?q (msg_id m) {SCHEDULED, RETRYING}"
    using updated(2) assms(2) unfolding row_set_def row_has_status_def by blast
  with update_status_unqueued [OF assms(1), of env RETRYING None err att]
  have "pipeline_wf (snd (redis_lpush env task_queue m ?q))"
    by (intro lpush_wf) (auto simp: unqueued_def)
  with updated(1) show ?thesis
    by (cases "update_status env (msg_id m) RETRYING None err att p") (simp add: op_bind_def)
qed

lemma repo_get_row:
  "repo_get env i p = (Inr (Some t), q) \<Longrightarrow> \<exists>r. dict_get (table q) i = Some r"
  by (auto simp: repo_get_def interact_def Let_def split: if_splits option.splits sum.splits)

lemma on_task_error_wf:
  assumes "unqueued (msg_id m) p"
  shows "pipeline_wf (snd (on_task_error env m err p))"
  unfolding on_task_error_def Let_def
proof (rule op_bind_unqueued)
  show "unqueued (msg_id m) (snd (repo_get env (msg_id m) p))"
    by (rule same_core_unqueued [OF repo_get_core assms])
next
  fix db q
  assume get: "repo_get env (msg_id m) p = (Inr db, q)" and q: "unqueued (msg_id m) q"
  let ?fail = "\<lambda>att. op_bind (update_status env (msg_id m) TASK_FAILED None (Some err) (Some att))
      (\<lambda>_. publish_event env ''task_failed'' (msg_id m) [(''error'', PStr err)])"
  have fail: "pipeline_wf (snd (?fail att q))" for att
    by (rule op_bind_unqueued, rule update_status_unqueued [OF q], rule publish_event_wf)
  show "pipeline_wf (snd ((if case db of None \<Rightarrow> False
       | Some t \<Rightarrow> (case db of None \<Rightarrow> 0 | Some t \<Rightarrow> attempts t) + 1 < max_attempts t
     then op_bind (update_status env (msg_id m) RETRYING None (Some err)
            (Some ((case db of None \<Rightarrow> 0 | Some t \<Rightarrow> attempts t) + 1)))
            (\<lambda>_. redis_lpush env task_queue m)
     else ?fail ((case db of None \<Rightarrow> 0 | Some t \<Rightarrow> attempts t) + 1)) q))"
  proof (cases db)
    case (Some t)
    with get repo_get_row obtain r where "dict_get (table q) (msg_id m) = Some r" by blast
    from retry_wf [OF q this] fail show ?thesis by simp
  qed (use fail in simp)
qed

lemma execute_op_unqueued: "unqueued i p \<Longrightarrow> unqueued i (snd (execute_op m p))"
  by (simp add: unqueued_def execute_op_def pipeline_wf_def queued_def row_has_status_def)

lemma consume_message_wf: "unqueued (msg_id m) p \<Longrightarrow> pipeline_wf (snd (consume_message env m p))"
  unfolding consume_message_def
  by (rule op_bind_unqueued, erule update_status_unqueued,
      rule op_bind_unqueued, erule execute_op_unqueued)
    (auto intro: on_task_done_wf on_task_error_wf split: option.split)

text \<open>A popped task is in no queue any more.\<close>

lemma pop_unqueued:
  assumes "pipeline_wf p" "queue p k = m # ms"
  shows "unqueued (msg_id m) (p\<lparr>pl_moment := n, queues := dict_set k ms (queues p)\<rparr>)"
proof -
  let ?q = "p\<lparr>pl_moment := n, queues := dict_set k ms (queues p)\<rparr>"
  have q: "queue ?q k' = (if k' = k then ms else queue p k')" for k' by (simp add: queue_def)
  have dist: "distinct (map msg_id (m # ms))" using assms unfolding pipeline_wf_def by metis
  have other: "msg_id m \<notin> msg_id ` set (queue p k')" if "k' \<noteq> k" for k'
  proof -
    have "msg_id ` set (queue p k') \<inter> msg_id ` set (queue p k) = {}"
      using assms(1) that unfolding pipeline_wf_def by blast
    with assms(2) show ?thesis by auto
  qed
  have nq: "\<not> queued ?q (msg_id m)"
    unfolding queued_def q using dist other by auto
  have fewer: "msg_id ` set (queue ?q k') \<subseteq> msg_id ` set (queue p k')" for k'
    unfolding q using assms(2) by auto
  have sub: "queued p i" if "queued ?q i" for i
    using that fewer unfolding queued_def by blast
  have "distinct (map msg_id (queue ?q k'))" for k'
    using assms(1) dist unfolding q pipeline_wf_def by simp
  moreover have "msg_id ` set (queue ?q k1) \<inter> msg_id ` set (queue ?q k2) = {}" if "k1 \<noteq> k2" for k1 k2
  proof -
    have "msg_id ` set (queue p k1) \<inter> msg_id ` set (queue p k2) = {}"
      using assms(1) that unfolding pipeline_wf_def by blast
    with fewer [of k1] fewer [of k2] show ?thesis by blast
  qed
  moreover have "row_has_status ?q i {SCHEDULED, RETRYING}" if "queued ?q i" for i
    using sub [OF that] assms(1) by (simp add: pipeline_wf_def row_has_status_def)
  ultimately have "pipeline_wf ?q" using assms(1) by (simp add: pipeline_wf_def)
  with nq show ?thesis by (simp add: unqueued_def)
qed

lemma consume_round_cases:
  assumes "pipeline_wf p"
  obtains (idle) "same_core p (consume_round env p)"
  | (popped) m ms q where "queue p task_queue = m # ms"
      "q = p\<lparr>pl_moment := pl_moment p + 1, queues := dict_set task_queue ms (queues p)\<rparr>"
      "consume_round env p = snd (consume_message env m q)" "unqueued (msg_id m) q"
proof (cases "faulty env (pl_moment p) \<or> queue p task_queue = []")
  case True
  then have "same_core p (consume_round env p)"
    by (auto simp: consume_round_def redis_blpop_def interact_def op_bind_def Let_def)
  then show ?thesis by (rule idle)
next
  case False
  then obtain m ms where queue: "queue p task_queue = m # ms" by (cases "queue p task_queue") auto
  let ?q = "p\<lparr>pl_moment := pl_moment p + 1, queues := dict_set task_queue ms (queues p)\<rparr>"
  have round: "consume_round env p = snd (consume_message env m ?q)"
    using False queue by (simp add: consume_round_def redis_blpop_def interact_def op_bind_def Let_def)
  from pop_unqueued [OF assms queue] show ?thesis by (intro popped [OF queue refl round])
qed

lemma consume_round_wf: "pipeline_wf p \<Longrightarrow> pipeline_wf (consume_round env p)"
  by (cases rule: consume_round_cases [of p env])
    (auto simp: same_core_wf intro: consume_message_wf)

section \<open>Histories\<close>

text \<open>
  What can happen to a deployment: a task is created, the scheduler polls, the worker takes a
  message. Every step has its own environment, so the faults, the clocks and the columns are
  arbitrary throughout.
\<close>

datatype pipeline_step = Create pipe_env Task | Poll pipe_env | Consume pipe_env

fun pipeline_do :: "pipeline \<Rightarrow> pipeline_step \<Rightarrow> pipeline" where
  "pipeline_do p (Create env t) = snd (repo_create env t p)"
| "pipeline_do p (Poll env) = poll_round env p"
| "pipeline_do p (Consume env) = consume_round env p"

definition empty_pipeline :: pipeline where
  "empty_pipeline = \<lparr>table = [], queues = [], bus_log = [], executions = [], pl_moment = 0\<rparr>"

text \<open>Concrete data for the witnesses.\<close>

definition sample_pipe_env :: "(nat \<Rightarrow> bool) \<Rightarrow> string list \<Rightarrow> pipe_env" where
  "sample_pipe_env faults cols =
     \<lparr>faulty = faults, wall_clock = (\<lambda>n. int n), jsonb_text = False, table_columns = cols,
      workflow_refused = (\<lambda>_. None)\<rparr>"

definition sample_job :: "string \<Rightarrow> Task" where
  "sample_job ty =
     \<lparr>task_id = ''job'', workflow_id = None, task_status = PENDING, task_type = ty, payload = [],
      task_result = None, task_provider = ''opencode'', attempts = 0, max_attempts = 3,
      task_error = None, created_at = [], updated_at = []\<rparr>"

lemmas pipeline_eval =
  sample_pipe_env_def sample_job_def empty_pipeline_def poll_round_def get_pending_def pending_rows_def
  row_to_task_def task_of_status_def column_dict_def dispatch_def message_of_def queue_key_def
  consume_round_def redis_blpop_def redis_lpush_def redis_publish_def publish_event_def
  consume_message_def execute_op_def execute_task_def on_task_done_def on_task_error_def
  repo_create_def repo_get_def inserted_row_def update_status_def op_bind_def
  queue_def task_queue_def interact_def Let_def dict_get_default_def dict_has_def declared_columns_def

lemma repo_create_cases:
  obtains (kept) "same_core p (snd (repo_create env t p))"
  | (added) r where "dict_get (table p) (task_id t) = None" "row_id r = task_id t"
      "table (snd (repo_create env t p)) = dict_set (task_id t) r (table p)"
      "queues (snd (repo_create env t p)) = queues p"
      "executions (snd (repo_create env t p)) = executions p"
proof (cases "faulty env (pl_moment p) \<or> dict_has (table p) (task_id t) \<or>
    Option.bind (workflow_id t) (workflow_refused env) \<noteq> None")
  case True
  then have "same_core p (snd (repo_create env t p))"
    by (auto simp: repo_create_def interact_def same_core_def Let_def)
  then show ?thesis by (rule kept)
next
  case False
  then have none: "dict_get (table p) (task_id t) = None" by (simp add: dict_get_None_iff)
  show ?thesis
    by (rule added [OF none, of "inserted_row (wall_clock env (pl_moment p + 1)) t"])
      (use False in \<open>simp_all add: repo_create_def interact_def Let_def inserted_row_def\<close>)
qed

lemma repo_create_wf: "pipeline_wf p \<Longrightarrow> pipeline_wf (snd (repo_create env t p))"
proof (cases rule: repo_create_cases [of p env t])
  case kept
  then show "pipeline_wf p \<Longrightarrow> ?thesis" using same_core_wf by blast
next
  case (added r)
  assume wf: "pipeline_wf p"
  let ?q = "snd (repo_create env t p)"
  have q: "queue ?q k = queue p k" for k using added(4) by (simp add: queue_def)
  have "row_has_status ?q i {SCHEDULED, RETRYING}" if "queued ?q i" for i
  proof -
    from that wf have "row_has_status p i {SCHEDULED, RETRYING}" by (auto simp: queued_def q pipeline_wf_def)
    with added(1,3) show ?thesis by (auto simp: row_has_status_def)
  qed
  with wf added(2,3) show ?thesis by (auto simp: pipeline_wf_def q)
qed

interpretation pl: invariant_system pipeline_do pipeline_wf
proof unfold_locales
  fix p s
  assume "pipeline_wf p"
  then show "pipeline_wf (pipeline_do p s)"
    by (cases s) (auto intro: repo_create_wf poll_round_wf consume_round_wf)
qed

lemma empty_pipeline_wf: "pipeline_wf empty_pipeline"
  by (simp add: empty_pipeline_def pipeline_wf_def queued_def queue_def dict_get_default_def)

text \<open>
  C14: In every history from an empty deployment - whatever the database, Redis and the clocks
  do - no task is in the queues twice, neither in one queue nor in two, and every queued message
  belongs to a stored task that is scheduled or waiting for its retry.
\<close>

theorem pipeline_never_duplicates:
  "let p = run pipeline_do empty_pipeline steps in
     (\<forall>k. distinct (map msg_id (queue p k))) \<and>
     (\<forall>k k'. k = k' \<or> msg_id ` set (queue p k) \<inter> msg_id ` set (queue p k') = {}) \<and>
     (\<forall>i. (\<forall>k. i \<notin> msg_id ` set (queue p k)) \<or>
        (\<exists>r. dict_get (table p) i = Some r \<and> row_id r = i \<and>
             (row_status r = ''SCHEDULED'' \<or> row_status r = ''RETRYING'')))"
proof -
  have "pipeline_wf (run pipeline_do empty_pipeline steps)"
    by (rule pl.run_inv [OF empty_pipeline_wf])
  then show ?thesis
    unfolding pipeline_wf_def queued_def row_has_status_def Let_def by fastforce
qed

text \<open>
  A task that is no longer pending and in no queue: nothing the system does touches it again.
\<close>

definition settled :: "string \<Rightarrow> pipeline \<Rightarrow> bool" where
  "settled i p \<longleftrightarrow>
     pipeline_wf p \<and> \<not> queued p i \<and> (\<exists>r. dict_get (table p) i = Some r \<and> row_status r \<noteq> ''PENDING'')"

lemma settled_poll: "settled i p \<Longrightarrow> same_at i p (poll_round env p)"
proof (cases rule: poll_round_cases [of p env])
  case nothing
  then show "settled i p \<Longrightarrow> ?thesis" using same_core_at by blast
next
  case (polled ts)
  assume st: "settled i p"
  have "i \<notin> row_id ` set (pending_rows 10 p)"
    using st pending_row_get [of p _ 10] by (fastforce simp: settled_def)
  with rows_to_tasks_ids [OF polled(1)] have "i \<notin> task_id ` set ts" by (metis list.set_map)
  from op_each_at [OF this, of "p\<lparr>pl_moment := pl_moment p + 1\<rparr>" env]
    same_at_trans [OF same_core_at [OF same_core_moment [of p]]] polled(2)
  show ?thesis by metis
qed

lemma settled_consume: "settled i p \<Longrightarrow> same_at i p (consume_round env p)"
proof -
  assume st: "settled i p"
  then have wf: "pipeline_wf p" by (simp add: settled_def)
  show ?thesis
  proof (cases rule: consume_round_cases [OF wf, of env, case_names idle popped])
    case idle
    then show ?thesis by (rule same_core_at)
  next
    case (popped m ms q)
    have "queued p (msg_id m)" using popped(1) by (auto simp: queued_def intro!: exI [of _ task_queue])
    with st have ne: "i \<noteq> msg_id m" by (auto simp: settled_def)
    have q: "set (queue q k) \<subseteq> set (queue p k)" for k
      using popped(1) by (auto simp: popped(2) queue_def)
    have "\<not> queued p i" using st by (simp add: settled_def)
    with q have "\<not> queued q i" unfolding queued_def by blast
    with \<open>\<not> queued p i\<close> have "same_at i p q" by (simp add: same_at_def popped(2))
    with consume_message_at [OF ne, of q env] popped(3) show ?thesis by (simp add: same_at_trans)
  qed
qed

lemma settled_create: "settled i p \<Longrightarrow> same_at i p (snd (repo_create env t p))"
proof (cases rule: repo_create_cases [of p env t])
  case kept
  then show "settled i p \<Longrightarrow> ?thesis" using same_core_at by blast
next
  case (added r)
  then show "settled i p \<Longrightarrow> ?thesis"
    by (auto simp: settled_def same_at_def queued_def queue_def)
qed

lemma settled_run: "settled i p \<Longrightarrow> same_at i p (run pipeline_do p steps)"
proof (induction steps arbitrary: p)
  case (Cons s steps)
  have st: "same_at i p (pipeline_do p s)"
    using Cons.prems by (cases s) (auto intro: settled_poll settled_consume settled_create)
  moreover have "settled i (pipeline_do p s)"
    using st Cons.prems pl.step_inv [of p s] by (auto simp: settled_def same_at_def)
  ultimately show ?case using Cons.IH same_at_trans by (metis foldl_Cons)
qed (simp add: same_at_def)

text \<open>
  In every history from an empty deployment, a task that is no longer pending and in no queue
  (completed, failed, or lost on the way) stays exactly as it is, whatever happens later: its row
  does not change, it enters no queue and it is never executed again.
\<close>

theorem settled_task_is_final:
  assumes "p = run pipeline_do empty_pipeline steps"
    and "dict_get (table p) i = Some r" "row_status r \<noteq> ''PENDING''"
    and "\<forall>k. i \<notin> msg_id ` set (queue p k)"
  shows "let q = run pipeline_do p later in
     dict_get (table q) i = Some r \<and> (\<forall>k. i \<notin> msg_id ` set (queue q k)) \<and>
     count_list (executions q) i = count_list (executions p) i"
proof -
  have "pipeline_wf p" unfolding assms(1) by (rule pl.run_inv [OF empty_pipeline_wf])
  with assms have "settled i p" by (auto simp: settled_def queued_def)
  from settled_run [OF this] assms show ?thesis by (auto simp: same_at_def queued_def Let_def)
qed

lemma sample_polled:
  "let env = sample_pipe_env (\<lambda>_. False) declared_columns;
       p = run pipeline_do empty_pipeline [Create env (sample_job ty), Poll env] in
     queues p = [(task_queue, [message_of (sample_job ty) ''opencode''])] \<and> executions p = [] \<and>
     (\<exists>r. table p = [(''job'', r)])"
  by (simp add: pipeline_eval)

text \<open>A successful task at the head of the queue is stored as completed and leaves the queue.\<close>

lemma consume_succeeding:
  assumes "\<And>n. \<not> faulty env n" "queue p task_queue = m # ms" "execute_task m = Inr (Some d, None)"
    and "dict_get (table p) (msg_id m) = Some r"
  shows "queues (consume_round env p) = dict_set task_queue ms (queues p)"
    and "executions (consume_round env p) = executions p @ [msg_id m]"
    and "\<exists>r'. dict_get (table (consume_round env p)) (msg_id m) = Some r' \<and>
      row_status r' = ''COMPLETED'' \<and> row_result r' = Some d \<and> row_attempts r' = 0"
  using assms
  by (simp_all add: consume_round_def redis_blpop_def consume_message_def update_status_def execute_op_def
      on_task_done_def publish_event_def redis_publish_def interact_ok op_bind_def Let_def queue_def)

lemma sample_completed:
  "let env = sample_pipe_env (\<lambda>_. False) declared_columns;
       p = run pipeline_do empty_pipeline [Create env (sample_job ''other''), Poll env, Consume env] in
     (\<exists>r. dict_get (table p) ''job'' = Some r \<and> row_status r = ''COMPLETED'') \<and>
     (\<forall>k. queue p k = []) \<and> executions p = [''job'']"
proof -
  let ?env = "sample_pipe_env (\<lambda>_. False) declared_columns"
  let ?p = "run pipeline_do empty_pipeline [Create ?env (sample_job ''other''), Poll ?env]"
  let ?m = "message_of (sample_job ''other'') ''opencode''"
  from sample_polled [of "''other''"] obtain r where
    p: "queues ?p = [(task_queue, [?m])]" "executions ?p = []" "table ?p = [(''job'', r)]"
    unfolding Let_def by blast
  have m: "msg_id ?m = ''job''" "\<exists>d. execute_task ?m = Inr (Some d, None)"
    by (simp_all add: execute_task_def message_of_def sample_job_def)
  then obtain d where d: "execute_task ?m = Inr (Some d, None)" by blast
  have f: "\<not> faulty ?env n" for n by (simp add: sample_pipe_env_def)
  have q: "queue ?p task_queue = [?m]" using p(1) by (simp add: queue_def dict_get_default_def)
  have r: "dict_get (table ?p) (msg_id ?m) = Some r" using p(3) m(1) by simp
  note fin = consume_succeeding [OF f q d r]
  have "run pipeline_do empty_pipeline [Create ?env (sample_job ''other''), Poll ?env, Consume ?env]
      = consume_round ?env ?p" by simp
  with fin p m(1) show ?thesis
    by (auto simp: Let_def queue_def dict_get_default_def simp del: foldl_Cons)
qed

theorem settled_task_is_final_witness:
  "let env = sample_pipe_env (\<lambda>_. False) declared_columns;
       p = run pipeline_do empty_pipeline [Create env (sample_job ''other''), Poll env, Consume env] in
     count_list (executions (run pipeline_do p [Poll env, Consume env])) ''job'' = 1"
proof -
  let ?env = "sample_pipe_env (\<lambda>_. False) declared_columns"
  let ?p = "run pipeline_do empty_pipeline [Create ?env (sample_job ''other''), Poll ?env, Consume ?env]"
  from sample_completed obtain r where "dict_get (table ?p) ''job'' = Some r"
    "row_status r = ''COMPLETED''" "\<forall>k. queue ?p k = []" "executions ?p = [''job'']"
    unfolding Let_def by blast
  with settled_task_is_final [OF refl, of _ "''job''" r "[Poll ?env, Consume ?env]"] show ?thesis
    by (simp add: Let_def del: foldl_Cons)
qed

text \<open>
  The scheduler marks a task before it pushes it. When the push raises, the task is neither
  pending nor queued.
\<close>

lemma dispatch_push_raises:
  assumes "\<not> faulty env (pl_moment p)" "faulty env (pl_moment p + 1)"
    "dict_get (table p) (task_id t) = Some r"
  shows "fst (dispatch env t p) = Inl connection_error \<and>
    queues (snd (dispatch env t p)) = queues p \<and> executions (snd (dispatch env t p)) = executions p \<and>
    (\<exists>r'. dict_get (table (snd (dispatch env t p))) (task_id t) = Some r' \<and>
      row_status r' = ''SCHEDULED'')"
  using assms by (simp add: dispatch_def op_bind_def update_status_def redis_lpush_def interact_def Let_def)

text \<open>
  The database update and the push of \<open>poll_pg\<close> are not atomic. If the push of a pending
  task raises, the task is stored as scheduled but is in no queue, and from then on no history
  ever queues or executes it: the scheduler only looks at pending tasks.
\<close>

theorem failed_push_loses_the_task:
  assumes "p = run pipeline_do empty_pipeline steps"
    and "dict_get (table p) (task_id t) = Some r" "row_status r = ''PENDING''"
    and "\<not> faulty env (pl_moment p)" "faulty env (pl_moment p + 1)"
  shows "let q = run pipeline_do (snd (dispatch env t p)) later in
     (\<exists>r'. dict_get (table q) (task_id t) = Some r' \<and> row_status r' = ''SCHEDULED'') \<and>
     (\<forall>k. task_id t \<notin> msg_id ` set (queue q k)) \<and>
     count_list (executions q) (task_id t) = count_list (executions p) (task_id t)"
proof -
  have wf: "pipeline_wf p" unfolding assms(1) by (rule pl.run_inv [OF empty_pipeline_wf])
  have nq: "\<not> queued p (task_id t)" by (rule pending_not_queued [OF wf assms(2,3)])
  note raised = dispatch_push_raises [OF assms(4,5,2)]
  from raised nq have "\<not> queued (snd (dispatch env t p)) (task_id t)"
    by (simp add: queued_def queue_def)
  with raised dispatch_wf [OF wf nq assms(2)] have "settled (task_id t) (snd (dispatch env t p))"
    by (auto simp: settled_def)
  from settled_run [OF this, of later] raised nq show ?thesis
    by (auto simp: same_at_def queued_def queue_def Let_def)
qed

lemma sample_created:
  "let env = sample_pipe_env f cols; p = run pipeline_do empty_pipeline [Create env (sample_job ty)] in
     \<not> f 0 \<longrightarrow> (\<exists>r. dict_get (table p) ''job'' = Some r \<and> row_status r = ''PENDING'' \<and>
       row_id r = ''job'' \<and> row_max_attempts r = 3) \<and> executions p = [] \<and> pl_moment p = 1 \<and>
     (\<forall>k. queue p k = [])"
  by (simp add: pipeline_eval)

theorem failed_push_loses_the_task_witness:
  "let env = sample_pipe_env (\<lambda>n. n = 2) declared_columns;
       p = run pipeline_do empty_pipeline [Create env (sample_job ''echo'')];
       q = run pipeline_do (snd (dispatch env (sample_job ''echo'') p)) [Poll env, Consume env] in
     (\<exists>r. dict_get (table q) ''job'' = Some r \<and> row_status r = ''SCHEDULED'') \<and>
     count_list (executions q) ''job'' = 0"
proof -
  let ?env = "sample_pipe_env (\<lambda>n. n = 2) declared_columns"
  let ?p = "run pipeline_do empty_pipeline [Create ?env (sample_job ''echo'')]"
  from sample_created [of "\<lambda>n. n = 2" declared_columns "''echo''"] obtain r where
    p: "dict_get (table ?p) ''job'' = Some r" "row_status r = ''PENDING''" "executions ?p = []" "pl_moment ?p = 1"
    unfolding Let_def by (metis zero_neq_numeral)
  have "task_id (sample_job ''echo'') = ''job''" "faulty ?env = (\<lambda>n. n = 2)"
    by (simp_all add: sample_job_def sample_pipe_env_def)
  with failed_push_loses_the_task [OF refl, of _ "sample_job ''echo''" r ?env "[Poll ?env, Consume ?env]"] p
  show ?thesis by (simp add: Let_def del: foldl_Cons)
qed

section \<open>A round without faults\<close>

text \<open>Nothing raises, and JSON columns arrive as dictionaries.\<close>

definition calm :: "pipe_env \<Rightarrow> bool" where
  "calm env \<longleftrightarrow> faulty env = (\<lambda>_. False) \<and> \<not> jsonb_text env"

lemma row_to_task_calm:
  assumes "calm env" "row_status r = task_status_value st"
  shows "\<exists>t. row_to_task env r = Inr t \<and> task_id t = row_id r \<and> attempts t = row_attempts r \<and>
     max_attempts t = row_max_attempts r"
  using assms by (cases st) (auto simp: row_to_task_def task_of_status_def column_dict_def calm_def split: option.split)

text \<open>A failing task at the head of the queue: the retry decision of the worker.\<close>

lemma consume_failing:
  assumes "calm env" "''error'' \<in> set (table_columns env)"
    and "queue p task_queue = m # ms" "execute_task m = Inr (None, Some e)" "e \<noteq> []"
    and "dict_get (table p) (msg_id m) = Some r" "row_id r = msg_id m"
  shows "let q = consume_round env p; again = row_attempts r + 1 < row_max_attempts r in
    queue q task_queue = (if again then m # ms else ms) \<and>
    executions q = executions p @ [msg_id m] \<and>
    (\<exists>r'. dict_get (table q) (msg_id m) = Some r' \<and> row_id r' = msg_id m \<and>
       row_attempts r' = row_attempts r + 1 \<and> row_max_attempts r' = row_max_attempts r \<and>
       row_error r' = Some e \<and>
       row_status r' = (if again then ''RETRYING'' else ''FAILED''))"
proof -
  let ?r1 = "r\<lparr>row_status := ''RUNNING'', row_updated := wall_clock env (Suc (Suc (pl_moment p)))\<rparr>"
  from row_to_task_calm [OF assms(1), of ?r1 RUNNING] obtain t where
    t: "row_to_task env ?r1 = Inr t" "attempts t = row_attempts r" "max_attempts t = row_max_attempts r"
    by auto
  have f: "\<not> faulty env n" "\<not> jsonb_text env" for n using assms(1) by (simp_all add: calm_def)
  note defs = consume_round_def redis_blpop_def consume_message_def update_status_def execute_op_def
    on_task_error_def repo_get_def redis_lpush_def publish_event_def redis_publish_def
  show ?thesis
    using assms(2-) t f
    by (simp add: defs interact_ok op_bind_def Let_def queue_def)
qed

lemma failing_rounds:
  assumes "calm env" "''error'' \<in> set (table_columns env)"
    and "execute_task m = Inr (None, Some e)" "e \<noteq> []"
  shows "queue p task_queue = m # ms \<Longrightarrow> dict_get (table p) (msg_id m) = Some r \<Longrightarrow> row_id r = msg_id m \<Longrightarrow>
    nat (row_max_attempts r - row_attempts r) = k \<Longrightarrow>
    let q = run pipeline_do p (replicate (max 1 k) (Consume env)) in
      queue q task_queue = ms \<and> executions q = executions p @ replicate (max 1 k) (msg_id m) \<and>
      (\<exists>r'. dict_get (table q) (msg_id m) = Some r' \<and> row_status r' = ''FAILED'' \<and>
         row_attempts r' = row_attempts r + int (max 1 k) \<and> row_error r' = Some e)"
proof (induction k arbitrary: p r)
  case 0
  from consume_failing [OF assms(1,2) 0(1) assms(3,4) 0(2,3)] 0(4) show ?case
    by (auto simp: Let_def)
next
  case (Suc k)
  let ?q = "consume_round env p"
  from consume_failing [OF assms(1,2) Suc.prems(1) assms(3,4) Suc.prems(2,3)] obtain r' where
    q: "queue ?q task_queue = (if row_attempts r + 1 < row_max_attempts r then m # ms else ms)"
      "executions ?q = executions p @ [msg_id m]" "dict_get (table ?q) (msg_id m) = Some r'"
      "row_id r' = msg_id m" "row_attempts r' = row_attempts r + 1"
      "row_max_attempts r' = row_max_attempts r" "row_error r' = Some e"
      "row_status r' = (if row_attempts r + 1 < row_max_attempts r then ''RETRYING'' else ''FAILED'')"
    by (auto simp: Let_def)
  show ?case
  proof (cases k)
    case 0
    with Suc.prems(4) have "\<not> row_attempts r + 1 < row_max_attempts r" by simp
    with q 0 show ?thesis by (simp add: Let_def)
  next
    case (Suc j)
    with Suc.prems(4) have "row_attempts r + 1 < row_max_attempts r" by simp
    with Suc.IH [of ?q r'] q Suc.prems(4) Suc show ?thesis by (simp add: Let_def algebra_simps)
  qed
qed

lemma dispatch_calm:
  assumes "calm env" "dict_get (table p) (task_id t) = Some r"
    and "task_provider t = [] \<or> task_provider t = ''opencode''"
  shows "let q = snd (dispatch env t p) in
    queue q task_queue = message_of t ''opencode'' # queue p task_queue \<and> executions q = executions p \<and>
    (\<exists>r'. dict_get (table q) (task_id t) = Some r' \<and> row_id r' = row_id r \<and>
       row_attempts r' = 1 \<and> row_max_attempts r' = row_max_attempts r)"
proof -
  have f: "\<not> faulty env n" for n using assms(1) by (simp add: calm_def)
  show ?thesis
    using assms(2,3) f
    by (auto simp: dispatch_def update_status_def redis_lpush_def redis_publish_def interact_ok
        op_bind_def queue_def queue_key_def task_queue_def Let_def)
qed

text \<open>
  Without faults, with an \<open>error\<close> column (which neither script declares) and a driver that decodes JSON
  columns (which it does not do by default), a dispatched task of type \<open>fail\<close> is executed
  \<open>max 1 (max_attempts - 1)\<close> times in consecutive rounds - the dispatch already counts as an
  attempt, and a retry is pushed to the end the worker pops from, ahead of everything else in the
  queue - and then it is stored as failed and has left the queue.
\<close>

theorem failing_task_lifecycle:
  assumes "calm env" "''error'' \<in> set (table_columns env)" "task_type t = ''fail''"
    and "dict_get (table p) (task_id t) = Some r" "row_id r = task_id t"
    and "row_max_attempts r = max_attempts t"
    and "task_provider t = [] \<or> task_provider t = ''opencode''"
    and "n = max 1 (nat (max_attempts t - 1))"
  shows "let q = run pipeline_do (snd (dispatch env t p)) (replicate n (Consume env)) in
     executions q = executions p @ replicate n (task_id t) \<and>
     queue q task_queue = queue p task_queue \<and>
     (\<exists>r'. dict_get (table q) (task_id t) = Some r' \<and> row_status r' = ''FAILED'' \<and>
        row_attempts r' = int n + 1)"
proof -
  let ?q = "snd (dispatch env t p)" and ?m = "message_of t ''opencode''"
  from dispatch_calm [OF assms(1,4,7)] obtain r' where
    q: "queue ?q task_queue = ?m # queue p task_queue" "executions ?q = executions p"
      "dict_get (table ?q) (msg_id ?m) = Some r'" "row_id r' = msg_id ?m" "row_attempts r' = 1"
      "row_max_attempts r' = max_attempts t"
    using assms(5,6) by (auto simp: Let_def)
  have fails: "execute_task ?m = Inr (None, Some (''simulated failure for task type '' @ repr_str ''fail''))"
    using assms(3) by (simp add: execute_task_def message_of_def)
  from failing_rounds [OF assms(1,2) fails _ q(1,3,4) refl] q assms(8) show ?thesis
    by (auto simp: Let_def add.commute)
qed

theorem failing_task_lifecycle_witness:
  "let env = sample_pipe_env (\<lambda>_. False) (''error'' # declared_columns);
       p = run pipeline_do empty_pipeline [Create env (sample_job ''fail'')];
       q = run pipeline_do (snd (dispatch env (sample_job ''fail'') p)) (replicate 2 (Consume env)) in
     executions q = [''job'', ''job'']"
proof -
  let ?env = "sample_pipe_env (\<lambda>_. False) (''error'' # declared_columns)"
  let ?p = "run pipeline_do empty_pipeline [Create ?env (sample_job ''fail'')]"
  from sample_created [of "\<lambda>_. False" "''error'' # declared_columns" "''fail''"] obtain r where
    p: "dict_get (table ?p) ''job'' = Some r" "row_id r = ''job''" "row_max_attempts r = 3" "executions ?p = []"
    unfolding Let_def by blast
  have job: "task_id (sample_job ''fail'') = ''job''" "task_type (sample_job ''fail'') = ''fail''"
    "task_provider (sample_job ''fail'') = ''opencode''" "max_attempts (sample_job ''fail'') = 3"
    by (simp_all add: sample_job_def)
  have env: "calm ?env" "''error'' \<in> set (table_columns ?env)"
    by (simp_all add: sample_pipe_env_def calm_def)
  from failing_task_lifecycle [OF env, of "sample_job ''fail''" ?p r 2] p job show ?thesis
    by (simp add: Let_def numeral_2_eq_2 del: foldl_Cons)
qed

text \<open>Recording an error without a column for it has no effect.\<close>

lemma error_refused:
  assumes "''error'' \<notin> set (table_columns env)"
  shows "same_core p (snd (on_task_error env m e p))"
  using assms
  by (auto simp: on_task_error_def repo_get_def update_status_def interact_def op_bind_def same_core_def Let_def
      split: sum.splits option.splits)

lemma stranded_round:
  assumes "''error'' \<notin> set (table_columns env)"
    and "\<not> faulty env (pl_moment p)" "\<not> faulty env (pl_moment p + 1)"
    and "queue p task_queue = m # ms" "execute_task m = Inr (None, Some e)" "e \<noteq> []"
    and "dict_get (table p) (msg_id m) = Some r"
  shows "queue (consume_round env p) task_queue = ms \<and>
    (\<forall>k. k \<noteq> task_queue \<longrightarrow> queue (consume_round env p) k = queue p k) \<and>
    executions (consume_round env p) = executions p @ [msg_id m] \<and>
    (\<exists>r'. dict_get (table (consume_round env p)) (msg_id m) = Some r' \<and> row_status r' = ''RUNNING'')"
proof -
  obtain q where q: "consume_round env p = snd (on_task_error env m e q)"
    "queue q task_queue = ms" "\<forall>k. k \<noteq> task_queue \<longrightarrow> queue q k = queue p k"
    "executions q = executions p @ [msg_id m]"
    "\<exists>r'. dict_get (table q) (msg_id m) = Some r' \<and> row_status r' = ''RUNNING''"
    using assms(2-)
    by (auto simp: consume_round_def redis_blpop_def consume_message_def update_status_def execute_op_def
        interact_ok op_bind_def Let_def queue_def)
  with error_refused [OF assms(1), of q m e] show ?thesis
    by (simp add: same_core_def queue_def)
qed

text \<open>
  C17: With the table as \<open>init.sql\<close> declares it there is no \<open>error\<close> column, so the statement that
  records a failure is refused, for a retry as for the last attempt. Whatever the clocks and the
  later faults are, a failing task the worker marked as running stays running, is in no queue and
  is executed only this once.
\<close>

theorem missing_error_column_strands:
  assumes "p = run pipeline_do empty_pipeline steps"
    and "table_columns env = declared_columns"
    and "\<not> faulty env (pl_moment p)" "\<not> faulty env (pl_moment p + 1)"
    and "queue p task_queue = m # ms" "execute_task m = Inr (None, Some e)" "e \<noteq> []"
  shows "let q = run pipeline_do (consume_round env p) later in
     (\<exists>r. dict_get (table q) (msg_id m) = Some r \<and> row_status r = ''RUNNING'') \<and>
     (\<forall>k. msg_id m \<notin> msg_id ` set (queue q k)) \<and>
     count_list (executions q) (msg_id m) = count_list (executions p) (msg_id m) + 1"
proof -
  let ?q = "consume_round env p"
  have wf: "pipeline_wf p" unfolding assms(1) by (rule pl.run_inv [OF empty_pipeline_wf])
  have "queued p (msg_id m)" using assms(5) by (auto simp: queued_def intro!: exI [of _ task_queue])
  with wf obtain r where "dict_get (table p) (msg_id m) = Some r"
    by (auto simp: pipeline_wf_def row_has_status_def)
  from stranded_round [OF _ assms(3-7) this] assms(2) have
    q: "queue ?q task_queue = ms" "\<forall>k. k \<noteq> task_queue \<longrightarrow> queue ?q k = queue p k"
      "executions ?q = executions p @ [msg_id m]"
      "\<exists>r'. dict_get (table ?q) (msg_id m) = Some r' \<and> row_status r' = ''RUNNING''"
    by (auto simp: declared_columns_def)
  have "msg_id m \<notin> msg_id ` set (queue ?q k)" for k
  proof (cases "k = task_queue")
    case True
    have "distinct (map msg_id (m # ms))" using wf assms(5) unfolding pipeline_wf_def by metis
    with q(1) True show ?thesis by simp
  next
    case False
    then have "msg_id ` set (queue p k) \<inter> msg_id ` set (queue p task_queue) = {}"
      using wf unfolding pipeline_wf_def by blast
    with q(2) False assms(5) show ?thesis by auto
  qed
  then have "settled (msg_id m) ?q"
    using q(4) consume_round_wf [OF wf] by (auto simp: settled_def queued_def)
  from settled_run [OF this, of later] q(3,4) show ?thesis
    by (auto simp: same_at_def queued_def Let_def settled_def \<open>settled (msg_id m) ?q\<close> [unfolded settled_def queued_def])
qed

theorem missing_error_column_strands_witness:
  "let env = sample_pipe_env (\<lambda>_. False) declared_columns;
       p = run pipeline_do empty_pipeline [Create env (sample_job ''fail''), Poll env];
       q = run pipeline_do (consume_round env p) [Poll env, Consume env, Consume env] in
     (\<exists>r. dict_get (table q) ''job'' = Some r \<and> row_status r = ''RUNNING'') \<and>
     count_list (executions q) ''job'' = 1"
proof -
  let ?env = "sample_pipe_env (\<lambda>_. False) declared_columns"
  let ?p = "run pipeline_do empty_pipeline [Create ?env (sample_job ''fail''), Poll ?env]"
  let ?m = "message_of (sample_job ''fail'') ''opencode''"
  from sample_polled [of "''fail''"] have p: "queue ?p task_queue = [?m]" "executions ?p = []"
    by (auto simp: Let_def queue_def dict_get_default_def simp del: foldl_Cons)
  have env: "table_columns ?env = declared_columns" "\<not> faulty ?env n" for n
    by (simp_all add: sample_pipe_env_def)
  have m: "msg_id ?m = ''job''"
    "execute_task ?m = Inr (None, Some (''simulated failure for task type '' @ repr_str ''fail''))"
    by (simp_all add: execute_task_def message_of_def sample_job_def)
  from missing_error_column_strands [OF refl env(1) env(2) env(2) _ m(2),
      where later = "[Poll ?env, Consume ?env, Consume ?env]"] p m(1)
  show ?thesis by (simp add: Let_def del: foldl_Cons)
qed

text \<open>
  \<open>asyncpg\<close> hands out a JSONB column as its text unless a codec is registered, and no codec
  is registered. Then \<open>dict(row["payload"])\<close> raises for every row, so a round of the scheduler
  never changes the table or a queue: nothing is ever dispatched.
\<close>

theorem jsonb_text_stops_dispatch:
  assumes "jsonb_text env"
  shows "table (poll_round env p) = table p \<and> queues (poll_round env p) = queues p"
proof (cases rule: poll_round_cases [of p env])
  case nothing
  then show ?thesis by (simp add: same_core_def)
next
  case (polled ts)
  have "rows_to_tasks env rs = Inr ts \<Longrightarrow> ts = []" for rs
    using assms
    by (cases rs) (auto simp: row_to_task_def column_dict_def split: sum.splits)
  from this [OF polled(1)] polled(2) show ?thesis by (simp add:)
qed

theorem jsonb_text_stops_dispatch_witness:
  "table (poll_round ((sample_pipe_env (\<lambda>_. False) declared_columns)\<lparr>jsonb_text := True\<rparr>) empty_pipeline) = []"
  using jsonb_text_stops_dispatch [of "(sample_pipe_env (\<lambda>_. False) declared_columns)\<lparr>jsonb_text := True\<rparr>" empty_pipeline]
  by (simp add: empty_pipeline_def)

end
