(* ===== verification/Workspace.thy ===== *)
theory Workspace
  imports Py_Value Effects "HOL-Library.Sublist"
begin

text \<open>
  \<open>workers/workspace.py\<close>, \<open>workers/runners.py\<close> and the command and patch records of
  \<open>workers/contracts.py\<close>: per-task directories, the guard on patch paths, and the runners that
  start processes. A directory is the list of the names on its absolute path; the file system
  has no symbolic links, so resolving a path is dropping its \<open>.\<close> and \<open>..\<close>. What a process does
  and which system calls fail are parameters.
\<close>

section \<open>Paths\<close>

fun split_on :: "char \<Rightarrow> string \<Rightarrow> string list" where
  "split_on d [] = [[]]"
| "split_on d (c # cs) =
     (if c = d then [] # split_on d cs
      else (case split_on d cs of [] \<Rightarrow> [[c]] | h # t \<Rightarrow> (c # h) # t))"

definition path_segments :: "string \<Rightarrow> string list" where
  "path_segments s = filter (\<lambda>x. x \<noteq> [] \<and> x \<noteq> ''.'') (split_on CHR ''/'' s)"

text \<open>\<open>directory / path\<close>: an absolute right operand replaces the left one.\<close>

definition join_path :: "string list \<Rightarrow> string \<Rightarrow> string list" where
  "join_path dir s = (if take 1 s = ''/'' then path_segments s else dir @ path_segments s)"

definition resolve :: "string list \<Rightarrow> string list" where
  "resolve ss = foldl (\<lambda>acc s. if s = ''..'' then butlast acc else acc @ [s]) [] ss"

definition path_str :: "string list \<Rightarrow> string" where
  "path_str ss = (if ss = [] then ''/'' else concat (map ((#) CHR ''/'') ss))"

section \<open>Files and processes\<close>

record CommandResult =
  exit_code :: int
  stdout :: string
  stderr :: string
  duration_ms :: int
  timed_out :: bool

definition cmd_success :: "CommandResult \<Rightarrow> bool" where
  "cmd_success r \<longleftrightarrow> exit_code r = 0 \<and> \<not> timed_out r"

text \<open>
  Data from a task's payload is not checked when a \<open>FilePatch\<close> is built, so its fields are
  arbitrary values.
\<close>

record FilePatch =
  patch_path :: pyval
  patch_content :: pyval

text \<open>
  What starting a process can lead to: the system cannot start it, starting it raises something
  that is no \<open>OSError\<close> (an empty command does), it is killed after its timeout, or
  it exits (with \<open>None\<close> when no code is known) having written its decoded output.
\<close>

datatype proc_outcome =
    Spawn_failed string
  | Spawn_raised exn
  | Killed_after_timeout
  | Exited "int option" string string

record os_env =
  process :: "nat \<Rightarrow> string list \<Rightarrow> string \<Rightarrow> (string, string) dict option \<Rightarrow> rat option \<Rightarrow> proc_outcome"
  elapsed_ms :: "nat \<Rightarrow> int"
  mkdir_error :: "string list \<Rightarrow> exn option"
  write_error :: "string list \<Rightarrow> exn option"

text \<open>
  The machine: its files, a ghost log of the processes started (argument list and directory),
  and the number of processes so far.
\<close>

record machine =
  files :: "(string list, string) dict"
  started :: "(string list \<times> string) list"
  ticks :: nat

section \<open>workers/runners.py\<close>

definition output_tail :: "string \<Rightarrow> string" where
  "output_tail s = drop (length s - 4000) s"

fun result_of :: "int \<Rightarrow> proc_outcome \<Rightarrow> exn + CommandResult" where
  "result_of ms (Spawn_failed msg) = Inr
     \<lparr>exit_code = 127, stdout = [], stderr = msg, duration_ms = ms, timed_out = False\<rparr>"
| "result_of ms (Spawn_raised e) = Inl e"
| "result_of ms Killed_after_timeout = Inr
     \<lparr>exit_code = 124, stdout = [], stderr = ''timed out'', duration_ms = ms, timed_out = True\<rparr>"
| "result_of ms (Exited code o1 o2) = Inr
     \<lparr>exit_code = (case code of Some c \<Rightarrow> c | None \<Rightarrow> -1), stdout = output_tail o1,
      stderr = output_tail o2, duration_ms = ms, timed_out = False\<rparr>"

definition local_run ::
  "os_env \<Rightarrow> string list \<Rightarrow> string \<Rightarrow> (string, string) dict option \<Rightarrow> rat option \<Rightarrow>
     ('a machine_scheme, CommandResult) op" where
  "local_run os argv cwd env limit m =
     (result_of (elapsed_ms os (ticks m)) (process os (ticks m) argv cwd env limit),
      m\<lparr>started := started m @ [(argv, cwd)], ticks := ticks m + 1\<rparr>)"

definition docker_command ::
  "string \<Rightarrow> string \<Rightarrow> string list \<Rightarrow> string \<Rightarrow> (string, string) dict option \<Rightarrow> string list" where
  "docker_command img network argv cwd env =
     [''docker'', ''run'', ''--rm'', ''--network='' @ network, ''-v'',
      path_str (resolve (path_segments cwd)) @ '':/workspace:rw'', ''-w'', ''/workspace''] @
     concat (map (\<lambda>(k, v). [''-e'', k @ ''='' @ v]) (case env of None \<Rightarrow> [] | Some d \<Rightarrow> d)) @
     img # argv"

datatype runner = LocalRunner | DockerRunner string string

definition run_command ::
  "os_env \<Rightarrow> runner \<Rightarrow> string list \<Rightarrow> string \<Rightarrow> (string, string) dict option \<Rightarrow> rat option \<Rightarrow>
     ('a machine_scheme, CommandResult) op" where
  "run_command os r argv cwd env limit =
     (case r of
        LocalRunner \<Rightarrow> local_run os argv cwd env limit
      | DockerRunner img network \<Rightarrow>
          local_run os (docker_command img network argv cwd env) cwd None limit)"

section \<open>workers/workspace.py\<close>

record Workspace =
  ws_root :: "string list"
  ws_branch :: string
  git_enabled :: bool

definition write_patch ::
  "os_env \<Rightarrow> string list \<Rightarrow> FilePatch \<Rightarrow> ('a machine_scheme, string) op" where
  "write_patch os dir p =
     (case patch_path p of
        PStr s \<Rightarrow>
          (let target = resolve (join_path dir s) in
           if \<not> prefix (path_str (resolve dir)) (path_str target)
           then op_raise (PyExn ''ValueError'' (''patch path escapes workspace: '' @ repr_str s))
           else case mkdir_error os (butlast target) of
             Some e \<Rightarrow> op_raise e
           | None \<Rightarrow>
               (case patch_content p of
                  PStr c \<Rightarrow>
                    (case write_error os target of
                       Some e \<Rightarrow> op_raise e
                     | None \<Rightarrow> (\<lambda>m. (Inr s, m\<lparr>files := dict_set target c (files m)\<rparr>)))
                | _ \<Rightarrow> op_raise (PyExn ''TypeError'' ''data must be str'')))
      | _ \<Rightarrow> op_raise (PyExn ''TypeError'' ''unsupported operand type(s) for /''))"

fun write_patches ::
  "os_env \<Rightarrow> string list \<Rightarrow> FilePatch list \<Rightarrow> ('a machine_scheme, string list) op" where
  "write_patches os dir [] = op_return []"
| "write_patches os dir (p # ps) =
     op_bind (write_patch os dir p) (\<lambda>s.
     op_bind (write_patches os dir ps) (\<lambda>ss. op_return (s # ss)))"

definition branch_name :: "string \<Rightarrow> string" where
  "branch_name i = ''task/'' @ take 12 i"

text \<open>The result of \<open>git checkout\<close> is not looked at.\<close>

definition init_branch ::
  "os_env \<Rightarrow> runner \<Rightarrow> string list \<Rightarrow> string \<Rightarrow> ('a machine_scheme, bool) op" where
  "init_branch os r dir branch =
     op_bind (run_command os r [''git'', ''init'', ''-q''] (path_str dir) None (Some 30)) (\<lambda>res.
       if \<not> cmd_success res then op_return False
       else op_bind (run_command os r [''git'', ''checkout'', ''-q'', ''-b'', branch] (path_str dir) None (Some 30))
              (\<lambda>_. op_return True))"

definition create_workspace ::
  "os_env \<Rightarrow> runner \<Rightarrow> string list \<Rightarrow> string \<Rightarrow> ('a machine_scheme, Workspace) op" where
  "create_workspace os r base i =
     (let dir = join_path base i in
      case mkdir_error os dir of
        Some e \<Rightarrow> op_raise e
      | None \<Rightarrow>
          op_bind (init_branch os r dir (branch_name i)) (\<lambda>g.
          op_return \<lparr>ws_root = dir, ws_branch = branch_name i, git_enabled = g\<rparr>))"

section \<open>Where patches land\<close>

text \<open>Names on a path are not empty and contain no slash.\<close>

abbreviation clean_path :: "string list \<Rightarrow> bool" where
  "clean_path ss \<equiv> \<forall>s \<in> set ss. s \<noteq> [] \<and> CHR ''/'' \<notin> set s"

lemma split_on_clean: "s \<in> set (split_on d cs) \<Longrightarrow> d \<notin> set s"
  by (induction cs arbitrary: s) (auto split: list.splits if_splits)

lemma path_segments_clean: "clean_path (path_segments s)"
  using split_on_clean by (auto simp: path_segments_def)

lemma join_path_clean: "clean_path dir \<Longrightarrow> clean_path (join_path dir s)"
  using path_segments_clean [of s] by (metis UnE join_path_def set_append)

lemma resolve_snoc:
  "resolve (ss @ [s]) = (if s = ''..'' then butlast (resolve ss) else resolve ss @ [s])"
  by (simp add: resolve_def)

lemma set_resolve: "set (resolve ss) \<subseteq> set ss"
  by (induction ss rule: rev_induct) (auto simp: resolve_snoc resolve_def dest: in_set_butlastD)

lemma resolve_clean: "clean_path ss \<Longrightarrow> clean_path (resolve ss)"
  using set_resolve by blast

lemma resolve_plain: "''..'' \<notin> set ts \<Longrightarrow> resolve (ss @ ts) = resolve ss @ ts"
proof (induction ts rule: rev_induct)
  case (snoc t ts)
  then show ?case using resolve_snoc [of "ss @ ts" t] by (auto split: if_splits)
qed simp

lemma resolve_no_dots: "''..'' \<notin> set (resolve ss)"
  by (induction ss rule: rev_induct) (auto simp: resolve_snoc resolve_def dest: in_set_butlastD)

lemma resolve_idem: "resolve (resolve ss) = resolve ss"
  using resolve_plain [OF resolve_no_dots, of "[]" ss] by (simp add: resolve_def)

text \<open>The prefix test on strings, on the level of names.\<close>

abbreviation slashed :: "string list \<Rightarrow> string" where
  "slashed ss \<equiv> concat (map ((#) CHR ''/'') ss)"

lemma prefix_slashed_tail:
  "CHR ''/'' \<notin> set s \<Longrightarrow> CHR ''/'' \<notin> set t \<Longrightarrow>
     prefix (s @ CHR ''/'' # u) (t @ slashed ts) \<longleftrightarrow> s = t \<and> prefix (CHR ''/'' # u) (slashed ts)"
proof (induction s arbitrary: t)
  case Nil
  then show ?case by (cases t) auto
next
  case (Cons c s)
  then show ?case
  proof (cases t)
    case Nil
    with Cons.prems show ?thesis by (cases ts) auto
  qed (use Cons in auto)
qed

lemma prefix_slashed_end:
  "CHR ''/'' \<notin> set s \<Longrightarrow> CHR ''/'' \<notin> set t \<Longrightarrow>
     prefix s (t @ slashed ts) \<longleftrightarrow> prefix s t"
proof (induction s arbitrary: t)
  case (Cons c s)
  then show ?case by (cases t; cases ts) auto
qed simp

lemma prefix_slashed:
  "clean_path ss \<Longrightarrow> clean_path ts \<Longrightarrow> ss \<noteq> [] \<Longrightarrow>
     prefix (slashed ss) (slashed ts) \<longleftrightarrow>
       (\<exists>x rest. ts = butlast ss @ (last ss @ x) # rest)"
proof (induction ss arbitrary: ts)
  case (Cons s ss)
  show ?case
  proof (cases ts)
    case Nil
    then show ?thesis by auto
  next
    case ts: (Cons t ts')
    show ?thesis
    proof (cases ss)
      case Nil
      with Cons.prems ts have "prefix (slashed (s # ss)) (slashed ts) \<longleftrightarrow> prefix s t"
        by (simp add: prefix_slashed_end)
      with Nil ts show ?thesis by (auto simp: prefix_def)
    next
      case (Cons s2 ss2)
      then have "prefix (slashed (s # ss)) (slashed ts) \<longleftrightarrow>
          prefix (s @ CHR ''/'' # (s2 @ slashed ss2)) (t @ slashed ts')"
        by (simp add: ts)
      also have "\<dots> \<longleftrightarrow> s = t \<and> prefix (slashed ss) (slashed ts')"
        using Cons.prems ts Cons by (subst prefix_slashed_tail) auto
      finally show ?thesis using Cons.IH [of ts'] Cons.prems Cons ts by auto
    qed
  qed
qed simp

lemma guard_iff:
  assumes "clean_path dir" "clean_path target" "dir \<noteq> []"
  shows "prefix (path_str dir) (path_str target) \<longleftrightarrow>
    (\<exists>x rest. target = butlast dir @ (last dir @ x) # rest)"
proof (cases "target = []")
  case True
  with assms show ?thesis
    by (cases dir) (auto simp: path_str_def prefix_def Cons_eq_append_conv)
qed (use prefix_slashed [OF assms] assms(3) in \<open>simp add: path_str_def\<close>)

text \<open>What one patch can do: nothing, or write the one file its path resolves to.\<close>

definition target_of :: "string list \<Rightarrow> string \<Rightarrow> string list" where
  "target_of dir s = resolve (join_path dir s)"

lemma write_patch_cases:
  obtains (refused) e where "write_patch os dir p m = (Inl e, m)"
  | (written) s c where "patch_path p = PStr s" "patch_content p = PStr c"
      "prefix (path_str (resolve dir)) (path_str (target_of dir s))"
      "write_patch os dir p m = (Inr s, m\<lparr>files := dict_set (target_of dir s) c (files m)\<rparr>)"
proof (cases "fst (write_patch os dir p m)")
  case (Inl e)
  then have "write_patch os dir p m = (Inl e, m)"
    by (auto simp: write_patch_def Let_def split: pyval.splits option.splits if_splits)
  then show ?thesis by (rule refused)
next
  case (Inr s)
  then obtain c where "patch_path p = PStr s" "patch_content p = PStr c"
    "prefix (path_str (resolve dir)) (path_str (target_of dir s))"
    "write_patch os dir p m = (Inr s, m\<lparr>files := dict_set (target_of dir s) c (files m)\<rparr>)"
    by (auto simp: write_patch_def target_of_def Let_def split: pyval.splits option.splits if_splits)
  then show ?thesis by (rule written)
qed

lemma write_patch_accepts:
  assumes "patch_path p = PStr s" "patch_content p = PStr c"
    and "prefix (path_str (resolve dir)) (path_str (target_of dir s))"
    and "mkdir_error os (butlast (target_of dir s)) = None" "write_error os (target_of dir s) = None"
  shows "write_patch os dir p m = (Inr s, m\<lparr>files := dict_set (target_of dir s) c (files m)\<rparr>)"
  using assms by (simp add: write_patch_def target_of_def Let_def)

text \<open>The workspaces are siblings: \<open>dir\<close> is resolved and not the root directory.\<close>

definition workspace_dir :: "string list \<Rightarrow> bool" where
  "workspace_dir dir \<longleftrightarrow> dir \<noteq> [] \<and> clean_path dir \<and> resolve dir = dir"

lemma target_clean: "clean_path dir \<Longrightarrow> clean_path (target_of dir s)"
  unfolding target_of_def by (intro resolve_clean join_path_clean)

text \<open>
  The directories a guarded patch can reach from \<open>dir\<close>: its own, and every sibling whose name
  merely starts with its name.
\<close>

definition reachable_file :: "string list \<Rightarrow> string list \<Rightarrow> bool" where
  "reachable_file dir f \<longleftrightarrow> (\<exists>x rest. f = butlast dir @ (last dir @ x) # rest)"

lemma write_patches_confined:
  assumes "workspace_dir dir"
  shows "dict_get (files (snd (write_patches os dir ps m))) f = dict_get (files m) f \<or>
    (reachable_file dir f \<and>
     (\<exists>p \<in> set ps. \<exists>s c. patch_path p = PStr s \<and> patch_content p = PStr c \<and> f = target_of dir s \<and>
        dict_get (files (snd (write_patches os dir ps m))) f = Some c))"
proof (induction ps arbitrary: m)
  case (Cons p ps)
  show ?case
  proof (cases rule: write_patch_cases [of os dir p m])
    case (refused e)
    then show ?thesis by simp
  next
    case (written s c)
    let ?m = "m\<lparr>files := dict_set (target_of dir s) c (files m)\<rparr>"
    have files: "files (snd (write_patches os dir (p # ps) m)) = files (snd (write_patches os dir ps ?m))"
      using written(4) by (cases "write_patches os dir ps ?m"; cases "fst (write_patches os dir ps ?m)")
        (auto simp: op_bind_def)
    have "reachable_file dir (target_of dir s)"
      using written(3) assms guard_iff target_clean unfolding workspace_dir_def reachable_file_def by metis
    then show ?thesis
      using Cons.IH [of ?m] written(1,2) unfolding files by (cases "f = target_of dir s") auto
  qed
qed simp

text \<open>
  C22: The guard of \<open>write_patches\<close> compares strings, not directories. Whatever the patches are, the
  files that change are below the workspace itself or below a sibling directory whose name starts
  with the workspace's name, and each gets the content of one of the patches.
\<close>

theorem patches_stay_near_workspace:
  assumes "workspace_dir dir"
    and "dict_get (files (snd (write_patches os dir ps m))) f \<noteq> dict_get (files m) f"
  shows "(\<exists>x rest. f = butlast dir @ (last dir @ x) # rest) \<and>
    (\<exists>p \<in> set ps. \<exists>c. patch_content p = PStr c \<and>
       dict_get (files (snd (write_patches os dir ps m))) f = Some c)"
  using write_patches_confined [OF assms(1)] assms(2) unfolding reachable_file_def by metis

lemma segments_plain:
  "CHR ''/'' \<notin> set s \<Longrightarrow> s \<noteq> [] \<Longrightarrow> s \<noteq> ''.'' \<Longrightarrow> path_segments s = [s]"
proof -
  assume "CHR ''/'' \<notin> set s"
  then have "split_on CHR ''/'' s = [s]" by (induction s) auto
  then show "s \<noteq> [] \<Longrightarrow> s \<noteq> ''.'' \<Longrightarrow> path_segments s = [s]" by (simp add: path_segments_def)
qed

lemma split_on_append_sep:
  "d \<notin> set s \<Longrightarrow> split_on d (s @ d # t) = s # split_on d t"
  by (induction s) auto

lemma segments_slash:
  "CHR ''/'' \<notin> set s \<Longrightarrow> s \<noteq> [] \<Longrightarrow> s \<noteq> ''.'' \<Longrightarrow>
     path_segments (s @ CHR ''/'' # t) = s # path_segments t"
  by (simp add: path_segments_def split_on_append_sep)

lemma take_1_eq: "take 1 s = [c] \<longleftrightarrow> (\<exists>t. s = c # t)"
  by (cases s) auto

text \<open>
  The guard lets a patch of one task write into the workspace of another: if the other task's
  identifier extends this one's, the path \<open>../other/name\<close> passes the check and overwrites the file
  of the other workspace, although the class promises that executions never clobber each other.
\<close>

theorem sibling_workspace_is_writable:
  assumes "workspace_dir (base @ [t])" "CHR ''/'' \<notin> set x" "CHR ''/'' \<notin> set f" "f \<notin> {[], ''.'', ''..''}"
    and "t @ x \<noteq> ''..''" "t @ x \<noteq> ''.''"
    and "patch_path p = PStr (''../'' @ (t @ x) @ ''/'' @ f)" "patch_content p = PStr c"
    and "\<forall>d. mkdir_error os d = None" "\<forall>d. write_error os d = None"
  shows "dict_get (files (snd (write_patches os (base @ [t]) [p] m))) (base @ [t @ x, f]) = Some c"
proof -
  have base: "clean_path (base @ [t])" "resolve (base @ [t]) = base @ [t]"
    using assms(1) by (simp_all add: workspace_dir_def)
  define s where "s = ''../'' @ (t @ x) @ ''/'' @ f"
  have segs: "path_segments s = [''..'', t @ x, f]" and rel: "take 1 s \<noteq> ''/''"
    unfolding s_def using segments_slash [of "''..''"] segments_slash [of "t @ x" f] segments_plain [of f] base(1) assms(2-6)
    by simp_all
  have dots: "''..'' \<notin> set [t @ x, f]" using assms(4,5) by auto
  have "resolve (base @ [t, ''..'']) = base"
    using resolve_snoc [of "base @ [t]" "''..''"] base(2) by simp
  with resolve_plain [OF dots, of "base @ [t, ''..'']"] have target: "target_of (base @ [t]) s = base @ [t @ x, f]"
    
    using rel by (simp add: target_of_def join_path_def segs)
  have "clean_path (base @ [t @ x, f])" using base(1) assms(2-4) by auto
  then have "prefix (path_str (resolve (base @ [t]))) (path_str (target_of (base @ [t]) s))"
    using guard_iff [OF base(1), of "base @ [t @ x, f]"] base(2) by (auto simp: target)
  from write_patch_accepts [OF assms(7) [folded s_def] assms(8) this, of os m] assms(9,10)
  show ?thesis by (simp add: target op_bind_def)
qed

text \<open>Concrete data for the witnesses.\<close>

definition quiet_os :: os_env where
  "quiet_os =
     \<lparr>process = (\<lambda>n argv cwd env limit. Exited (Some 0) [] []), elapsed_ms = (\<lambda>n. 0),
      mkdir_error = (\<lambda>d. None), write_error = (\<lambda>d. None)\<rparr>"

definition empty_machine :: machine where
  "empty_machine = \<lparr>files = [], started = [], ticks = 0\<rparr>"

theorem patches_stay_near_workspace_witness:
  "\<exists>x rest. [''w'', ''job'', ''a''] = butlast [''w'', ''job''] @ (last [''w'', ''job''] @ x) # rest"
proof -
  have "workspace_dir [''w'', ''job'']" by code_simp
  moreover have "dict_get (files (snd (write_patches quiet_os [''w'', ''job'']
      [\<lparr>patch_path = PStr ''a'', patch_content = PStr ''1''\<rparr>] empty_machine))) [''w'', ''job'', ''a''] \<noteq>
    dict_get (files empty_machine) [''w'', ''job'', ''a'']"
    by code_simp
  ultimately show ?thesis using patches_stay_near_workspace by blast
qed

theorem sibling_workspace_is_writable_witness:
  "dict_get (files (snd (write_patches quiet_os ([''w''] @ [''job1''])
     [\<lparr>patch_path = PStr (''../'' @ (''job1'' @ ''0'') @ ''/'' @ ''app.py''), patch_content = PStr ''x''\<rparr>]
     empty_machine))) ([''w''] @ [''job1'' @ ''0'', ''app.py'']) = Some ''x''"
proof (rule sibling_workspace_is_writable)
  show "workspace_dir ([''w''] @ [''job1''])" by code_simp
qed (simp_all add: quiet_os_def)

text \<open>A relative path without \<open>..\<close> names a file of the workspace.\<close>

lemma relative_target:
  assumes "workspace_dir dir" "take 1 s \<noteq> ''/''" "''..'' \<notin> set (path_segments s)"
  shows "target_of dir s = dir @ path_segments s"
  using assms resolve_plain [of "path_segments s" dir]
  by (simp add: target_of_def join_path_def workspace_dir_def)

text \<open>
  Without an environment the docker runner starts \<open>docker run\<close> with its own options and the image as
  the first nine arguments; the command comes after them, where docker reads it as the command of the
  container.
\<close>

definition sandboxed :: "string \<Rightarrow> string \<Rightarrow> string list \<Rightarrow> string \<Rightarrow> bool" where
  "sandboxed img network argv cwd \<longleftrightarrow>
     take 9 argv = [''docker'', ''run'', ''--rm'', ''--network='' @ network, ''-v'',
       path_str (resolve (path_segments cwd)) @ '':/workspace:rw'', ''-w'', ''/workspace'', img]"

lemma docker_command_sandboxed: "sandboxed img network (docker_command img network argv cwd None) cwd"
  by (simp add: sandboxed_def docker_command_def)

end
