(* ===== verification/Code_Generation.thy ===== *)
theory Code_Generation
  imports Provider_Manager Workspace
begin

text \<open>
  \<open>workers/codegen.py\<close>: a goal becomes a request to the provider manager, the answer is parsed
  into file patches. The JSON decoder is a parameter (\<open>None\<close>: not a JSON text).
\<close>

abbreviation newline :: char where "newline \<equiv> CHR 0x0A"

record GenerationResult =
  gen_provider :: string
  gen_patches :: "FilePatch list"
  gen_notes :: string
  gen_total_tokens :: int
  degraded :: bool

definition codegen_system :: string where
  "codegen_system =
     ''You are an expert software engineer working inside an automated build runtime. '' @
     ''Generate the COMPLETE files needed to accomplish the goal. '' @
     ''Respond with ONLY a JSON object, no prose, matching this schema: '' @
     map (\<lambda>c. if c = CHR ''`'' then dquote else c)
       (''{`files`: [{`path`: `<relative/path>`, `content`: `<full file contents>`}], '' @
        ''`notes`: `<short summary>`}. '') @
     ''Paths are relative to the project root and must not start with '' @ [squote] @ ''/'' @ [squote] @
     '' or contain '' @ [squote] @ ''..'' @ [squote] @ ''. '' @
     ''Return complete, runnable files - never elide with '' @ [squote] @ ''...'' @ [squote] @ ''.''"

definition build_request :: "int \<Rightarrow> string \<Rightarrow> string \<Rightarrow> LLMRequest" where
  "build_request limit goal context =
     (let user = ''Goal:'' @ [newline] @ goal @ [newline] @
            (if context \<noteq> [] then [newline] @ ''Context / constraints:'' @ [newline] @ context @ [newline]
             else []) @
            [newline] @ ''Return the JSON object now.''
      in \<lparr>req_model = ''auto'',
          messages = [\<lparr>msg_role = ''system'', msg_content = codegen_system, msg_metadata = []\<rparr>,
                      \<lparr>msg_role = ''user'', msg_content = user, msg_metadata = []\<rparr>],
          max_tokens = Some limit, temperature = Some 0, top_p = None, stop = None,
          response_format = Some ''json'', req_tools = None, req_metadata = []\<rparr>)"

text \<open>An entry of \<open>files\<close> that is not a usable patch is skipped.\<close>

fun patch_of :: "pyval \<Rightarrow> FilePatch option" where
  "patch_of (PDict d) =
     (case (dict_get d ''path'', dict_get d ''content'') of
        (Some (PStr p), Some (PStr c)) \<Rightarrow>
          if p \<noteq> [] then Some \<lparr>patch_path = PStr p, patch_content = PStr c\<rparr> else None
      | _ \<Rightarrow> None)"
| "patch_of _ = None"

definition parse_generation ::
  "(string \<Rightarrow> pyval option) \<Rightarrow> string \<Rightarrow> FilePatch list \<times> string \<times> bool" where
  "parse_generation json_loads content =
     (case json_loads content of
        Some (PDict d) \<Rightarrow>
          (let notes = py_str (dict_get_default d ''notes'' (PStr [])) in
           case dict_get_default d ''files'' (PList []) of
             PList vs \<Rightarrow> (let ps = List.map_filter patch_of vs in (ps, notes, ps = []))
           | _ \<Rightarrow> ([], notes, True))
      | _ \<Rightarrow> ([], take 200 content, True))"

definition generate ::
  "environment \<Rightarrow> (string \<Rightarrow> pyval option) \<Rightarrow> Capability \<Rightarrow> int \<Rightarrow> string \<Rightarrow> string \<Rightarrow> manager \<Rightarrow>
     (exn + GenerationResult) \<times> manager" where
  "generate env json_loads c limit goal context m =
     (case manager_complete env (build_request limit goal context) c None m of
        (Inl e, m') \<Rightarrow> (Inl e, m')
      | (Inr r, m') \<Rightarrow>
          (case parse_generation json_loads (inv_content r) of (ps, notes, deg) \<Rightarrow>
             (Inr \<lparr>gen_provider = inv_provider r, gen_patches = ps, gen_notes = notes,
                  gen_total_tokens = inv_total_tokens r, degraded = deg\<rparr>, m')))"

text \<open>
  Every patch of an answer has a non-empty path and a text; an answer without patches is
  degraded, and nothing else is.
\<close>

definition usable_patch :: "FilePatch \<Rightarrow> bool" where
  "usable_patch p \<longleftrightarrow> (\<exists>s c. patch_path p = PStr s \<and> s \<noteq> [] \<and> patch_content p = PStr c)"

lemma patch_of_usable: "patch_of v = Some p \<Longrightarrow> usable_patch p"
  by (cases v) (auto simp: usable_patch_def split: option.splits pyval.splits if_splits)

lemma map_filter_usable: "\<forall>p \<in> set (List.map_filter patch_of vs). usable_patch p"
  unfolding List.map_filter_def set_map set_filter using patch_of_usable by fastforce

lemma parse_generation_patches:
  "parse_generation json_loads content = (ps, notes, deg) \<Longrightarrow>
     (deg \<longleftrightarrow> ps = []) \<and> (\<forall>p \<in> set ps. usable_patch p)"
  using map_filter_usable by (auto simp: parse_generation_def Let_def split: option.splits pyval.splits)

end
