(* ===== verification/OpenClaw.thy ===== *)
theory OpenClaw
  imports Code_Generation Task_Models
begin

text \<open>
  \<open>workers/openclaw.py\<close> with the reports, the task source and the artifact stores of
  \<open>workers/contracts.py\<close> and \<open>workers/runners.py\<close>: one task is executed in its workspace, attempt
  by attempt. The worker's state extends the machine by its event bus, its artifact store, the
  tasks waiting in its source and the manager of its code generator.
\<close>

record StepResult =
  step_name :: string
  step_command :: "string list"
  step_exit_code :: int
  step_success :: bool
  step_duration_ms :: int
  stdout_tail :: string
  stderr_tail :: string

record ExecutionReport =
  rep_task_id :: string
  rep_worker :: string
  rep_branch :: string
  rep_success :: bool
  rep_attempts :: int
  rep_steps :: "StepResult list"
  rep_artifacts :: "string list"
  rep_error :: "string option"
  rep_failed_step :: "string option"

definition step_dict :: "StepResult \<Rightarrow> pyval" where
  "step_dict s = PDict
     [(''name'', PStr (step_name s)), (''command'', PList (map PStr (step_command s))),
      (''exit_code'', PInt (step_exit_code s)), (''success'', PBool (step_success s)),
      (''duration_ms'', PInt (step_duration_ms s)), (''stdout_tail'', PStr (stdout_tail s)),
      (''stderr_tail'', PStr (stderr_tail s))]"

definition report_dict :: "ExecutionReport \<Rightarrow> pyval" where
  "report_dict r = PDict
     [(''task_id'', PStr (rep_task_id r)), (''worker'', PStr (rep_worker r)),
      (''branch'', PStr (rep_branch r)), (''success'', PBool (rep_success r)),
      (''attempts'', PInt (rep_attempts r)), (''error'', dump_opt PStr (rep_error r)),
      (''failed_step'', dump_opt PStr (rep_failed_step r)),
      (''steps'', PList (map step_dict (rep_steps r))),
      (''artifacts'', PList (map PStr (rep_artifacts r)))]"

text \<open>The two artifact stores; the second keeps its files on the machine.\<close>

datatype artifact_store = MemoryStore "(string, string) dict" | FileStore "string list"

record worker = machine +
  w_bus :: event_bus
  w_artifacts :: "artifact_store option"
  w_source :: "Task list"
  w_manager :: manager

text \<open>
  What is fixed for a worker: the machine's behaviour, the runner, the base directory of the
  workspaces, the token limit of its generator if it has one, the behaviour of the vendors, and
  the JSON and float conversions.
\<close>

record worker_conf =
  conf_os :: os_env
  conf_runner :: runner
  conf_base :: "string list"
  conf_generator :: "int option"
  conf_env :: environment
  json_loads :: "string \<Rightarrow> pyval option"
  json_dumps :: "pyval \<Rightarrow> string"
  float_of_str :: "string \<Rightarrow> rat option"

definition worker_name :: string where "worker_name = ''openclaw''"
definition gen_step_name :: string where "gen_step_name = ''generate''"

definition worker_emit :: "worker_event \<Rightarrow> (worker, unit) op" where
  "worker_emit e = op_modify (\<lambda>w. w\<lparr>w_bus := publish (Worker_Event e) (w_bus w)\<rparr>)"

section \<open>The payload\<close>

text \<open>\<open>_patches\<close> and \<open>_steps\<close>.\<close>

definition payload_list :: "Task \<Rightarrow> string \<Rightarrow> pyval list" where
  "payload_list t k = (case dict_get (payload t) k of Some (PList vs) \<Rightarrow> vs | _ \<Rightarrow> [])"

definition key_error :: "string \<Rightarrow> exn" where
  "key_error k = PyExn ''KeyError'' (repr_str k)"

text \<open>\<open>v[k]\<close> with a string key.\<close>

fun py_item :: "pyval \<Rightarrow> string \<Rightarrow> exn + pyval" where
  "py_item (PDict d) k = (case dict_get d k of Some v \<Rightarrow> Inr v | None \<Rightarrow> Inl (key_error k))"
| "py_item (PList vs) k = Inl (PyExn ''TypeError'' ''list indices must be integers or slices, not str'')"
| "py_item (PStr s) k = Inl (PyExn ''TypeError'' ''string indices must be integers, not str'')"
| "py_item _ k = Inl (PyExn ''TypeError'' ''object is not subscriptable'')"

definition static_patch :: "pyval \<Rightarrow> exn + FilePatch" where
  "static_patch v =
     try_bind (py_item v ''path'') (\<lambda>p.
     try_bind (py_item v ''content'') (\<lambda>c. Inr \<lparr>patch_path = p, patch_content = c\<rparr>))"

fun static_patches :: "pyval list \<Rightarrow> exn + FilePatch list" where
  "static_patches [] = Inr []"
| "static_patches (v # vs) =
     try_bind (static_patch v) (\<lambda>p. try_bind (static_patches vs) (\<lambda>ps. Inr (p # ps)))"

text \<open>\<open>tuple(str(c) for c in v)\<close>.\<close>

fun str_items :: "pyval \<Rightarrow> exn + string list" where
  "str_items (PList vs) = Inr (map py_str vs)"
| "str_items (PStr s) = Inr (map (\<lambda>c. [c]) s)"
| "str_items (PDict d) = Inr (dict_keys d)"
| "str_items _ = Inl (PyExn ''TypeError'' ''object is not iterable'')"

definition step_argv :: "pyval \<Rightarrow> exn + string list" where
  "step_argv spec = try_bind (py_item spec ''command'') str_items"

fun py_float :: "worker_conf \<Rightarrow> pyval \<Rightarrow> exn + rat" where
  "py_float cf (PInt i) = Inr (of_int i)"
| "py_float cf (PBool b) = Inr (if b then 1 else 0)"
| "py_float cf (PFloat q) = Inr q"
| "py_float cf (PStr s) =
     (case float_of_str cf s of Some q \<Rightarrow> Inr q
      | None \<Rightarrow> Inl (PyExn ''ValueError'' (''could not convert string to float: '' @ repr_str s)))"
| "py_float cf _ = Inl (PyExn ''TypeError'' ''float() argument must be a string or a real number'')"

section \<open>The generation phase\<close>

definition failed_gen_step :: "string \<Rightarrow> StepResult" where
  "failed_gen_step reason =
     \<lparr>step_name = gen_step_name, step_command = [''<llm:generate>''], step_exit_code = 1,
      step_success = False, step_duration_ms = 0, stdout_tail = [], stderr_tail = take 600 reason\<rparr>"

definition generated_step :: "GenerationResult \<Rightarrow> StepResult" where
  "generated_step g =
     \<lparr>step_name = gen_step_name, step_command = [''<llm:generate>''], step_exit_code = 0,
      step_success = True, step_duration_ms = 0,
      stdout_tail = nat_digits (length (gen_patches g)) @ '' file(s) via '' @ gen_provider g,
      stderr_tail = []\<rparr>"

definition call_generator :: "worker_conf \<Rightarrow> int \<Rightarrow> string \<Rightarrow> string \<Rightarrow> (worker, GenerationResult) op" where
  "call_generator cf limit goal context w =
     (case generate (conf_env cf) (json_loads cf) CODE_GENERATION limit goal context (w_manager w) of
        (r, m) \<Rightarrow> (r, w\<lparr>w_manager := m\<rparr>))"

text \<open>\<open>try ... except NoProviderAvailable\<close>.\<close>

definition op_catch :: "error_class \<Rightarrow> ('s, 'a) op \<Rightarrow> ('s, exn + 'a) op" where
  "op_catch c m s =
     (case m s of
        (Inr x, s') \<Rightarrow> (Inr (Inr x), s')
      | (Inl e, s') \<Rightarrow> (if isinstance_exn e c then (Inr (Inl e), s') else (Inl e, s')))"

text \<open>What is done with the generator's answer.\<close>

definition after_generation ::
  "Task \<Rightarrow> exn + GenerationResult \<Rightarrow> (worker, FilePatch list \<times> StepResult option) op" where
  "after_generation t r =
     (case r of
        Inl e \<Rightarrow> op_return ([], Some (failed_gen_step (''no provider available: '' @ exn_message e)))
      | Inr g \<Rightarrow>
          if degraded g \<or> gen_patches g = []
          then op_return ([], Some (failed_gen_step ''provider returned no usable files''))
          else
            op_bind (worker_emit (TaskCodeGenerated (task_id t) (gen_provider g)
                       (int (length (gen_patches g))) (gen_total_tokens g))) (\<lambda>_.
            op_bind (worker_emit (TaskStepCompleted (task_id t) gen_step_name 0 True 0)) (\<lambda>_.
            op_return (gen_patches g, Some (generated_step g)))))"

definition run_generate :: "worker_conf \<Rightarrow> Task \<Rightarrow> (worker, FilePatch list \<times> StepResult option) op" where
  "run_generate cf t =
     (case (dict_get (payload t) ''generate'', conf_generator cf) of
        (Some (PDict spec), Some limit) \<Rightarrow>
          op_bind (op_catch NoProviderAvailable
              (call_generator cf limit (py_str (dict_get_default spec ''goal'' (PStr [])))
                 (py_str (dict_get_default spec ''context'' (PStr []))))) (after_generation t)
      | _ \<Rightarrow> op_return ([], None))"

section \<open>Steps\<close>

definition last_600 :: "string \<Rightarrow> string" where
  "last_600 s = drop (length s - 600) s"

definition step_result :: "string \<Rightarrow> string list \<Rightarrow> CommandResult \<Rightarrow> StepResult" where
  "step_result nm argv r =
     \<lparr>step_name = nm, step_command = argv, step_exit_code = exit_code r, step_success = cmd_success r,
      step_duration_ms = duration_ms r, stdout_tail = last_600 (stdout r), stderr_tail = last_600 (stderr r)\<rparr>"

text \<open>One step of the plan. Its name is only looked up after its command has run.\<close>

definition run_step :: "worker_conf \<Rightarrow> Task \<Rightarrow> string list \<Rightarrow> rat \<Rightarrow> pyval \<Rightarrow> (worker, StepResult) op" where
  "run_step cf t dir limit spec =
     op_bind (op_lift (step_argv spec)) (\<lambda>argv.
     op_bind (run_command (conf_os cf) (conf_runner cf) argv (path_str dir) None (Some limit)) (\<lambda>r.
     op_bind (op_lift (py_item spec ''name'')) (\<lambda>nm.
     let s = step_result (py_str nm) argv r in
     op_bind (worker_emit (TaskStepCompleted (task_id t) (step_name s) (step_exit_code s)
                (step_success s) (step_duration_ms s))) (\<lambda>_.
     op_return s))))"

fun run_steps ::
  "worker_conf \<Rightarrow> Task \<Rightarrow> string list \<Rightarrow> rat \<Rightarrow> pyval list \<Rightarrow> (worker, StepResult list) op" where
  "run_steps cf t dir limit [] = op_return []"
| "run_steps cf t dir limit (spec # specs) =
     op_bind (run_step cf t dir limit spec) (\<lambda>s.
       if \<not> step_success s then op_return [s]
       else op_bind (run_steps cf t dir limit specs) (\<lambda>ss. op_return (s # ss)))"

text \<open>\<open>failed_step\<close>: the name of the step that failed; steps end at the first failure.\<close>

definition failed_name :: "StepResult list \<Rightarrow> string option" where
  "failed_name ss = map_option step_name (List.find (\<lambda>s. \<not> step_success s) ss)"

section \<open>Artifacts\<close>

definition artifact_put :: "worker_conf \<Rightarrow> string \<Rightarrow> string \<Rightarrow> string \<Rightarrow> (worker, string list) op" where
  "artifact_put cf i nm content w =
     (case w_artifacts w of
        None \<Rightarrow> (Inr [], w)
      | Some (MemoryStore d) \<Rightarrow>
          (let key = i @ ''/'' @ nm in
           (Inr [''mem://'' @ key], w\<lparr>w_artifacts := Some (MemoryStore (dict_set key content d))\<rparr>))
      | Some (FileStore dir) \<Rightarrow>
          (let target = join_path (join_path dir i) nm in
           case mkdir_error (conf_os cf) (butlast target) of
             Some e \<Rightarrow> (Inl e, w)
           | None \<Rightarrow>
               (case write_error (conf_os cf) target of
                  Some e \<Rightarrow> (Inl e, w)
                | None \<Rightarrow> (Inr [path_str target],
                            w\<lparr>files := dict_set (resolve target) content (files w)\<rparr>))))"

definition persist_report ::
  "worker_conf \<Rightarrow> Task \<Rightarrow> string \<Rightarrow> bool \<Rightarrow> int \<Rightarrow> StepResult list \<Rightarrow> string option \<Rightarrow> (worker, string list) op" where
  "persist_report cf t branch ok k ss failed =
     artifact_put cf (task_id t) (''report-attempt-'' @ int_str k @ ''.json'')
       (json_dumps cf (report_dict
          \<lparr>rep_task_id = task_id t, rep_worker = worker_name, rep_branch = branch, rep_success = ok,
           rep_attempts = k, rep_steps = ss, rep_artifacts = [], rep_error = None, rep_failed_step = failed\<rparr>))"

section \<open>Execution\<close>

text \<open>The generation phase, the patches, the timeout and the steps: the steps recorded.\<close>

definition run_plan :: "worker_conf \<Rightarrow> Task \<Rightarrow> string list \<Rightarrow> (worker, StepResult list) op" where
  "run_plan cf t dir =
     op_bind (op_lift (static_patches (payload_list t ''patches''))) (\<lambda>static.
     op_bind (run_generate cf t) (\<lambda>(gen, gen_step).
     let ok = (case gen_step of None \<Rightarrow> True | Some s \<Rightarrow> step_success s) in
     op_bind (if ok then write_patches (conf_os cf) dir (gen @ static) else op_return []) (\<lambda>_.
     op_bind (op_lift (py_float cf (dict_get_default (payload t) ''timeout'' (PFloat 120)))) (\<lambda>limit.
     op_bind (run_steps cf t dir limit (if ok then payload_list t ''steps'' else [])) (\<lambda>ss.
     op_return ((case gen_step of None \<Rightarrow> [] | Some s \<Rightarrow> [s]) @ ss))))))"

definition report_of :: "Task \<Rightarrow> string \<Rightarrow> int \<Rightarrow> StepResult list \<Rightarrow> string list \<Rightarrow> ExecutionReport" where
  "report_of t branch k ss arts =
     (let failed = failed_name ss in
      \<lparr>rep_task_id = task_id t, rep_worker = worker_name, rep_branch = branch,
       rep_success = (failed = None), rep_attempts = k, rep_steps = ss, rep_artifacts = arts,
       rep_error = (case failed of None \<Rightarrow> None | Some nm \<Rightarrow> Some (''step '' @ repr_str nm @ '' failed'')),
       rep_failed_step = failed\<rparr>)"

text \<open>\<open>x or default\<close> on an optional string.\<close>

definition or_default :: "string option \<Rightarrow> string \<Rightarrow> string" where
  "or_default s d = (case s of Some x \<Rightarrow> if x \<noteq> [] then x else d | None \<Rightarrow> d)"

definition verdict_event :: "ExecutionReport \<Rightarrow> worker_event" where
  "verdict_event r =
     (if rep_success r
      then TaskExecutionSucceeded (rep_task_id r) (rep_worker r) (rep_branch r) (rep_attempts r) (rep_artifacts r)
      else TaskExecutionFailed (rep_task_id r) (rep_worker r) (or_default (rep_failed_step r) ''unknown'')
             (rep_attempts r) (or_default (rep_error r) ''execution failed''))"

definition execute_once :: "worker_conf \<Rightarrow> Task \<Rightarrow> int \<Rightarrow> (worker, ExecutionReport) op" where
  "execute_once cf t k =
     op_bind (create_workspace (conf_os cf) (conf_runner cf) (conf_base cf) (task_id t)) (\<lambda>ws.
     op_bind (worker_emit (TaskExecutionStarted (task_id t) (task_type t) worker_name (ws_branch ws) k)) (\<lambda>_.
     op_bind (run_plan cf t (ws_root ws)) (\<lambda>ss.
     op_bind (persist_report cf t (ws_branch ws) (failed_name ss = None) k ss (failed_name ss)) (\<lambda>arts.
     let r = report_of t (ws_branch ws) k ss arts in
     op_bind (worker_emit (verdict_event r)) (\<lambda>_. op_return r)))))"

text \<open>The attempts from number \<open>k\<close> on, \<open>n\<close> of them left.\<close>

fun attempts_from :: "worker_conf \<Rightarrow> Task \<Rightarrow> int \<Rightarrow> nat \<Rightarrow> int \<Rightarrow> (worker, ExecutionReport) op" where
  "attempts_from cf t mx 0 k = op_raise (PyExn ''RuntimeError'' ''no execution attempt was made'')"
| "attempts_from cf t mx (Suc n) k =
     op_bind (execute_once cf t k) (\<lambda>r.
       if rep_success r \<or> \<not> k < mx then op_return r
       else op_bind (worker_emit (TaskRetryScheduled (task_id t) k mx
                        (or_default (rep_failed_step r) ''execution failed''))) (\<lambda>_.
            attempts_from cf t mx n (k + 1)))"

definition attempt_limit :: "Task \<Rightarrow> int" where
  "attempt_limit t = max 1 (max_attempts t)"

definition execute :: "worker_conf \<Rightarrow> Task \<Rightarrow> (worker, ExecutionReport) op" where
  "execute cf t = attempts_from cf t (attempt_limit t) (nat (attempt_limit t)) 1"

definition claim :: "(worker, Task option) op" where
  "claim w = (case w_source w of [] \<Rightarrow> (Inr None, w) | t # ts \<Rightarrow> (Inr (Some t), w\<lparr>w_source := ts\<rparr>))"

definition consume_once :: "worker_conf \<Rightarrow> (worker, ExecutionReport option) op" where
  "consume_once cf =
     op_bind claim (\<lambda>t. case t of None \<Rightarrow> op_return None
       | Some t \<Rightarrow> op_bind (execute cf t) (\<lambda>r. op_return (Some r)))"

section \<open>What the phases leave alone\<close>

text \<open>
  \<open>plan_frame\<close>: relations between workers that the generation phase, the patches and the steps
  keep; \<open>execution_frame\<close>: relations that everything an execution does keeps. Each primitive
  effect of the worker is one law.
\<close>

locale plan_frame = frame_relation R
  for R :: "worker \<Rightarrow> worker \<Rightarrow> bool" +
  fixes cf :: worker_conf
  assumes frame_manager: "R w (w\<lparr>w_manager := m\<rparr>)"
    and frame_files: "R w (w\<lparr>files := fs\<rparr>)"
    and frame_artifacts: "R w (w\<lparr>w_artifacts := a\<rparr>)"
    and frame_run: "R w (snd (run_command (conf_os cf) (conf_runner cf) argv cwd None limit w))"
    and frame_generated: "R w (snd (worker_emit (TaskCodeGenerated i p n k) w))"
    and frame_step: "R w (snd (worker_emit (TaskStepCompleted i nm c ok ms) w))"
begin

lemma frame_workspace: "R w (snd (create_workspace (conf_os cf) (conf_runner cf) base i w))"
  by (auto simp: create_workspace_def init_branch_def Let_def frame_refl
      split: option.split intro!: frame_bind frame_run)

lemma frame_patch: "R w (snd (write_patch os dir p w))"
  by (cases rule: write_patch_cases [of os dir p w]) (simp_all add: frame_refl frame_files)

lemma frame_patches: "R w (snd (write_patches os dir ps w))"
  by (induction ps arbitrary: w) (auto intro!: frame_bind frame_patch simp: frame_refl)

lemma frame_generate: "R w (snd (run_generate cf t w))"
proof -
  have call: "R w (snd (op_catch NoProviderAvailable (call_generator cf n g c) w))" for w n g c
    by (auto simp: op_catch_def call_generator_def frame_manager split: prod.split sum.split)
  show ?thesis
    by (auto simp: run_generate_def after_generation_def frame_refl split: option.split pyval.split sum.split
        intro!: frame_bind call frame_generated frame_step)
qed

lemma frame_run_step: "R w (snd (run_step cf t dir limit spec w))"
  by (auto simp: run_step_def Let_def frame_refl intro!: frame_bind frame_run frame_step)

lemma frame_run_steps: "R w (snd (run_steps cf t dir limit specs w))"
  by (induction specs arbitrary: w) (auto intro!: frame_bind frame_run_step simp: frame_refl)

lemma frame_plan: "R w (snd (run_plan cf t dir w))"
  by (auto simp: run_plan_def Let_def frame_refl
      intro!: frame_bind frame_generate frame_patches frame_run_steps split: prod.split)

lemma frame_persist: "R w (snd (persist_report cf t branch ok k ss failed w))"
  by (auto simp: persist_report_def artifact_put_def Let_def frame_refl frame_artifacts frame_files
      split: option.split artifact_store.split)

end

locale execution_frame = plan_frame R cf
  for R :: "worker \<Rightarrow> worker \<Rightarrow> bool" and cf :: worker_conf +
  assumes frame_emit: "R w (snd (worker_emit e w))"
begin

lemma frame_once: "R w (snd (execute_once cf t k w))"
  by (auto simp: execute_once_def Let_def frame_refl
      intro!: frame_bind frame_workspace frame_plan frame_persist frame_emit)

lemma frame_attempts: "R w (snd (attempts_from cf t mx n k w))"
  by (induction n arbitrary: k w) (auto simp: frame_refl intro!: frame_bind frame_once frame_emit)

lemma frame_execute: "R w (snd (execute cf t w))"
  by (simp add: execute_def frame_attempts)

end

lemma worker_emit_state [simp]:
  "worker_emit e w = (Inr (), w\<lparr>w_bus := publish (Worker_Event e) (w_bus w)\<rparr>)"
  by (simp add: worker_emit_def)

lemma local_run_state:
  "snd (local_run os argv cwd env limit w) =
     w\<lparr>started := started w @ [(argv, cwd)], ticks := ticks w + 1\<rparr>"
  by (simp add: local_run_def)

lemma run_command_state:
  "\<exists>argv'. snd (run_command os r argv cwd None limit w) =
     w\<lparr>started := started w @ [(argv', cwd)], ticks := ticks w + 1\<rparr> \<and>
     (case r of LocalRunner \<Rightarrow> argv' = argv | DockerRunner img nw \<Rightarrow> sandboxed img nw argv' cwd)"
  by (auto simp: run_command_def local_run_state docker_command_sandboxed split: runner.split)

text \<open>The tasks that wait are not touched by executing one.\<close>

interpretation waiting: execution_frame "\<lambda>w w'. w_source w' = w_source w" cf for cf
proof unfold_locales
  fix w argv cwd limit
  show "w_source (snd (run_command (conf_os cf) (conf_runner cf) argv cwd None limit w)) = w_source w"
    using run_command_state [of "conf_os cf" "conf_runner cf" argv cwd limit w] by auto
qed auto

text \<open>Draining the source: it shrinks with every task, so the loop ends.\<close>

lemma consume_once_source:
  assumes "consume_once cf w = (Inr (Some r), w')"
  shows "length (w_source w') < length (w_source w)"
proof -
  from assms obtain t ts where src: "w_source w = t # ts"
    and "op_bind (execute cf t) (\<lambda>r. op_return (Some r)) (w\<lparr>w_source := ts\<rparr>) = (Inr (Some r), w')"
    by (auto simp: consume_once_def op_bind_Inr claim_def split: list.splits)
  then have "w' = snd (execute cf t (w\<lparr>w_source := ts\<rparr>))" by (auto simp: op_bind_Inr)
  with waiting.frame_execute [of cf t "w\<lparr>w_source := ts\<rparr>"] src show ?thesis by simp
qed

function run_forever :: "worker_conf \<Rightarrow> (nat \<Rightarrow> bool) \<Rightarrow> nat \<Rightarrow> (worker, unit) op" where
  "run_forever cf halt n w =
     (if halt n then (Inr (), w)
      else case consume_once cf w of
        (Inl e, w') \<Rightarrow> (Inl e, w')
      | (Inr None, w') \<Rightarrow> (Inr (), w')
      | (Inr (Some r), w') \<Rightarrow> run_forever cf halt (n + 1) w')"
  by pat_completeness auto
termination
  by (relation "measure (\<lambda>(cf, halt, n, w). length (w_source w))")
    (auto simp: consume_once_source [OF sym])

declare run_forever.simps [simp del]

lemma run_forever_drained:
  "run_forever cf (\<lambda>_. False) n w = (Inr (), w') \<Longrightarrow> w_source w' = []"
proof (induction "length (w_source w)" arbitrary: n w rule: less_induct)
  case less
  have claimed: "w_source w' = []" if "consume_once cf w = (Inr None, w')"
    using that by (auto simp: consume_once_def op_bind_Inr claim_def split: list.splits option.splits)
  have more: "w_source w' = []" if "consume_once cf w = (Inr (Some r), w1)"
    "run_forever cf (\<lambda>_. False) (n + 1) w1 = (Inr (), w')" for r w1
    using less.hyps [OF consume_once_source [OF that(1)] that(2)] .
  from less.prems show ?case
    by (subst (asm) run_forever.simps) (auto split: prod.splits sum.splits option.splits dest: claimed more)
qed

section \<open>What is started\<close>

interpretation boxed: execution_frame
  "\<lambda>w w'. \<exists>new. started w' = started w @ new \<and>
     (case conf_runner cf of LocalRunner \<Rightarrow> True
      | DockerRunner img nw \<Rightarrow> \<forall>(argv, cwd) \<in> set new. sandboxed img nw argv cwd)" cf for cf
proof unfold_locales
  fix w argv cwd limit
  show "\<exists>new. started (snd (run_command (conf_os cf) (conf_runner cf) argv cwd None limit w)) = started w @ new \<and>
     (case conf_runner cf of LocalRunner \<Rightarrow> True
      | DockerRunner img nw \<Rightarrow> \<forall>(argv, cwd) \<in> set new. sandboxed img nw argv cwd)"
    using run_command_state [of "conf_os cf" "conf_runner cf" argv cwd limit w]
    by (auto split: runner.splits)
qed (auto split: runner.splits)

text \<open>
  C21: A worker with the docker runner starts no process outside the container: whatever the task's
  payload and a provider's answer ask for, in every attempt and for the git commands of the
  workspace too, every process started is a \<open>docker run\<close> whose first nine arguments are fixed: the
  configured network, the working directory as the only mount, and the configured image. What the task
  asks for follows the image, so it can choose neither options of docker nor the image.
\<close>

theorem docker_worker_is_sandboxed:
  assumes "conf_runner cf = DockerRunner img nw"
  shows "\<exists>new. started (snd (execute cf t w)) = started w @ new \<and>
     (\<forall>(argv, cwd) \<in> set new.
        take 9 argv = [''docker'', ''run'', ''--rm'', ''--network='' @ nw, ''-v'',
          path_str (resolve (path_segments cwd)) @ '':/workspace:rw'', ''-w'', ''/workspace'', img])"
  using boxed.frame_execute [of cf t w] assms unfolding sandboxed_def by simp

section \<open>What the report says\<close>

lemma failed_name_None: "failed_name ss = None \<longleftrightarrow> (\<forall>s \<in> set ss. step_success s)"
  by (auto simp: failed_name_def find_None_iff)

lemma run_step_result:
  "run_step cf t dir limit spec w = (Inr s, w') \<Longrightarrow> step_argv spec = Inr (step_command s)"
  by (auto simp: run_step_def op_bind_Inr step_result_def Let_def)

text \<open>The steps of the plan run in order up to the first failure.\<close>

definition steps_follow :: "pyval list \<Rightarrow> StepResult list \<Rightarrow> bool" where
  "steps_follow specs ss \<longleftrightarrow>
     map (\<lambda>s. Inr (step_command s)) ss = map step_argv (take (length ss) specs) \<and>
     length ss \<le> length specs \<and> (\<forall>s \<in> set (butlast ss). step_success s) \<and>
     ((\<forall>s \<in> set ss. step_success s) \<longrightarrow> length ss = length specs)"

lemma run_steps_follow:
  "run_steps cf t dir limit specs w = (Inr ss, w') \<Longrightarrow> steps_follow specs ss"
proof (induction specs arbitrary: w ss)
  case (Cons spec specs)
  from Cons.prems obtain s w1 where s: "run_step cf t dir limit spec w = (Inr s, w1)"
    and rest: "(if \<not> step_success s then op_return [s]
       else op_bind (run_steps cf t dir limit specs) (\<lambda>ss. op_return (s # ss))) w1 = (Inr ss, w')"
    by (auto elim: op_bindE)
  show ?case
  proof (cases "step_success s")
    case True
    with rest obtain ss' where "ss = s # ss'" "run_steps cf t dir limit specs w1 = (Inr ss', w')"
      by (auto simp: op_bind_Inr)
    with Cons.IH True run_step_result [OF s] show ?thesis by (auto simp: steps_follow_def)
  next
    case False
    with rest run_step_result [OF s] show ?thesis by (auto simp: steps_follow_def)
  qed
qed (simp add: steps_follow_def)

text \<open>
  The record of an attempt: an optional generation step, then the plan's steps; none of them
  when the generation failed.
\<close>

definition steps_of_plan :: "Task \<Rightarrow> StepResult list \<Rightarrow> bool" where
  "steps_of_plan t ss \<longleftrightarrow>
     (\<exists>gen plan. ss = gen @ plan \<and>
        (gen = [] \<or> (\<exists>g. gen = [g] \<and> step_name g = gen_step_name)) \<and>
        (if \<forall>s \<in> set gen. step_success s then steps_follow (payload_list t ''steps'') plan else plan = []))"

lemma gen_step_names [simp]:
  "step_name (failed_gen_step reason) = gen_step_name" "step_name (generated_step g) = gen_step_name"
  by (simp_all add: failed_gen_step_def generated_step_def)

lemma run_generate_step:
  assumes "run_generate cf t w = (Inr (ps, Some s), w')"
  shows "step_name s = gen_step_name"
proof -
  from assms obtain r w1 where "after_generation t r w1 = (Inr (ps, Some s), w')"
    by (auto simp: run_generate_def op_bind_Inr split: option.splits pyval.splits)
  then show ?thesis by (cases r) (auto simp: after_generation_def op_bind_Inr split: if_splits)
qed

lemma run_plan_steps: "run_plan cf t dir w = (Inr ss, w') \<Longrightarrow> steps_of_plan t ss"
proof -
  assume "run_plan cf t dir w = (Inr ss, w')"
  then obtain static w1 ps gen w2 where gen: "run_generate cf t w1 = (Inr (ps, gen), w2)"
    and rest: "\<exists>w3 limit plan. run_steps cf t dir limit
        (if (case gen of None \<Rightarrow> True | Some s \<Rightarrow> step_success s) then payload_list t ''steps'' else []) w3
      = (Inr plan, w') \<and> ss = (case gen of None \<Rightarrow> [] | Some s \<Rightarrow> [s]) @ plan"
    by (fastforce simp: run_plan_def op_bind_Inr Let_def)
  from rest obtain w3 limit plan where plan: "run_steps cf t dir limit
        (if (case gen of None \<Rightarrow> True | Some s \<Rightarrow> step_success s) then payload_list t ''steps'' else []) w3
      = (Inr plan, w')" "ss = (case gen of None \<Rightarrow> [] | Some s \<Rightarrow> [s]) @ plan" by blast
  show ?thesis
  proof (cases gen)
    case None
    with plan run_steps_follow [of cf t dir limit "payload_list t ''steps''" w3 plan w'] show ?thesis
      unfolding steps_of_plan_def by (intro exI [of _ "[]"] exI [of _ plan]) simp
  next
    case (Some s)
    with gen run_generate_step have "step_name s = gen_step_name" by blast
    moreover from plan Some run_steps_follow [of cf t dir limit "payload_list t ''steps''" w3 plan w']
    have "if step_success s then steps_follow (payload_list t ''steps'') plan else plan = []"
      by auto
    ultimately show ?thesis
      using plan(2) Some unfolding steps_of_plan_def by (intro exI [of _ "[s]"] exI [of _ plan]) simp
  qed
qed

section \<open>What is announced\<close>

text \<open>The events of an attempt between its first and its last only report steps.\<close>

fun is_step_event :: "domain_event \<Rightarrow> bool" where
  "is_step_event (Worker_Event (TaskCodeGenerated _ _ _ _)) \<longleftrightarrow> True"
| "is_step_event (Worker_Event (TaskStepCompleted _ _ _ _ _)) \<longleftrightarrow> True"
| "is_step_event _ \<longleftrightarrow> False"

definition bus_grows :: "(domain_event \<Rightarrow> bool) \<Rightarrow> worker \<Rightarrow> worker \<Rightarrow> bool" where
  "bus_grows P w w' \<longleftrightarrow>
     (case w_bus w of None \<Rightarrow> w_bus w' = None
      | Some evs \<Rightarrow> \<exists>new. w_bus w' = Some (evs @ new) \<and> (\<forall>e \<in> set new. P e))"

lemma bus_grows_same: "w_bus w' = w_bus w \<Longrightarrow> bus_grows P w w'"
  by (simp add: bus_grows_def split: option.split)

lemma bus_grows_trans:
  assumes "bus_grows P w w1" "bus_grows P w1 w2"
  shows "bus_grows P w w2"
proof (cases "w_bus w")
  case (Some evs)
  with assms show ?thesis by (auto simp: bus_grows_def)
qed (use assms in \<open>simp add: bus_grows_def\<close>)

interpretation quiet: plan_frame "bus_grows is_step_event" cf for cf
proof unfold_locales
  fix w argv cwd limit
  show "bus_grows is_step_event w (snd (run_command (conf_os cf) (conf_runner cf) argv cwd None limit w))"
    using run_command_state [of "conf_os cf" "conf_runner cf" argv cwd limit w]
    by (auto intro: bus_grows_same)
qed (auto intro: bus_grows_same bus_grows_trans simp: bus_grows_def publish_def split: option.splits)

lemma create_workspace_branch:
  "create_workspace os r base i w = (Inr ws, w') \<Longrightarrow> ws_branch ws = branch_name i"
  by (auto simp: create_workspace_def Let_def op_bind_Inr split: option.splits)

lemma create_workspace_bus:
  "w_bus (snd (create_workspace (conf_os cf) (conf_runner cf) base i w)) = w_bus (w :: worker)"
proof -
  have "w_bus (snd (run_command os r argv cwd None limit w)) = w_bus w" for os r argv cwd limit and w :: worker
    using run_command_state [of os r argv cwd limit w] by auto
  then show ?thesis
    by (auto simp: create_workspace_def init_branch_def op_bind_def Let_def
        split: option.split prod.split sum.split) (metis snd_conv)+
qed

text \<open>The phases of an attempt that returns.\<close>

lemma execute_onceE:
  assumes "execute_once cf t k w = (Inr r, w')"
  obtains ws w1 ss w2 arts w3 where
    "create_workspace (conf_os cf) (conf_runner cf) (conf_base cf) (task_id t) w = (Inr ws, w1)"
    "run_plan cf t (ws_root ws) (snd (worker_emit
       (TaskExecutionStarted (task_id t) (task_type t) worker_name (ws_branch ws) k) w1)) = (Inr ss, w2)"
    "persist_report cf t (ws_branch ws) (failed_name ss = None) k ss (failed_name ss) w2 = (Inr arts, w3)"
    "r = report_of t (ws_branch ws) k ss arts" "w' = snd (worker_emit (verdict_event r) w3)"
  using assms by (auto simp: execute_once_def op_bind_Inr Let_def)

text \<open>One attempt that returns: what it announces and reports.\<close>

lemma execute_once_log:
  assumes "execute_once cf t k w = (Inr r, w')" "w_bus w = Some evs"
  shows "\<exists>mid. w_bus w' = Some (evs @
      Worker_Event (TaskExecutionStarted (task_id t) (task_type t) worker_name (branch_name (task_id t)) k) # mid @
      [Worker_Event (verdict_event r)]) \<and> (\<forall>e \<in> set mid. is_step_event e)"
    and "rep_attempts r = k"
proof -
  from assms(1) obtain ws w1 ss w2 arts w3 where
    ws: "create_workspace (conf_os cf) (conf_runner cf) (conf_base cf) (task_id t) w = (Inr ws, w1)"
    and ss: "run_plan cf t (ws_root ws) (snd (worker_emit
       (TaskExecutionStarted (task_id t) (task_type t) worker_name (ws_branch ws) k) w1)) = (Inr ss, w2)"
    and arts: "persist_report cf t (ws_branch ws) (failed_name ss = None) k ss (failed_name ss) w2 = (Inr arts, w3)"
    and r: "r = report_of t (ws_branch ws) k ss arts" "w' = snd (worker_emit (verdict_event r) w3)"
    by (rule execute_onceE)
  have w1: "w_bus w1 = Some evs"
    using create_workspace_bus [of cf "conf_base cf" "task_id t" w] ws assms(2) by simp
  let ?w1 = "snd (worker_emit
       (TaskExecutionStarted (task_id t) (task_type t) worker_name (ws_branch ws) k) w1)"
  have "bus_grows is_step_event ?w1 w3"
    using bus_grows_trans [OF quiet.frame_plan [of ?w1 cf t "ws_root ws"], of
        "snd (persist_report cf t (ws_branch ws) (failed_name ss = None) k ss (failed_name ss) w2)"]
      quiet.frame_persist [of w2 cf t "ws_branch ws" "failed_name ss = None" k ss "failed_name ss"] ss arts
    by simp
  with w1 r(2) create_workspace_branch [OF ws] show "\<exists>mid. w_bus w' = Some (evs @
      Worker_Event (TaskExecutionStarted (task_id t) (task_type t) worker_name (branch_name (task_id t)) k) # mid @
      [Worker_Event (verdict_event r)]) \<and> (\<forall>e \<in> set mid. is_step_event e)"
    by (auto simp: bus_grows_def publish_def)
  show "rep_attempts r = k" by (simp add: r(1) report_of_def Let_def)
qed

lemma execute_once_report:
  assumes "execute_once cf t k w = (Inr r, w')"
  shows "steps_of_plan t (rep_steps r)" "rep_failed_step r = failed_name (rep_steps r)"
    "rep_success r \<longleftrightarrow> (\<forall>s \<in> set (rep_steps r). step_success s)"
proof -
  from assms obtain ws w1 ss w2 arts w3 where
    ws: "create_workspace (conf_os cf) (conf_runner cf) (conf_base cf) (task_id t) w = (Inr ws, w1)"
    and ss: "run_plan cf t (ws_root ws) (snd (worker_emit
       (TaskExecutionStarted (task_id t) (task_type t) worker_name (ws_branch ws) k) w1)) = (Inr ss, w2)"
    and arts: "persist_report cf t (ws_branch ws) (failed_name ss = None) k ss (failed_name ss) w2 = (Inr arts, w3)"
    and r: "r = report_of t (ws_branch ws) k ss arts" "w' = snd (worker_emit (verdict_event r) w3)"
    by (rule execute_onceE)
  show "steps_of_plan t (rep_steps r)" "rep_failed_step r = failed_name (rep_steps r)"
    "rep_success r \<longleftrightarrow> (\<forall>s \<in> set (rep_steps r). step_success s)"
    using run_plan_steps [OF ss] failed_name_None [of ss] by (simp_all add: r report_of_def Let_def)
qed

lemma steps_of_planE:
  assumes "steps_of_plan t ss"
  obtains gen plan where "ss = gen @ plan" "length gen \<le> 1"
    "if \<forall>s \<in> set gen. step_success s then steps_follow (payload_list t ''steps'') plan else plan = []"
proof -
  from assms obtain gen plan where "ss = gen @ plan" "gen = [] \<or> (\<exists>g. gen = [g] \<and> step_name g = gen_step_name)"
    "if \<forall>s \<in> set gen. step_success s then steps_follow (payload_list t ''steps'') plan else plan = []"
    unfolding steps_of_plan_def by blast
  moreover from this(2) have "length gen \<le> 1" by auto
  ultimately show ?thesis using that by blast
qed

lemma find_snoc:
  "List.find P (xs @ [x]) = (case List.find P xs of Some y \<Rightarrow> Some y | None \<Rightarrow> if P x then Some x else None)"
  by (induction xs) auto

text \<open>Only the last recorded step can have failed.\<close>

lemma steps_of_plan_butlast: "steps_of_plan t ss \<Longrightarrow> \<forall>s \<in> set (butlast ss). step_success s"
proof -
  assume "steps_of_plan t ss"
  then obtain gen plan where ss: "ss = gen @ plan" and gen: "length gen \<le> 1"
    and plan: "if \<forall>s \<in> set gen. step_success s then steps_follow (payload_list t ''steps'') plan else plan = []"
    by (rule steps_of_planE)
  show ?thesis
  proof (cases "plan = []")
    case True
    with ss gen show ?thesis by (cases gen) auto
  next
    case False
    with plan have "\<forall>s \<in> set gen. step_success s" "\<forall>s \<in> set (butlast plan). step_success s"
      by (auto simp: steps_follow_def split: if_splits)
    with ss False show ?thesis by (auto simp: butlast_append)
  qed
qed

lemma failed_name_last:
  assumes "\<forall>s \<in> set (butlast ss). step_success s" "\<not> (\<forall>s \<in> set ss. step_success s)"
  shows "failed_name ss = Some (step_name (last ss))"
proof -
  from assms(2) have "ss \<noteq> []" by auto
  then have ss: "ss = butlast ss @ [last ss]" by simp
  with assms have "\<not> step_success (last ss)" by (metis Un_iff empty_iff empty_set insert_iff list.simps(15) set_append)
  moreover have "List.find (\<lambda>s. \<not> step_success s) (butlast ss) = None" using assms(1) by (auto simp: find_None_iff)
  ultimately have "List.find (\<lambda>s. \<not> step_success s) (butlast ss @ [last ss]) = Some (last ss)"
    by (simp add: find_snoc)
  with ss show ?thesis by (simp add: failed_name_def)
qed

text \<open>What a log says about attempts started, retries announced and verdicts.\<close>

fun started_attempt :: "domain_event \<Rightarrow> int option" where
  "started_attempt (Worker_Event (TaskExecutionStarted _ _ _ _ k)) = Some k"
| "started_attempt _ = None"

fun retried_attempt :: "domain_event \<Rightarrow> int option" where
  "retried_attempt (Worker_Event (TaskRetryScheduled _ k _ _)) = Some k"
| "retried_attempt _ = None"

fun verdict :: "domain_event \<Rightarrow> bool option" where
  "verdict (Worker_Event (TaskExecutionSucceeded _ _ _ _ _)) = Some True"
| "verdict (Worker_Event (TaskExecutionFailed _ _ _ _ _)) = Some False"
| "verdict _ = None"

lemma step_event_silent:
  assumes "\<forall>e \<in> set mid. is_step_event e"
  shows "List.map_filter started_attempt mid = []" "List.map_filter retried_attempt mid = []"
    "List.map_filter verdict mid = []"
proof -
  have "is_step_event e \<Longrightarrow> started_attempt e = None \<and> retried_attempt e = None \<and> verdict e = None" for e
    by (cases e rule: is_step_event.cases) simp_all
  with assms show "List.map_filter started_attempt mid = []" "List.map_filter retried_attempt mid = []"
    "List.map_filter verdict mid = []"
    by (auto simp: List.map_filter_def filter_empty_conv)
qed

lemma map_filter_append: "List.map_filter f (xs @ ys) = List.map_filter f xs @ List.map_filter f ys"
  by (simp add: List.map_filter_def)

lemma map_filter_one: "List.map_filter f [x] = (case f x of None \<Rightarrow> [] | Some y \<Rightarrow> [y])"
  by (simp add: List.map_filter_def split: option.split)

lemma verdict_of_report [simp]:
  "started_attempt (Worker_Event (verdict_event r)) = None"
  "retried_attempt (Worker_Event (verdict_event r)) = None"
  "verdict (Worker_Event (verdict_event r)) = Some (rep_success r)"
  by (simp_all add: verdict_event_def)

definition audited :: "int \<Rightarrow> ExecutionReport \<Rightarrow> domain_event list \<Rightarrow> bool" where
  "audited k r es \<longleftrightarrow>
     List.map_filter started_attempt es = [k..rep_attempts r] \<and>
     List.map_filter retried_attempt es = [k..rep_attempts r - 1] \<and>
     List.map_filter verdict es = replicate (nat (rep_attempts r - k)) False @ [rep_success r]"

lemmas audit_simps = audited_def map_filter_append map_filter_one step_event_silent

lemma audited_once:
  assumes "\<forall>e \<in> set mid. is_step_event e" "rep_attempts r = k"
  shows "audited k r (Worker_Event (TaskExecutionStarted i ty nm b k) # mid @ [Worker_Event (verdict_event r)])"
proof -
  have "List.map_filter f (x # xs) = List.map_filter f [x] @ List.map_filter f xs" for f xs and x :: domain_event
    using map_filter_append [of f "[x]" xs] by simp
  with assms show ?thesis by (simp add: audit_simps)
qed

lemma audited_retry:
  assumes "audited k r1 es1" "\<not> rep_success r1" "rep_attempts r1 = k" "audited (k + 1) r es2" "k + 1 \<le> rep_attempts r"
  shows "audited k r (es1 @ Worker_Event (TaskRetryScheduled i k mx reason) # es2)"
proof -
  have "List.map_filter f (x # xs) = List.map_filter f [x] @ List.map_filter f xs" for f xs and x :: domain_event
    using map_filter_append [of f "[x]" xs] by simp
  moreover have "[k..rep_attempts r] = k # [k + 1..rep_attempts r]" "[k..rep_attempts r - 1] = k # [k + 1..rep_attempts r - 1]"
    using assms(5) by (simp_all add: upto_rec1)
  moreover have "nat (rep_attempts r - k) = Suc (nat (rep_attempts r - (k + 1)))"
    using assms(5) by simp
  ultimately show ?thesis using assms(1-4) by (simp add: audit_simps)
qed

lemma attempts_from_log:
  "attempts_from cf t mx n k w = (Inr r, w') \<Longrightarrow> w_bus w = Some evs \<Longrightarrow> k \<le> mx \<Longrightarrow> n = nat (mx - k + 1) \<Longrightarrow>
   k \<le> rep_attempts r \<and> rep_attempts r \<le> mx \<and> (rep_success r \<or> rep_attempts r = mx) \<and>
   (\<exists>es. w_bus w' = Some (evs @ es) \<and> audited k r es)"
proof (induction n arbitrary: k w evs)
  case (Suc n)
  from Suc.prems(1) obtain r1 w1 where once: "execute_once cf t k w = (Inr r1, w1)"
    and rest: "(if rep_success r1 \<or> \<not> k < mx then op_return r1
       else op_bind (worker_emit (TaskRetryScheduled (task_id t) k mx
                        (or_default (rep_failed_step r1) ''execution failed''))) (\<lambda>_.
            attempts_from cf t mx n (k + 1))) w1 = (Inr r, w')"
    by (auto elim: op_bindE)
  note log1 = execute_once_log [OF once Suc.prems(2)]
  from log1(1,2) obtain es1 where es1: "w_bus w1 = Some (evs @ es1)" "audited k r1 es1"
    using audited_once by fastforce
  show ?case
  proof (cases "rep_success r1 \<or> \<not> k < mx")
    case True
    with rest es1 log1(2) Suc.prems(3) show ?thesis by auto
  next
    case False
    let ?e = "Worker_Event (TaskRetryScheduled (task_id t) k mx
                 (or_default (rep_failed_step r1) ''execution failed''))"
    from False rest have "attempts_from cf t mx n (k + 1) (w1\<lparr>w_bus := Some (evs @ es1 @ [?e])\<rparr>) = (Inr r, w')"
      by (simp add: op_bind_def es1(1) publish_def)
    moreover have "w_bus (w1\<lparr>w_bus := Some (evs @ es1 @ [?e])\<rparr>) = Some (evs @ es1 @ [?e])" by simp
    moreover have "k + 1 \<le> mx" "n = nat (mx - (k + 1) + 1)" using False Suc.prems(3,4) by auto
    ultimately have "k + 1 \<le> rep_attempts r \<and> rep_attempts r \<le> mx \<and> (rep_success r \<or> rep_attempts r = mx) \<and>
      (\<exists>es. w_bus w' = Some ((evs @ es1 @ [?e]) @ es) \<and> audited (k + 1) r es)"
      by (rule Suc.IH)
    then obtain es2 where es2: "k + 1 \<le> rep_attempts r" "rep_attempts r \<le> mx" "rep_success r \<or> rep_attempts r = mx"
      "w_bus w' = Some (evs @ es1 @ ?e # es2)" "audited (k + 1) r es2"
      by (simp only: append_assoc append_Cons append_Nil) blast
    have "audited k r (es1 @ ?e # es2)"
      using audited_retry [OF es1(2) _ log1(2) es2(5,1)] False by blast
    with es2 show ?thesis by auto
  qed
qed simp

lemma attempts_from_report:
  "attempts_from cf t mx n k w = (Inr r, w') \<Longrightarrow>
     \<exists>k w w'. execute_once cf t k w = (Inr r, w')"
proof (induction n arbitrary: k w)
  case (Suc n)
  then show ?case by (auto simp: op_bind_Inr split: if_splits)
qed simp

text \<open>
  C9: An execution that returns made at least one attempt and at most \<open>max 1 max_attempts\<close>, and it
  stopped before the limit only with a success. Its events account for it exactly: the attempts
  started are numbered from 1 to the reported number, every attempt but the last is announced to
  be retried, and the verdicts are failures up to the last one, which is the report's.
\<close>

theorem execution_is_audited:
  assumes "execute cf t w = (Inr r, w')" "w_bus w = Some evs"
  shows "1 \<le> rep_attempts r \<and> rep_attempts r \<le> max 1 (max_attempts t) \<and>
    (rep_success r \<or> rep_attempts r = max 1 (max_attempts t)) \<and>
    (\<exists>es. w_bus w' = Some (evs @ es) \<and>
       List.map_filter started_attempt es = [1..rep_attempts r] \<and>
       List.map_filter retried_attempt es = [1..rep_attempts r - 1] \<and>
       List.map_filter verdict es = replicate (nat (rep_attempts r - 1)) False @ [rep_success r])"
  using attempts_from_log [OF assms(1) [unfolded execute_def] assms(2)]
  by (simp add: attempt_limit_def audited_def)

text \<open>
  C10: The report tells what happened. It is a success exactly if every recorded step succeeded;
  otherwise the failed step it names is the last one recorded. After an optional generation step
  the recorded commands are those of the task's plan, in order and without gaps, and a success
  means that the whole plan ran.
\<close>

theorem report_is_truthful:
  assumes "execute cf t w = (Inr r, w')"
  shows "(rep_success r \<longleftrightarrow> (\<forall>s \<in> set (rep_steps r). step_success s)) \<and>
    (rep_failed_step r = (if rep_success r then None else Some (step_name (last (rep_steps r))))) \<and>
    (\<exists>gen plan. rep_steps r = gen @ plan \<and> length gen \<le> 1 \<and>
       map (\<lambda>s. Inr (step_command s)) plan = map step_argv (take (length plan) (payload_list t ''steps'')) \<and>
       (rep_success r \<longrightarrow> length plan = length (payload_list t ''steps'')))"
proof -
  obtain k w1 w1' where once: "execute_once cf t k w1 = (Inr r, w1')"
    using attempts_from_report assms unfolding execute_def by blast
  note rep = execute_once_report [OF once]
  have "rep_failed_step r = (if rep_success r then None else Some (step_name (last (rep_steps r))))"
    using rep failed_name_None failed_name_last [OF steps_of_plan_butlast [OF rep(1)]] by auto
  moreover from rep(1) obtain gen plan where split: "rep_steps r = gen @ plan" "length gen \<le> 1"
    and plan: "if \<forall>s \<in> set gen. step_success s then steps_follow (payload_list t ''steps'') plan else plan = []"
    by (rule steps_of_planE)
  have "map (\<lambda>s. Inr (step_command s)) plan = map step_argv (take (length plan) (payload_list t ''steps''))"
    using plan by (auto simp: steps_follow_def split: if_splits)
  moreover have "length plan = length (payload_list t ''steps'')" if "rep_success r"
    using that rep(3) split(1) plan by (auto simp: steps_follow_def)
  ultimately show ?thesis using rep(3) split by blast
qed

section \<open>A sample worker\<close>

definition failing_os :: os_env where
  "failing_os = quiet_os\<lparr>process := (\<lambda>n argv cwd env limit.
     if take 1 argv = [''pytest''] then Exited (Some 1) [] ''E'' else Exited (Some 0) [] [])\<rparr>"

definition sample_conf :: "runner \<Rightarrow> worker_conf" where
  "sample_conf r =
     \<lparr>conf_os = failing_os, conf_runner = r, conf_base = [''w''], conf_generator = None,
      conf_env = sample_env, json_loads = (\<lambda>s. None), json_dumps = (\<lambda>v. []),
      float_of_str = (\<lambda>s. None)\<rparr>"

definition sample_worker :: worker where
  "sample_worker =
     \<lparr>files = [], started = [], ticks = 0, w_bus = Some [], w_artifacts = None, w_source = [],
      w_manager = sample_manager None\<rparr>"

definition test_task :: Task where
  "test_task =
     \<lparr>task_id = ''job'', workflow_id = None, task_status = PENDING, task_type = ''codegen'',
      payload = [(''steps'', PList
        [PDict [(''name'', PStr ''lint''), (''command'', PList [PStr ''ruff''])],
         PDict [(''name'', PStr ''test''), (''command'', PList [PStr ''pytest''])]])],
      task_result = None, task_provider = ''opencode'', attempts = 0, max_attempts = 2,
      task_error = None, created_at = [], updated_at = []\<rparr>"

lemmas worker_eval =
  sample_conf_def failing_os_def quiet_os_def sample_worker_def test_task_def execute_def attempt_limit_def
  execute_once_def create_workspace_def init_branch_def run_command_def local_run_def cmd_success_def
  output_tail_def run_plan_def payload_list_def run_generate_def run_step_def step_argv_def
  step_result_def last_600_def persist_report_def artifact_put_def report_of_def failed_name_def
  verdict_event_def op_bind_def publish_def dict_get_default_def

lemma sample_execution:
  "case fst (execute (sample_conf LocalRunner) test_task sample_worker) of
     Inr r \<Rightarrow> rep_attempts r = 2 \<and> rep_failed_step r = Some ''test'' | Inl _ \<Rightarrow> False"
  by (simp add: worker_eval numeral_2_eq_2 Let_def)

theorem execution_is_audited_witness:
  "\<exists>r w' es. execute (sample_conf LocalRunner) test_task sample_worker = (Inr r, w') \<and> w_bus w' = Some es \<and>
     List.map_filter started_attempt es = [1..2] \<and> List.map_filter verdict es = [False, False]"
proof -
  from sample_execution obtain r w' where
    ex: "execute (sample_conf LocalRunner) test_task sample_worker = (Inr r, w')" and
    r: "rep_attempts r = 2" "rep_failed_step r = Some ''test''"
    by (cases "execute (sample_conf LocalRunner) test_task sample_worker") (auto split: sum.splits)
  have "\<not> rep_success r" using attempts_from_report ex r unfolding execute_def by (metis execute_once_report(2,3) failed_name_None option.distinct(1))
  with execution_is_audited [OF ex, of "[]"] r ex show ?thesis by (auto simp: sample_worker_def)
qed

theorem report_is_truthful_witness:
  "\<exists>r w'. execute (sample_conf LocalRunner) test_task sample_worker = (Inr r, w') \<and> \<not> rep_success r \<and>
     step_name (last (rep_steps r)) = ''test''"
proof -
  from sample_execution obtain r w' where
    ex: "execute (sample_conf LocalRunner) test_task sample_worker = (Inr r, w')" and
    r: "rep_failed_step r = Some ''test''"
    by (cases "execute (sample_conf LocalRunner) test_task sample_worker") (auto split: sum.splits)
  from report_is_truthful [OF ex] r ex show ?thesis by (auto split: if_splits)
qed

theorem docker_worker_is_sandboxed_witness:
  "list_all (\<lambda>(argv, cwd). drop 8 (take 9 argv) = [''img''])
     (started (snd (execute (sample_conf (DockerRunner ''img'' ''none'')) test_task sample_worker)))"
  using docker_worker_is_sandboxed [of "sample_conf (DockerRunner ''img'' ''none'')" "''img''" "''none''"
      test_task sample_worker]
  by (auto simp: sample_conf_def sample_worker_def list_all_iff)

end
