(* ===== verification/Runtime_State.thy ===== *)
theory Runtime_State
  imports Py_Value Interfaces
begin

text \<open>
  \<open>runtime/state.py\<close>: the persisted progress of the runtime and its file-backed store. The state
  is a record with the model's defaults; its marks are pure. The store works on a file system that
  maps names to texts, with a fault for each system call of \<open>save\<close>; what writes and validates
  the JSON text is a parameter of the store.
\<close>

section \<open>The state\<close>

datatype RuntimePhase =
    BOOTSTRAPPING | RUNTIME_CORE | PROVIDERS | ROUTING | WORKERS | CHAINING | SELF_HEALING | CI_CD | STABLE

record RuntimeState =
  current_phase :: int
  current_prompt :: int
  completed_prompts :: "int list"
  failed_prompts :: "int list"
  architecture_version :: string
  runtime_phase :: RuntimePhase
  state_updated_at :: "string option"

definition default_state :: RuntimeState where
  "default_state =
     \<lparr>current_phase = 1, current_prompt = 1, completed_prompts = [], failed_prompts = [],
      architecture_version = ''v1'', runtime_phase = BOOTSTRAPPING, state_updated_at = None\<rparr>"

text \<open>\<open>sorted({*xs, p})\<close>.\<close>

definition sorted_with :: "int list \<Rightarrow> int \<Rightarrow> int list" where
  "sorted_with xs p = sorted_list_of_set (insert p (set xs))"

lemma sorted_with_simps [simp]:
  "set (sorted_with xs p) = insert p (set xs)" "sorted (sorted_with xs p)" "distinct (sorted_with xs p)"
  by (simp_all add: sorted_with_def del: sorted_list_of_set_insert_remove)

definition mark_completed :: "int \<Rightarrow> RuntimeState \<Rightarrow> RuntimeState" where
  "mark_completed p s = s\<lparr>
     completed_prompts := sorted_with (completed_prompts s) p,
     failed_prompts := filter (\<lambda>q. q \<noteq> p) (failed_prompts s),
     current_prompt := max (current_prompt s) (p + 1)\<rparr>"

definition mark_failed :: "int \<Rightarrow> RuntimeState \<Rightarrow> RuntimeState" where
  "mark_failed p s = s\<lparr>failed_prompts := sorted_with (failed_prompts s) p\<rparr>"

definition transition :: "RuntimePhase \<Rightarrow> RuntimeState \<Rightarrow> RuntimeState" where
  "transition ph s = s\<lparr>runtime_phase := ph\<rparr>"

section \<open>The store\<close>

type_synonym disk = "(string, string) dict"

text \<open>What the calls of \<open>save\<close> raise, the name \<open>mkstemp\<close> picks and the time read.\<close>

record save_env =
  mkdir_raises :: "exn option"
  mkstemp_raises :: "exn option"
  write_raises :: "exn option"
  replace_raises :: "exn option"
  unlink_raises :: "exn option"
  temp_name :: string
  save_time :: time

record state_codec =
  encode_state :: "RuntimeState \<Rightarrow> string"
  decode_state :: "string \<Rightarrow> exn + RuntimeState"

definition load_state :: "state_codec \<Rightarrow> string \<Rightarrow> disk \<Rightarrow> exn + RuntimeState" where
  "load_state cd path d =
     (case dict_get d path of None \<Rightarrow> Inr default_state | Some raw \<Rightarrow> decode_state cd raw)"

definition stamped :: "time \<Rightarrow> RuntimeState \<Rightarrow> RuntimeState" where
  "stamped t s = s\<lparr>state_updated_at := Some (isoformat (t - t mod 1000000))\<rparr>"

abbreviation remove_file :: "string \<Rightarrow> disk \<Rightarrow> disk" where
  "remove_file n d \<equiv> AList.delete n d"

text \<open>
  The temporary file exists (with some content) from \<open>mkstemp\<close> on; a fault while it is written or
  moved removes it and is raised again, unless the removal raises itself.
\<close>

definition discard_temp :: "save_env \<Rightarrow> exn \<Rightarrow> disk \<Rightarrow> (exn + RuntimeState) \<times> disk" where
  "discard_temp env e d =
     (case unlink_raises env of
        None \<Rightarrow> (Inl e, remove_file (temp_name env) d) | Some e' \<Rightarrow> (Inl e', d))"

definition save_state ::
  "save_env \<Rightarrow> state_codec \<Rightarrow> string \<Rightarrow> RuntimeState \<Rightarrow> disk \<Rightarrow> (exn + RuntimeState) \<times> disk" where
  "save_state env cd path s d =
     (let s' = stamped (save_time env) s; payload = encode_state cd s'; tmp = temp_name env in
      case mkdir_raises env of Some e \<Rightarrow> (Inl e, d) | None \<Rightarrow>
      (case mkstemp_raises env of Some e \<Rightarrow> (Inl e, d) | None \<Rightarrow>
       (let d1 = dict_set tmp [] d in
        case write_raises env of Some e \<Rightarrow> discard_temp env e d1 | None \<Rightarrow>
        (let d2 = dict_set tmp payload d1 in
         case replace_raises env of Some e \<Rightarrow> discard_temp env e d2 | None \<Rightarrow>
         (Inr s', dict_set path payload (remove_file tmp d2))))))"

text \<open>\<open>update\<close>: the callback may raise.\<close>

definition update_state ::
  "save_env \<Rightarrow> state_codec \<Rightarrow> string \<Rightarrow> (RuntimeState \<Rightarrow> exn + RuntimeState) \<Rightarrow> disk \<Rightarrow>
     (exn + RuntimeState) \<times> disk" where
  "update_state env cd path mutate d =
     (case load_state cd path d of
        Inl e \<Rightarrow> (Inl e, d)
      | Inr s \<Rightarrow> (case mutate s of Inl e \<Rightarrow> (Inl e, d) | Inr s' \<Rightarrow> save_state env cd path s' d))"

section \<open>Progress\<close>

datatype mark = Completed int | Failed int | Phase RuntimePhase

fun apply_mark :: "RuntimeState \<Rightarrow> mark \<Rightarrow> RuntimeState" where
  "apply_mark s (Completed p) = mark_completed p s"
| "apply_mark s (Failed p) = mark_failed p s"
| "apply_mark s (Phase ph) = transition ph s"

definition state_ok :: "RuntimeState \<Rightarrow> bool" where
  "state_ok s \<longleftrightarrow>
     sorted (completed_prompts s) \<and> distinct (completed_prompts s) \<and>
     sorted (failed_prompts s) \<and> distinct (failed_prompts s) \<and>
     (\<forall>p \<in> set (completed_prompts s). p < current_prompt s)"

interpretation progress: invariant_system apply_mark state_ok
proof unfold_locales
  fix s m
  assume "state_ok s"
  then show "state_ok (apply_mark s m)"
    by (cases m) (auto simp: state_ok_def mark_completed_def mark_failed_def transition_def sorted_wrt_filter less_max_iff_disj)
qed

text \<open>A prompt has failed if it was marked so after it was last marked completed.\<close>

fun last_failed :: "int \<Rightarrow> mark list \<Rightarrow> bool" where
  "last_failed p [] = False"
| "last_failed p (Failed q # ms) = (if q = p \<and> Completed p \<notin> set ms then True else last_failed p ms)"
| "last_failed p (m # ms) = last_failed p ms"

lemma run_marks:
  "set (completed_prompts (run apply_mark s ms)) = set (completed_prompts s) \<union> {p. Completed p \<in> set ms}"
  "p \<in> set (failed_prompts (run apply_mark s ms)) \<longleftrightarrow>
     last_failed p ms \<or> (p \<in> set (failed_prompts s) \<and> Completed p \<notin> set ms)"
proof (induction ms arbitrary: s)
  case (Cons m ms)
  { case 1 show ?case using Cons(1) by (cases m) (auto simp: mark_completed_def mark_failed_def transition_def) }
  { case 2 show ?case using Cons(2) by (cases m) (auto simp: mark_completed_def mark_failed_def transition_def) }
qed simp_all

text \<open>
  The persisted progress after any sequence of marks: the completed prompts are exactly the ones
  marked completed, the failed prompts exactly the ones marked failed since they were last completed,
  both in order without duplicates, and the current prompt is beyond every completed one. A prompt
  marked failed after its completion is in both lists.
\<close>

theorem progress_is_faithful:
  "let s = run apply_mark default_state ms in
     set (completed_prompts s) = {p. Completed p \<in> set ms} \<and>
     set (failed_prompts s) = {p. last_failed p ms} \<and>
     sorted (completed_prompts s) \<and> distinct (completed_prompts s) \<and>
     sorted (failed_prompts s) \<and> distinct (failed_prompts s) \<and>
     list_all (\<lambda>p. p < current_prompt s) (completed_prompts s)"
proof -
  have "state_ok default_state" by (simp add: state_ok_def default_state_def)
  from progress.run_inv [OF this] run_marks [where s = default_state and ms = ms] show ?thesis
    by (auto simp: state_ok_def Let_def list_all_iff default_state_def)
qed

section \<open>Atomicity\<close>

lemma get_remove_file [simp]: "dict_get (remove_file n d) m = (if m = n then None else dict_get d m)"
  by (simp add: delete_conv')

text \<open>
  Saving is atomic under every fault. If it raises, no file differs from before, except that the
  temporary file stays if its removal raises too; if it returns, only the state file does, it holds the
  encoded state, and loading it gives that state back with its time stamp (the validation reads back
  what the serializer wrote).
\<close>

theorem save_is_atomic:
  assumes "dict_get d (temp_name env) = None" "temp_name env \<noteq> path"
    and "decode_state cd (encode_state cd (stamped (save_time env) s)) = Inr (stamped (save_time env) s)"
  shows "case save_state env cd path s d of
    (Inl e, d') \<Rightarrow>
      dict_get d' = (if unlink_raises env = None then dict_get d else (dict_get d)(temp_name env := dict_get d' (temp_name env))) \<and>
      load_state cd path d' = load_state cd path d
  | (Inr s', d') \<Rightarrow>
      s' = s\<lparr>state_updated_at := Some (isoformat (save_time env - save_time env mod 1000000))\<rparr> \<and>
      dict_get d' = (dict_get d)(path \<mapsto> encode_state cd s') \<and> load_state cd path d' = Inr s'"
  using assms
  by (auto simp: save_state_def discard_temp_def load_state_def stamped_def Let_def fun_eq_iff split: option.split)

theorem save_is_atomic_witness:
  "case save_state \<lparr>mkdir_raises = None, mkstemp_raises = None, write_raises = None,
       replace_raises = Some (PyExn ''OSError'' ''busy''), unlink_raises = None, temp_name = ''tmp'', save_time = 0\<rparr>
       \<lparr>encode_state = (\<lambda>s. ''new''), decode_state = (\<lambda>x. Inr (stamped 0 default_state))\<rparr>
       ''state'' default_state [(''state'', ''old'')] of
     (Inl e, d) \<Rightarrow> dict_get d = [''state'' \<mapsto> ''old''] | (Inr s, d) \<Rightarrow> True"
  using save_is_atomic [of "[(''state'', ''old'')]"
      "\<lparr>mkdir_raises = None, mkstemp_raises = None, write_raises = None,
        replace_raises = Some (PyExn ''OSError'' ''busy''), unlink_raises = None, temp_name = ''tmp'', save_time = 0\<rparr>" "''state''"
      "\<lparr>encode_state = (\<lambda>s. ''new''), decode_state = (\<lambda>x. Inr (stamped 0 default_state))\<rparr>" default_state]
  by (simp split: prod.splits sum.splits)

end
