(* ===== verification/Catalogues.thy ===== *)
theory Catalogues
  imports Py_Value Interfaces
begin

text \<open>
  \<open>runtime/registry.py\<close>, the container of bindings of the runtime, and \<open>agents/registry.py\<close> with
  the descriptors it holds. Both refuse to overwrite and so provide the registry interface.
  A contract is its name; an instance is opaque.
\<close>

section \<open>runtime/registry.py\<close>

type_synonym 'i bindings = "(string, 'i) dict"

definition bind_component :: "bool \<Rightarrow> string \<Rightarrow> 'i \<Rightarrow> 'i bindings \<Rightarrow> exn + 'i bindings" where
  "bind_component replace c i b =
     (if \<not> replace \<and> dict_has b c
      then Inl (Exn ConfigurationError (''contract '' @ c @ '' already bound (use replace=True)''))
      else Inr (dict_set c i b))"

definition resolve_component :: "'i bindings \<Rightarrow> string \<Rightarrow> exn + 'i" where
  "resolve_component b c =
     (case dict_get b c of Some i \<Rightarrow> Inr i
      | None \<Rightarrow> Inl (Exn NotFoundError (''no binding registered for '' @ c)))"

definition has_component :: "'i bindings \<Rightarrow> string \<Rightarrow> bool" where
  "has_component b c = dict_has b c"

definition clear_components :: "'i bindings \<Rightarrow> 'i bindings" where
  "clear_components b = []"

interpretation components: strict_registry dict_get "bind_component False"
  by unfold_locales (auto simp: bind_component_def dict_has_get fun_eq_iff split: if_splits)

section \<open>agents/capabilities.py, agents/descriptor.py\<close>

datatype CapabilityName =
    CODE_GENERATE | CODE_REVIEW | CODE_REFACTOR | CODE_REPAIR | TEST_AUTHOR | TEST_RUN
  | SPEC_INTERPRET | DOC_AUTHOR | SECURITY_REVIEW | DEPENDENCY_AUDIT

fun capability_name_value :: "CapabilityName \<Rightarrow> string" where
  "capability_name_value CODE_GENERATE = ''code.generate''"
| "capability_name_value CODE_REVIEW = ''code.review''"
| "capability_name_value CODE_REFACTOR = ''code.refactor''"
| "capability_name_value CODE_REPAIR = ''code.repair''"
| "capability_name_value TEST_AUTHOR = ''test.author''"
| "capability_name_value TEST_RUN = ''test.run''"
| "capability_name_value SPEC_INTERPRET = ''spec.interpret''"
| "capability_name_value DOC_AUTHOR = ''doc.author''"
| "capability_name_value SECURITY_REVIEW = ''security.review''"
| "capability_name_value DEPENDENCY_AUDIT = ''dependency.audit''"

text \<open>The schemas are classes of the validation library; only their names matter here.\<close>

record CapabilitySpec =
  spec_name :: CapabilityName
  input_schema :: string
  output_schema :: string
  spec_description :: string
  cost_class :: string

definition new_capability_spec :: "CapabilityName \<Rightarrow> string \<Rightarrow> string \<Rightarrow> CapabilitySpec" where
  "new_capability_spec n i o1 =
     \<lparr>spec_name = n, input_schema = i, output_schema = o1, spec_description = [], cost_class = ''standard''\<rparr>"

record AgentCapability =
  capability_spec :: CapabilitySpec
  capability_parameters :: "(string, pyval) dict"

record AgentDescriptor =
  agent_name :: string
  agent_version :: string
  agent_description :: string
  agent_capabilities :: "AgentCapability list"
  requires :: "string list"
  agent_tags :: "string list"
  agent_metadata :: "(string, pyval) dict"

section \<open>agents/registry.py\<close>

type_synonym agent_registry = "(string \<times> string, AgentDescriptor) dict"

definition register_under ::
  "string \<times> string \<Rightarrow> AgentDescriptor \<Rightarrow> agent_registry \<Rightarrow> exn + agent_registry" where
  "register_under key d reg =
     (if dict_has reg key
      then Inl (Exn ConfigurationError (''agent already registered: '' @ fst key @ ''@'' @ snd key))
      else Inr (dict_set key d reg))"

definition register_agent :: "AgentDescriptor \<Rightarrow> agent_registry \<Rightarrow> exn + agent_registry" where
  "register_agent d reg = register_under (agent_name d, agent_version d) d reg"

definition get_agent :: "agent_registry \<Rightarrow> string \<Rightarrow> string \<Rightarrow> exn + AgentDescriptor" where
  "get_agent reg n v =
     (case dict_get reg (n, v) of Some d \<Rightarrow> Inr d
      | None \<Rightarrow> Inl (Exn NotFoundError (''agent not found: '' @ n @ ''@'' @ v)))"

text \<open>\<open>max\<close> with a key: the first of the largest.\<close>

fun max_by :: "('a \<Rightarrow> 'b::linorder) \<Rightarrow> 'a \<Rightarrow> 'a list \<Rightarrow> 'a" where
  "max_by f x [] = x"
| "max_by f x (y # ys) = max_by f (if f x < f y then y else x) ys"

definition latest_agent :: "agent_registry \<Rightarrow> string \<Rightarrow> exn + AgentDescriptor" where
  "latest_agent reg n =
     (case map snd (filter (\<lambda>((m, v), d). m = n) reg) of
        [] \<Rightarrow> Inl (Exn NotFoundError (''no versions registered for agent: '' @ n))
      | d # ds \<Rightarrow> Inr (max_by agent_version d ds))"

definition agent_count :: "agent_registry \<Rightarrow> nat" where
  "agent_count reg = length reg"

interpretation agents: strict_registry dict_get register_under
  by unfold_locales (auto simp: register_under_def dict_has_get fun_eq_iff split: if_splits)

fun register_agents :: "AgentDescriptor list \<Rightarrow> agent_registry \<Rightarrow> exn + agent_registry" where
  "register_agents [] reg = Inr reg"
| "register_agents (d # ds) reg = try_bind (register_agent d reg) (register_agents ds)"

lemma register_agents_all:
  "register_agents ds reg = agents.register_all (map (\<lambda>d. ((agent_name d, agent_version d), d)) ds) reg"
  by (induction ds arbitrary: reg)
     (auto simp: register_agent_def agents.register_all.simps split: sum.splits)

lemma max_by_in: "max_by f x ys \<in> insert x (set ys)"
  by (induction ys arbitrary: x) (auto split: if_splits)

lemma max_by_ge: "y \<in> insert x (set ys) \<Longrightarrow> f y \<le> f (max_by f x ys)"
proof (induction ys arbitrary: x y)
  case (Cons z zs)
  have "f x \<le> f (if f x < f z then z else x)" "f z \<le> f (if f x < f z then z else x)" by auto
  moreover have "f (if f x < f z then z else x) \<le> f (max_by f (if f x < f z then z else x) zs)"
    by (rule Cons.IH) simp
  ultimately show ?case using Cons.prems Cons.IH [of y "if f x < f z then z else x"] by auto
qed simp

lemma register_under_set:
  "register_under k d reg = Inr reg' \<Longrightarrow> set reg' = insert (k, d) (set reg)"
  by (auto simp: register_under_def dict_set_absent split: if_splits)

lemma register_agents_set:
  "register_agents ds reg = Inr reg' \<Longrightarrow>
     set reg' = set reg \<union> (\<lambda>d. ((agent_name d, agent_version d), d)) ` set ds"
proof (induction ds arbitrary: reg)
  case (Cons d ds)
  then obtain r where "register_agent d reg = Inr r" "register_agents ds r = Inr reg'"
    by (auto split: sum.splits)
  with Cons.IH [of r] register_under_set show ?case by (fastforce simp: register_agent_def)
qed simp

text \<open>
  The agent registry accepts a list of descriptors exactly if no name and version occurs twice;
  afterwards each is found under its name and version, and \<open>latest\<close> finds, for every registered
  name, a registered descriptor whose version no other registered version of the name exceeds in
  the order of strings.
\<close>

theorem agents_registered_exactly:
  "case register_agents ds [] of
     Inl e \<Rightarrow> \<not> distinct (map (\<lambda>d. (agent_name d, agent_version d)) ds)
   | Inr reg \<Rightarrow>
       distinct (map (\<lambda>d. (agent_name d, agent_version d)) ds) \<and>
       list_all (\<lambda>d. get_agent reg (agent_name d) (agent_version d) = Inr d) ds \<and>
       list_all (\<lambda>d. case latest_agent reg (agent_name d) of
           Inl e \<Rightarrow> False
         | Inr m \<Rightarrow> m \<in> set ds \<and> agent_name m = agent_name d \<and> agent_version d \<le> agent_version m) ds"
proof -
  let ?kvs = "map (\<lambda>d. ((agent_name d, agent_version d), d)) ds"
  have keys: "map fst ?kvs = map (\<lambda>d. (agent_name d, agent_version d)) ds" by simp
  have iff: "(\<exists>reg. register_agents ds [] = Inr reg) \<longleftrightarrow> distinct (map (\<lambda>d. (agent_name d, agent_version d)) ds)"
    unfolding register_agents_all agents.register_all_Inr_iff keys by simp
  show ?thesis
  proof (cases "register_agents ds []")
    case (Inl e)
    with iff show ?thesis by simp
  next
    case (Inr reg)
    with iff have dist: "distinct (map (\<lambda>d. (agent_name d, agent_version d)) ds)" by blast
    have entries: "set reg = (\<lambda>d. ((agent_name d, agent_version d), d)) ` set ds"
      using register_agents_set [OF Inr] by simp
    have got: "get_agent reg (agent_name d) (agent_version d) = Inr d" if "d \<in> set ds" for d
    proof -
      have "map_of ?kvs (agent_name d, agent_version d) = Some d"
        using that dist by (intro map_of_is_SomeI) (auto simp: comp_def)
      with agents.register_all_entry [OF Inr [unfolded register_agents_all]] show ?thesis
        by (simp add: get_agent_def)
    qed
    have latest: "case latest_agent reg (agent_name d) of Inl e \<Rightarrow> False
         | Inr m \<Rightarrow> m \<in> set ds \<and> agent_name m = agent_name d \<and> agent_version d \<le> agent_version m"
      if "d \<in> set ds" for d
    proof -
      let ?c = "map snd (filter (\<lambda>((m, v), d'). m = agent_name d) reg)"
      have c: "set ?c = {m \<in> set ds. agent_name m = agent_name d}"
        unfolding set_map set_filter entries by (auto simp: image_iff)
      with that obtain x xs where xs: "?c = x # xs" by (cases ?c) auto
      have "max_by agent_version x xs \<in> {m \<in> set ds. agent_name m = agent_name d}" "agent_version d \<le> agent_version (max_by agent_version x xs)"
      proof -
        have ins: "set ?c = insert x (set xs)" by (simp only: xs list.set)
        show "max_by agent_version x xs \<in> {m \<in> set ds. agent_name m = agent_name d}"
          unfolding c [symmetric] ins by (rule max_by_in)
        have "d \<in> set ?c" unfolding c using that by simp
        then show "agent_version d \<le> agent_version (max_by agent_version x xs)"
          unfolding ins by (rule max_by_ge)
      qed
      then show ?thesis unfolding latest_agent_def xs by simp
    qed
    show ?thesis using Inr dist got latest by (simp add: list_all_iff)
  qed
qed

end
