(* ===== verification/Json.thy ===== *)
theory Json
  imports Py_Value
begin

text \<open>
  The \<open>json\<close> module of Python's standard library as the components use it: \<open>json.dumps\<close> with its
  default separators and \<open>ensure_ascii\<close>, and \<open>json.loads\<close> with the decoder's strictness. The
  decoder is a recursive descent over the text with fuel; \<open>json_value_fuel\<close> shows that the fuel
  \<open>json_loads\<close> takes is enough for every text. \<open>None\<close> is a \<open>JSONDecodeError\<close>.

  Outside the model's values: \<open>NaN\<close>, the infinities and escapes of code points from 256 up, which
  are refused here; numbers with a fraction or exponent are the exact rational of the text.
\<close>

section \<open>json.dumps\<close>

definition json_escape :: "char \<Rightarrow> string" where
  "json_escape c =
     (if c = dquote then [backslash, dquote]
      else if c = backslash then [backslash, backslash]
      else if c = CHR 0x0A then [backslash, CHR ''n'']
      else if c = CHR 0x0D then [backslash, CHR ''r'']
      else if c = CHR 0x09 then [backslash, CHR ''t'']
      else if c = CHR 0x0C then [backslash, CHR ''f'']
      else if c = CHR 0x08 then [backslash, CHR ''b'']
      else let n = of_char c :: nat in
        if 32 \<le> n \<and> n \<le> 126 then [c]
        else [backslash, CHR ''u'', CHR ''0'', CHR ''0'', hex_digit (n div 16), hex_digit (n mod 16)])"

definition json_string :: "string \<Rightarrow> string" where
  "json_string s = dquote # concat (map json_escape s) @ [dquote]"

fun json_dumps :: "pyval \<Rightarrow> string" where
  "json_dumps PNone = ''null''"
| "json_dumps (PBool b) = (if b then ''true'' else ''false'')"
| "json_dumps (PInt i) = int_str i"
| "json_dumps (PFloat q) = repr_float q"
| "json_dumps (PStr s) = json_string s"
| "json_dumps (PList vs) = ''['' @ comma_join (map json_dumps vs) @ '']''"
| "json_dumps (PDict kvs) =
     ''{'' @ comma_join (map (\<lambda>(k, v). json_string k @ '': '' @ json_dumps v) kvs) @ ''}''"

text \<open>
  \<open>indent=2\<close>, \<open>sort_keys=True\<close>: every item on a line of its own, empty containers closed at once, the
  members of a dictionary in the order of their keys. The first argument is the depth.
\<close>

definition new_line :: "nat \<Rightarrow> string" where
  "new_line k = CHR 0x0A # replicate (2 * k) (CHR '' '')"

fun join_with :: "string \<Rightarrow> string list \<Rightarrow> string" where
  "join_with sep [] = []"
| "join_with sep [x] = x"
| "join_with sep (x # y # zs) = x @ sep @ join_with sep (y # zs)"

text \<open>A layout: the white space after an opening bracket, after a comma, before a closing bracket.\<close>

record json_layout =
  ws_open :: "nat \<Rightarrow> string"
  ws_comma :: "nat \<Rightarrow> string"
  ws_close :: "nat \<Rightarrow> string"

definition compact_layout :: json_layout where
  "compact_layout = \<lparr>ws_open = (\<lambda>_. []), ws_comma = (\<lambda>_. '' ''), ws_close = (\<lambda>_. [])\<rparr>"

definition indent_layout :: json_layout where
  "indent_layout = \<lparr>ws_open = (\<lambda>k. new_line (k + 1)), ws_comma = (\<lambda>k. new_line (k + 1)), ws_close = new_line\<rparr>"

fun json_print :: "json_layout \<Rightarrow> nat \<Rightarrow> pyval \<Rightarrow> string" where
  "json_print l k (PList vs) =
     (if vs = [] then ''[]''
      else ''['' @ ws_open l k @ join_with ('','' @ ws_comma l k) (map (json_print l (k + 1)) vs) @
           ws_close l k @ '']'')"
| "json_print l k (PDict kvs) =
     (if kvs = [] then ''{}''
      else ''{'' @ ws_open l k @
           join_with ('','' @ ws_comma l k)
             (map (\<lambda>(key, v). json_string key @ '': '' @ json_print l (k + 1) v) kvs) @
           ws_close l k @ ''}'')"
| "json_print l k v = json_dumps v"

fun sort_keys :: "pyval \<Rightarrow> pyval" where
  "sort_keys (PList vs) = PList (map sort_keys vs)"
| "sort_keys (PDict kvs) = PDict (sort_key fst (map (\<lambda>(k, v). (k, sort_keys v)) kvs))"
| "sort_keys v = v"

definition json_dumps_indented :: "pyval \<Rightarrow> string" where
  "json_dumps_indented v = json_print indent_layout 0 (sort_keys v)"

section \<open>json.loads\<close>

definition json_space :: "char \<Rightarrow> bool" where
  "json_space c \<longleftrightarrow> c = CHR '' '' \<or> c = CHR 0x09 \<or> c = CHR 0x0A \<or> c = CHR 0x0D"

definition skip_ws :: "string \<Rightarrow> string" where
  "skip_ws s = dropWhile json_space s"

text \<open>Does the text start with this character, and what follows it?\<close>

definition starts :: "char \<Rightarrow> string \<Rightarrow> bool" where
  "starts c s \<longleftrightarrow> (case s of [] \<Rightarrow> False | d # _ \<Rightarrow> d = c)"

definition hex_val :: "char \<Rightarrow> nat option" where
  "hex_val c =
     (let n = of_char c :: nat in
      if 48 \<le> n \<and> n \<le> 57 then Some (n - 48)
      else if 97 \<le> n \<and> n \<le> 102 then Some (n - 87)
      else if 65 \<le> n \<and> n \<le> 70 then Some (n - 55)
      else None)"

fun hex_number :: "nat \<Rightarrow> string \<Rightarrow> nat option" where
  "hex_number acc [] = Some acc"
| "hex_number acc (c # cs) =
     (case hex_val c of None \<Rightarrow> None | Some d \<Rightarrow> hex_number (16 * acc + d) cs)"

definition simple_escape :: "char \<Rightarrow> char option" where
  "simple_escape c =
     map_of [(dquote, dquote), (backslash, backslash), (CHR ''/'', CHR ''/''), (CHR ''b'', CHR 0x08),
             (CHR ''f'', CHR 0x0C), (CHR ''n'', CHR 0x0A), (CHR ''r'', CHR 0x0D), (CHR ''t'', CHR 0x09)] c"

text \<open>The characters of a string up to its closing quote, and the text behind it.\<close>

fun json_chars :: "string \<Rightarrow> (string \<times> string) option" where
  "json_chars [] = None"
| "json_chars (c # s) =
     (if c = dquote then Some ([], s)
      else if c = backslash then
        (case s of
           [] \<Rightarrow> None
         | e # s' \<Rightarrow>
             if e = CHR ''u'' then
               (case hex_number 0 (take 4 s') of
                  Some n \<Rightarrow>
                    if 4 \<le> length s' \<and> n < 256
                    then map_option (apfst (Cons (char_of n))) (json_chars (drop 4 s')) else None
                | None \<Rightarrow> None)
             else
               (case simple_escape e of
                  Some d \<Rightarrow> map_option (apfst (Cons d)) (json_chars s')
                | None \<Rightarrow> None))
      else if (of_char c :: nat) < 32 then None
      else map_option (apfst (Cons c)) (json_chars s))"

definition has_digit :: "string \<Rightarrow> bool" where
  "has_digit s \<longleftrightarrow> (case s of [] \<Rightarrow> False | c # _ \<Rightarrow> is_digit c)"

text \<open>The integer part: a zero, or digits that do not start with one.\<close>

definition int_part :: "string \<Rightarrow> (string \<times> string) option" where
  "int_part s =
     (if starts (CHR ''0'') s then Some (''0'', tl s)
      else if has_digit s then Some (takeWhile is_digit s, dropWhile is_digit s)
      else None)"

definition frac_part :: "string \<Rightarrow> string \<times> string" where
  "frac_part s =
     (if starts (CHR ''.'') s \<and> has_digit (tl s)
      then (takeWhile is_digit (tl s), dropWhile is_digit (tl s)) else ([], s))"

definition exp_part :: "string \<Rightarrow> int option \<times> string" where
  "exp_part s =
     (if starts (CHR ''e'') s \<or> starts (CHR ''E'') s then
        (let r = tl s; signed = starts (CHR ''+'') r \<or> starts (CHR ''-'') r;
             ds = (if signed then tl r else r);
             e = digits_value (takeWhile is_digit ds)
         in if has_digit ds
            then (Some (if starts (CHR ''-'') r then - e else e), dropWhile is_digit ds)
            else (None, s))
      else (None, s))"

definition pow10 :: "int \<Rightarrow> rat" where
  "pow10 e = (if 0 \<le> e then 10 ^ nat e else 1 / 10 ^ nat (- e))"

definition json_number :: "string \<Rightarrow> (pyval \<times> string) option" where
  "json_number s =
     (let neg = starts (CHR ''-'') s in
      case int_part (if neg then tl s else s) of
        None \<Rightarrow> None
      | Some (ds, r) \<Rightarrow>
          (case frac_part r of (fs, r1) \<Rightarrow>
             case exp_part r1 of (ex, r2) \<Rightarrow>
               if fs = [] \<and> ex = None
               then Some (PInt (if neg then - digits_value ds else digits_value ds), r2)
               else
                 (let m = of_int (digits_value (ds @ fs)) *
                        pow10 ((case ex of None \<Rightarrow> 0 | Some e \<Rightarrow> e) - int (length fs))
                  in Some (PFloat (if neg then - m else m), r2))))"

definition json_literal :: "string \<Rightarrow> pyval \<Rightarrow> string \<Rightarrow> (pyval \<times> string) option" where
  "json_literal w v s = (if take (length w) s = w then Some (v, drop (length w) s) else None)"

text \<open>A later member of an object replaces an earlier one of the same name.\<close>

definition dict_of_pairs :: "(string \<times> pyval) list \<Rightarrow> (string, pyval) dict" where
  "dict_of_pairs kvs = foldl (\<lambda>d (k, v). dict_set k v d) [] kvs"

fun json_value :: "nat \<Rightarrow> string \<Rightarrow> (pyval \<times> string) option"
and json_items :: "nat \<Rightarrow> string \<Rightarrow> (pyval list \<times> string) option"
and json_members :: "nat \<Rightarrow> string \<Rightarrow> ((string \<times> pyval) list \<times> string) option" where
  "json_value 0 s = None"
| "json_value (Suc n) s =
     (if starts dquote s then map_option (apfst PStr) (json_chars (tl s))
      else if starts (CHR ''{'') s then
        (let r = skip_ws (tl s) in
         if starts (CHR ''}'') r then Some (PDict [], tl r)
         else map_option (apfst (PDict \<circ> dict_of_pairs)) (json_members n r))
      else if starts (CHR ''['') s then
        (let r = skip_ws (tl s) in
         if starts (CHR '']'') r then Some (PList [], tl r)
         else map_option (apfst PList) (json_items n r))
      else if starts (CHR ''n'') s then json_literal ''null'' PNone s
      else if starts (CHR ''t'') s then json_literal ''true'' (PBool True) s
      else if starts (CHR ''f'') s then json_literal ''false'' (PBool False) s
      else json_number s)"
| "json_items 0 s = None"
| "json_items (Suc n) s =
     (case json_value n s of
        None \<Rightarrow> None
      | Some (v, t) \<Rightarrow>
          (let r = skip_ws t in
           if starts (CHR '']'') r then Some ([v], tl r)
           else if starts (CHR '','') r
           then map_option (apfst (Cons v)) (json_items n (skip_ws (tl r)))
           else None))"
| "json_members 0 s = None"
| "json_members (Suc n) s =
     (if \<not> starts dquote s then None
      else case json_chars (tl s) of
        None \<Rightarrow> None
      | Some (k, t) \<Rightarrow>
          (let c = skip_ws t in
           if \<not> starts (CHR '':'') c then None
           else case json_value n (skip_ws (tl c)) of
             None \<Rightarrow> None
           | Some (v, t') \<Rightarrow>
               (let r = skip_ws t' in
                if starts (CHR ''}'') r then Some ([(k, v)], tl r)
                else if starts (CHR '','') r
                then map_option (apfst (Cons (k, v))) (json_members n (skip_ws (tl r)))
                else None)))"

definition json_loads :: "string \<Rightarrow> pyval option" where
  "json_loads s =
     (case json_value (2 * length s + 1) (skip_ws s) of
        None \<Rightarrow> None
      | Some (v, t) \<Rightarrow> if skip_ws t = [] then Some v else None)"

section \<open>The fuel is enough\<close>

lemma skip_ws_length: "length (skip_ws s) \<le> length s"
  by (simp add: skip_ws_def length_dropWhile_le)

lemma starts_tl: "starts c s \<Longrightarrow> length (tl s) < length s"
  by (cases s) (auto simp: starts_def)

lemma json_chars_shorter: "json_chars s = Some (cs, t) \<Longrightarrow> length t < length s"
  by (induction s arbitrary: cs rule: json_chars.induct)
    (force split: if_splits list.splits option.splits simp: less_Suc_eq_le)+

lemma int_part_shorter: "int_part s = Some (ds, r) \<Longrightarrow> length r < length s"
  by (cases s)
    (auto simp: int_part_def starts_def has_digit_def le_imp_less_Suc length_dropWhile_le split: if_splits)

lemma frac_part_shorter: "frac_part s = (fs, r) \<Longrightarrow> length r \<le> length s"
  using length_dropWhile_le [of is_digit "tl s"] by (auto simp: frac_part_def split: if_splits)

lemma exp_part_shorter: "exp_part s = (e, r) \<Longrightarrow> length r \<le> length s"
proof -
  have "length (dropWhile is_digit (tl (tl s))) \<le> length s" "length (dropWhile is_digit (tl s)) \<le> length s"
    using length_dropWhile_le [of is_digit "tl (tl s)"] length_dropWhile_le [of is_digit "tl s"] by simp_all
  then show "exp_part s = (e, r) \<Longrightarrow> length r \<le> length s"
    by (auto simp: exp_part_def Let_def split: if_splits)
qed

lemma json_number_shorter:
  assumes "json_number s = Some (v, t)"
  shows "length t < length s"
proof -
  let ?s = "if starts (CHR ''-'') s then tl s else s"
  obtain ds r where i: "int_part ?s = Some (ds, r)"
    using assms by (auto simp: json_number_def Let_def split: option.splits)
  obtain fs r1 where f: "frac_part r = (fs, r1)" by fastforce
  obtain ex r2 where e: "exp_part r1 = (ex, r2)" by fastforce
  from assms i f e have "t = r2" by (auto simp: json_number_def Let_def split: if_splits)
  with int_part_shorter [OF i] frac_part_shorter [OF f] exp_part_shorter [OF e]
  show ?thesis by (auto split: if_splits)
qed

lemma json_literal_shorter: "json_literal w v s = Some (u, t) \<Longrightarrow> w \<noteq> [] \<Longrightarrow> length t < length s"
  by (cases s) (auto simp: json_literal_def split: if_splits)

lemma json_shorter:
  "json_value n s = Some (v, t) \<Longrightarrow> length t < length s"
  "json_items n s = Some (vs, t) \<Longrightarrow> length t < length s"
  "json_members n s = Some (kvs, t) \<Longrightarrow> length t < length s"
proof (induction n s and n s and n s arbitrary: v t and vs t and kvs t
    rule: json_value_json_items_json_members.induct)
  case (2 n s)
  let ?r = "skip_ws (tl s)"
  have r: "length ?r \<le> length (tl s)" by (rule skip_ws_length)
  consider "starts dquote s" | "starts (CHR ''{'') s" | "starts (CHR ''['') s"
    | "\<not> starts dquote s" "\<not> starts (CHR ''{'') s" "\<not> starts (CHR ''['') s" by blast
  then show ?case
  proof cases
    case 1
    with 2(3) json_chars_shorter starts_tl [of dquote s] show ?thesis by fastforce
  next
    case 2
    then have "\<not> starts dquote s" by (auto simp: starts_def split: list.splits)
    with 2 "2.prems" "2.IH"(1) r starts_tl [OF 2] starts_tl [of "CHR ''}''" ?r] show ?thesis
      by (fastforce simp: Let_def split: if_splits)
  next
    case 3
    then have "\<not> starts dquote s" "\<not> starts (CHR ''{'') s" by (auto simp: starts_def split: list.splits)
    with 3 "2.prems" "2.IH"(2) r starts_tl [OF 3] starts_tl [of "CHR '']''" ?r] show ?thesis
      by (fastforce simp: Let_def split: if_splits)
  next
    case 4
    with "2.prems" json_literal_shorter json_number_shorter show ?thesis
      by (auto split: if_splits)
  qed
next
  case (4 n s)
  from "4.prems" obtain w t1 where w: "json_value n s = Some (w, t1)" by (auto split: option.splits)
  let ?r = "skip_ws t1"
  note le = "4.IH"(1) [OF w] skip_ws_length [of t1] skip_ws_length [of "tl ?r"] length_tl [of ?r]
  show ?case
  proof (cases "starts (CHR '']'') ?r")
    case True
    with "4.prems" w le show ?thesis by (auto simp: Let_def)
  next
    case False
    with "4.prems" w obtain us where "json_items n (skip_ws (tl ?r)) = Some (us, t)" "starts (CHR '','') ?r"
      by (auto simp: Let_def split: if_splits)
    with "4.IH"(2) [OF w] False le show ?thesis by fastforce
  qed
next
  case (6 n s)
  from "6.prems" obtain k t1 where k: "starts dquote s" "json_chars (tl s) = Some (k, t1)"
    by (auto split: option.splits if_splits)
  let ?c = "skip_ws t1"
  from "6.prems" k obtain w t2 where w: "starts (CHR '':'') ?c" "json_value n (skip_ws (tl ?c)) = Some (w, t2)"
    by (auto simp: Let_def split: option.splits if_splits)
  let ?r = "skip_ws t2"
  have "length t2 < length (skip_ws (tl ?c))" using "6.IH"(1) k w by simp
  note le = this json_chars_shorter [OF k(2)] skip_ws_length [of t1] skip_ws_length [of t2]
    skip_ws_length [of "tl ?c"] skip_ws_length [of "tl ?r"] length_tl [of ?r] length_tl [of ?c]
    starts_tl [OF k(1)]
  show ?case
  proof (cases "starts (CHR ''}'') ?r")
    case True
    with "6.prems" k w le show ?thesis by (auto simp: Let_def)
  next
    case False
    with "6.prems" k w obtain us where us: "json_members n (skip_ws (tl ?r)) = Some (us, t)"
        "starts (CHR '','') ?r"
      by (auto simp: Let_def split: if_splits)
    have "length t < length (skip_ws (tl ?r))" using "6.IH"(2) k w False us by simp
    with le show ?thesis by linarith
  qed
qed simp_all

lemma skip_ws_tl_less: "starts c s \<Longrightarrow> length (skip_ws (tl s)) < length s"
  using skip_ws_length [of "tl s"] starts_tl [of c s] by linarith

text \<open>
  Any two amounts of fuel from twice the length of the text on give the same result, so that a
  text refused with the fuel of \<open>json_loads\<close> is refused with every amount.
\<close>

lemma json_fuel:
  "2 * length s < n \<Longrightarrow> 2 * length s < m \<Longrightarrow> json_value m s = json_value n s"
  "2 * length s + 1 < n \<Longrightarrow> 2 * length s + 1 < m \<Longrightarrow> json_items m s = json_items n s"
  "2 * length s + 1 < n \<Longrightarrow> 2 * length s + 1 < m \<Longrightarrow> json_members m s = json_members n s"
proof (induction n s and n s and n s arbitrary: m and m and m
    rule: json_value_json_items_json_members.induct)
  case (2 n s)
  let ?r = "skip_ws (tl s)"
  obtain m' where m: "m = Suc m'" using "2.prems" by (cases m) auto
  have "json_members m' ?r = json_members n ?r"
    if "starts (CHR ''{'') s" "\<not> starts (CHR ''}'') ?r" "\<not> starts dquote s"
    using "2.IH"(1) [OF that(3,1) refl that(2), of m'] skip_ws_tl_less [OF that(1)] "2.prems" m by simp
  moreover have "json_items m' ?r = json_items n ?r"
    if "starts (CHR ''['') s" "\<not> starts (CHR '']'') ?r" "\<not> starts dquote s" "\<not> starts (CHR ''{'') s"
    using "2.IH"(2) [OF that(3,4,1) refl that(2), of m'] skip_ws_tl_less [OF that(1)] "2.prems" m by simp
  ultimately show ?case unfolding m by (simp add: Let_def)
next
  case (4 n s)
  obtain m' where m: "m = Suc m'" using "4.prems" by (cases m) auto
  have same: "json_value m' s = json_value n s" using "4.IH"(1) [of m'] "4.prems" m by simp
  have "json_items m' (skip_ws (tl (skip_ws t))) = json_items n (skip_ws (tl (skip_ws t)))"
    if v: "json_value n s = Some (v, t)" and r: "\<not> starts (CHR '']'') (skip_ws t)" "starts (CHR '','') (skip_ws t)"
    for v t
    using "4.IH"(2) [OF v refl refl r, of m'] skip_ws_tl_less [OF r(2)] json_shorter(1) [OF v]
      skip_ws_length [of t] "4.prems" m by simp
  then show ?case unfolding m json_items.simps same by (auto simp: Let_def split: option.split)
next
  case (6 n s)
  obtain m' where m: "m = Suc m'" using "6.prems" by (cases m) auto
  show ?case
  proof (cases "starts dquote s")
    case True
    show ?thesis
    proof (cases "json_chars (tl s)")
      case (Some kt)
      obtain k t where kt: "kt = (k, t)" by fastforce
      let ?c = "skip_ws t" and ?u = "skip_ws (tl (skip_ws t))"
      note chars = Some [unfolded kt]
      have t: "length t < length s" using json_chars_shorter [OF chars] starts_tl [OF True] by simp
      show ?thesis
      proof (cases "starts (CHR '':'') ?c")
        case colon: True
        have u: "length ?u < length s" using skip_ws_tl_less [OF colon] skip_ws_length [of t] t by linarith
        have same: "json_value m' ?u = json_value n ?u"
          using "6.IH"(1) [of "(k, t)" k t ?c m'] True chars colon u "6.prems" m by simp
        have "json_members m' (skip_ws (tl (skip_ws t'))) = json_members n (skip_ws (tl (skip_ws t')))"
          if v: "json_value n ?u = Some (v, t')"
            and r: "\<not> starts (CHR ''}'') (skip_ws t')" "starts (CHR '','') (skip_ws t')" for v t'
          using "6.IH"(2) [of "(k, t)" k t ?c "(v, t')" v t' "skip_ws t'" m'] True chars colon v r u
            skip_ws_tl_less [OF r(2)] json_shorter(1) [OF v] skip_ws_length [of t'] "6.prems" m by simp
        then show ?thesis
          unfolding m json_members.simps using True chars colon same by (auto simp: Let_def split: option.split)
      qed (use True chars m in \<open>simp add: Let_def\<close>)
    qed (use True m in simp)
  qed (use m in simp)
qed simp_all

theorem json_value_fuel: "2 * length s < n \<Longrightarrow> json_value n s = json_value (2 * length s + 1) s"
  by (rule json_fuel(1)) simp_all

section \<open>Reading back what was written\<close>

text \<open>Values without floats whose dictionaries have no key twice, as Python's have not.\<close>

fun json_plain :: "pyval \<Rightarrow> bool" where
  "json_plain (PFloat q) \<longleftrightarrow> False"
| "json_plain (PList vs) \<longleftrightarrow> list_all json_plain vs"
| "json_plain (PDict kvs) \<longleftrightarrow> dict_ok kvs \<and> list_all (\<lambda>(k, v). json_plain v) kvs"
| "json_plain _ \<longleftrightarrow> True"

subsection \<open>Strings\<close>

lemma hex_val_digit [simp]: "d < 16 \<Longrightarrow> hex_val (hex_digit d) = Some d"
  by (auto simp: hex_val_def hex_digit_def Let_def of_char_of)

lemma json_chars_escaped: "json_chars (json_escape c @ s) = map_option (apfst (Cons c)) (json_chars s)"
proof -
  let ?n = "of_char c :: nat"
  have n: "?n < 256" by simp
  have zero: "hex_val CHR ''0'' = Some 0" by code_simp
  have dv: "?n div 16 < 16" "?n mod 16 < 16" using n by (auto intro: less_mult_imp_div_less)
  have num: "hex_number 0 [CHR ''0'', CHR ''0'', hex_digit (?n div 16), hex_digit (?n mod 16)] = Some ?n"
    by (simp add: zero dv)
  have esc: "simple_escape dquote = Some dquote" "simple_escape backslash = Some backslash"
    "simple_escape CHR ''n'' = Some (CHR 0x0A)" "simple_escape CHR ''r'' = Some (CHR 0x0D)"
    "simple_escape CHR ''t'' = Some (CHR 0x09)" "simple_escape CHR ''f'' = Some (CHR 0x0C)"
    "simple_escape CHR ''b'' = Some (CHR 0x08)"
    by code_simp+
  show ?thesis
    using num n by (auto simp: json_escape_def Let_def esc)
qed

lemma json_chars_string: "json_chars (concat (map json_escape s) @ dquote # t) = Some (s, t)"
  by (induction s) (simp_all add: json_chars_escaped)

subsection \<open>Integers\<close>

definition value_end :: "string \<Rightarrow> bool" where
  "value_end t \<longleftrightarrow>
     (case t of [] \<Rightarrow> True | c # _ \<Rightarrow> c = CHR '','' \<or> c = CHR '']'' \<or> c = CHR ''}'' \<or> json_space c)"

lemma nat_digits_head: "0 < n \<Longrightarrow> hd (nat_digits n) \<noteq> CHR ''0''"
proof (induction n rule: nat_digits.induct)
  case (1 n)
  show ?case
  proof (cases "n < 10")
    case True
    have code: "of_char (char_of (48 + n) :: char) = 48 + n" using True by (simp add: of_char_of)
    have zero: "of_char CHR ''0'' = (48 :: nat)" by code_simp
    have "char_of (48 + n) \<noteq> CHR ''0''"
    proof
      assume "char_of (48 + n) = CHR ''0''"
      from code [unfolded this zero] "1.prems" show False by simp
    qed
    with True show ?thesis by (simp add: nat_digits.simps)
  next
    case False
    with 1 nat_digits_facts [of "n div 10"] show ?thesis by (simp add: nat_digits.simps [of n])
  qed
qed

lemma value_end_number:
  assumes "value_end t"
  shows "\<not> has_digit t" "\<not> starts (CHR ''.'') t" "\<not> starts (CHR ''e'') t" "\<not> starts (CHR ''E'') t"
proof -
  have "\<not> is_digit CHR '',''" "\<not> is_digit CHR '']''" "\<not> is_digit CHR ''}''"
    "\<not> is_digit CHR '' ''" "\<not> is_digit CHR 0x09" "\<not> is_digit CHR 0x0A" "\<not> is_digit CHR 0x0D"
    by code_simp+
  with assms show "\<not> has_digit t" "\<not> starts (CHR ''.'') t" "\<not> starts (CHR ''e'') t" "\<not> starts (CHR ''E'') t"
    by (auto simp: value_end_def has_digit_def starts_def json_space_def split: list.splits)
qed

lemma int_part_digits: "\<not> has_digit t \<Longrightarrow> int_part (nat_digits n @ t) = Some (nat_digits n, t)"
proof -
  assume t: "\<not> has_digit t"
  note facts = nat_digits_facts [of n]
  show ?thesis
  proof (cases "n = 0")
    case True
    then show ?thesis by (simp add: nat_digits.simps int_part_def starts_def)
  next
    case False
    obtain c cs where c: "nat_digits n = c # cs" using facts by (cases "nat_digits n") auto
    with False nat_digits_head [of n] have "c \<noteq> CHR ''0''" by simp
    moreover have "takeWhile is_digit (nat_digits n @ t) = nat_digits n \<and> dropWhile is_digit (nat_digits n @ t) = t"
      using facts t by (cases t)
        (auto simp: has_digit_def list_all_iff takeWhile_append dropWhile_append takeWhile_eq_all_conv)
    ultimately show ?thesis using facts c by (simp add: int_part_def starts_def has_digit_def)
  qed
qed

lemma json_number_int: "value_end t \<Longrightarrow> json_number (int_str i @ t) = Some (PInt i, t)"
proof -
  assume t: "value_end t"
  note facts = nat_digits_facts [of "nat \<bar>i\<bar>"]
  obtain c cs where c: "nat_digits (nat \<bar>i\<bar>) = c # cs" using facts by (cases "nat_digits (nat \<bar>i\<bar>)") auto
  have "\<not> is_digit CHR ''-''" by code_simp
  with facts c have "c \<noteq> CHR ''-''" by auto
  then show ?thesis
    using int_part_digits [OF value_end_number(1) [OF t], of "nat \<bar>i\<bar>"] facts c value_end_number [OF t]
    by (auto simp: json_number_def int_str_def starts_def frac_part_def exp_part_def Let_def abs_if
        split: if_splits)
qed

lemma int_str_first:
  obtains c cs where "int_str i = c # cs" "is_digit c \<or> c = CHR ''-''"
  using nat_digits_facts [of "nat \<bar>i\<bar>"]
  by (cases "nat_digits (nat \<bar>i\<bar>)") (auto simp: int_str_def abs_if split: if_splits)

subsection \<open>Values\<close>

lemma comma_join_simps [simp]:
  "comma_join [] = []" "comma_join [x] = x" "comma_join (x # y # zs) = x @ '', '' @ comma_join (y # zs)"
  by (simp_all add: comma_join_def)

lemma comma_join_with: "comma_join xs = join_with '', '' xs"
  by (induction xs rule: induct_list012) simp_all

lemma starts_Cons [simp]: "starts c (d # s) \<longleftrightarrow> d = c"
  by (simp add: starts_def)

lemma skip_ws_Cons [simp]: "skip_ws (c # s) = (if json_space c then skip_ws s else c # s)"
  by (simp add: skip_ws_def)

lemma skip_ws_spaces [simp]: "list_all json_space ws \<Longrightarrow> skip_ws (ws @ s) = skip_ws s"
  by (induction ws) auto

lemma json_space_simps [simp]:
  "json_space CHR '' ''" "\<not> json_space CHR '',''" "\<not> json_space CHR '':''" "\<not> json_space CHR ''[''"
  "\<not> json_space CHR '']''" "\<not> json_space CHR ''{''" "\<not> json_space CHR ''}''" "\<not> json_space dquote"
  "json_space CHR 0x0A"
  by (simp_all add: json_space_def)

lemma value_end_simps [simp]:
  "value_end []" "value_end (CHR '','' # s)" "value_end (CHR '']'' # s)" "value_end (CHR ''}'' # s)"
  by (simp_all add: value_end_def)

lemma value_end_spaces: "list_all json_space ws \<Longrightarrow> value_end s \<Longrightarrow> value_end (ws @ s)"
  by (cases ws) (simp_all add: value_end_def)

definition layout_ok :: "json_layout \<Rightarrow> bool" where
  "layout_ok l \<longleftrightarrow>
     (\<forall>k. list_all json_space (ws_open l k) \<and> list_all json_space (ws_comma l k) \<and> list_all json_space (ws_close l k))"

lemma layouts_ok [simp]: "layout_ok compact_layout" "layout_ok indent_layout"
  by (simp_all add: layout_ok_def compact_layout_def indent_layout_def new_line_def list_all_iff)

lemma layout_okD:
  assumes "layout_ok l"
  shows "list_all json_space (ws_open l k)" "list_all json_space (ws_comma l k)" "list_all json_space (ws_close l k)"
  using assms by (simp_all add: layout_ok_def)

text \<open>The compact layout is the default one.\<close>

lemma compact_layout_simps [simp]:
  "ws_open compact_layout k = []" "ws_comma compact_layout k = '' ''" "ws_close compact_layout k = []"
  by (simp_all add: compact_layout_def)

lemma json_print_compact: "json_print compact_layout k v = json_dumps v"
proof (induction v arbitrary: k)
  case (PList vs)
  then have "map (json_print compact_layout (k + 1)) vs = map json_dumps vs" by simp
  then show ?case by (simp only: json_print.simps json_dumps.simps compact_layout_simps comma_join_with) simp
next
  case (PDict kvs)
  then have "map (\<lambda>(key, v). json_string key @ '': '' @ json_print compact_layout (k + 1) v) kvs =
      map (\<lambda>(key, v). json_string key @ '': '' @ json_dumps v) kvs" by (force simp: map_eq_conv)
  then show ?case by (simp only: json_print.simps json_dumps.simps compact_layout_simps comma_join_with) simp
qed simp_all

text \<open>The first character of a written value tells its kind and is no bracket that closes.\<close>

lemma json_print_first:
  assumes "json_plain v"
  obtains c cs where "json_print l k v = c # cs" "\<not> json_space c" "c \<noteq> CHR '']''"
proof (cases v)
  case (PInt i)
  obtain c cs where "int_str i = c # cs" "is_digit c \<or> c = CHR ''-''" by (rule int_str_first)
  moreover from this have "\<not> json_space c" "c \<noteq> CHR '']''"
    by (auto simp: json_space_def is_digit_def)
  ultimately show ?thesis using that PInt by simp
next
  case (PBool b)
  then show ?thesis using that by (cases b) (auto simp: json_space_def)
next
  case (PList vs)
  then show ?thesis using that by (cases "vs = []") auto
next
  case (PDict kvs)
  then show ?thesis using that by (cases "kvs = []") auto
qed (use assms that in \<open>auto simp: json_space_def json_string_def\<close>)

definition reads_back :: "json_layout \<Rightarrow> pyval \<Rightarrow> bool" where
  "reads_back l v \<longleftrightarrow>
     (\<forall>k n t. value_end t \<longrightarrow> 2 * length (json_print l k v @ t) < n \<longrightarrow>
        json_value n (json_print l k v @ t) = Some (v, t))"

lemma reads_backD:
  "reads_back l v \<Longrightarrow> value_end t \<Longrightarrow> 2 * length (json_print l k v @ t) < n \<Longrightarrow>
     json_value n (json_print l k v @ t) = Some (v, t)"
  unfolding reads_back_def by blast

lemma reads_backI:
  assumes "\<And>m k t. value_end t \<Longrightarrow> 2 * length (json_print l k v @ t) \<le> m \<Longrightarrow>
    json_value (Suc m) (json_print l k v @ t) = Some (v, t)"
  shows "reads_back l v"
  unfolding reads_back_def
proof (intro allI impI)
  fix k n t assume "value_end t" "2 * length (json_print l k v @ t) < n"
  with assms show "json_value n (json_print l k v @ t) = Some (v, t)" by (cases n) simp_all
qed

lemma skip_ws_print: "json_plain v \<Longrightarrow> skip_ws (json_print l k v @ t) = json_print l k v @ t"
  by (rule json_print_first [of v l k]) auto

lemma skip_ws_joined:
  "list_all json_plain (v # vs) \<Longrightarrow>
     skip_ws (join_with sep (map (json_print l k) (v # vs)) @ t) = join_with sep (map (json_print l k) (v # vs)) @ t"
  by (cases vs) (auto simp: skip_ws_print)

lemma json_items_print:
  assumes "\<forall>v \<in> set vs. reads_back l v" "list_all json_plain vs" "vs \<noteq> []"
    and "list_all json_space wc" "list_all json_space we"
    and "2 * length (join_with ('','' @ wc) (map (json_print l k) vs) @ we @ CHR '']'' # t) + 1 < n"
  shows "json_items n (join_with ('','' @ wc) (map (json_print l k) vs) @ we @ CHR '']'' # t) = Some (vs, t)"
  using assms(1-3,6)
proof (induction vs arbitrary: n)
  case (Cons v vs)
  obtain m where n: "n = Suc m" using Cons.prems(4) by (cases n) auto
  have v: "reads_back l v" using Cons.prems(1) by simp
  show ?case
  proof (cases vs)
    case Nil
    with Cons.prems(4) n
    have "json_value m (json_print l k v @ we @ CHR '']'' # t) = Some (v, we @ CHR '']'' # t)"
      by (intro reads_backD [OF v] value_end_spaces [OF assms(5)]) simp_all
    with Nil n assms(5) show ?thesis by (simp add: Let_def)
  next
    case (Cons w ws)
    let ?rest = "join_with ('','' @ wc) (map (json_print l k) vs) @ we @ CHR '']'' # t"
    have "json_value m (json_print l k v @ '','' @ wc @ ?rest) = Some (v, '','' @ wc @ ?rest)"
      using Cons.prems(4) n Cons by (intro reads_backD [OF v]) simp_all
    moreover have "json_items m ?rest = Some (vs, t)"
      using Cons.prems Cons.IH [of m] n Cons by simp
    moreover have "skip_ws ?rest = ?rest" using Cons.prems(2) Cons skip_ws_joined [of w ws] by simp
    ultimately show ?thesis using n Cons assms(4) by (simp add: Let_def)
  qed
qed simp

definition member_text :: "json_layout \<Rightarrow> nat \<Rightarrow> string \<times> pyval \<Rightarrow> string" where
  "member_text l k m = (case m of (key, v) \<Rightarrow> json_string key @ '': '' @ json_print l k v)"

lemma member_text_pair: "member_text l k (key, v) = json_string key @ '': '' @ json_print l k v"
  by (simp add: member_text_def)

lemma member_text_first: "member_text l k m = dquote # tl (member_text l k m)"
  by (simp add: member_text_def json_string_def split: prod.split)

lemma joined_members_first:
  "join_with sep (map (member_text l k) (m # ms)) @ t =
     dquote # tl (join_with sep (map (member_text l k) (m # ms)) @ t)"
  using member_text_first [of l k m] by (cases ms; cases "member_text l k m") auto

lemma json_members_print:
  assumes "\<forall>(key, v) \<in> set kvs. reads_back l v \<and> json_plain v" "kvs \<noteq> []"
    and "list_all json_space wc" "list_all json_space we"
    and "2 * length (join_with ('','' @ wc) (map (member_text l k) kvs) @ we @ CHR ''}'' # t) + 1 < n"
  shows "json_members n (join_with ('','' @ wc) (map (member_text l k) kvs) @ we @ CHR ''}'' # t) = Some (kvs, t)"
  using assms(1,2,5)
proof (induction kvs arbitrary: n)
  case (Cons m kvs)
  obtain key v where m: "m = (key, v)" by (cases m)
  obtain j where n: "n = Suc j" using Cons.prems(3) by (cases n) auto
  have v: "reads_back l v" "json_plain v" using Cons.prems(1) m by auto
  show ?case
  proof (cases kvs)
    case Nil
    with Cons.prems(3) n m
    have "json_value j (json_print l k v @ we @ CHR ''}'' # t) = Some (v, we @ CHR ''}'' # t)"
      by (intro reads_backD [OF v(1)] value_end_spaces [OF assms(4)]) (simp_all add: member_text_pair)
    with Nil n m v(2) assms(4) show ?thesis
      by (simp add: member_text_pair json_string_def json_chars_string skip_ws_print)
  next
    case (Cons m2 ms)
    let ?rest = "join_with ('','' @ wc) (map (member_text l k) kvs) @ we @ CHR ''}'' # t"
    have "json_value j (json_print l k v @ '','' @ wc @ ?rest) = Some (v, '','' @ wc @ ?rest)"
      using Cons.prems(3) n m Cons by (intro reads_backD [OF v(1)]) (simp_all add: member_text_pair)
    moreover have "json_members j ?rest = Some (kvs, t)"
      using Cons.prems Cons.IH [of j] n Cons by (simp add: m member_text_pair)
    moreover have "skip_ws ?rest = ?rest"
      using joined_members_first [of "'','' @ wc" l k m2 ms "we @ CHR ''}'' # t"] unfolding Cons
      by (metis json_space_simps(8) skip_ws_Cons)
    ultimately show ?thesis
      using n m v(2) Cons assms(3)
      by (simp add: member_text_pair json_string_def json_chars_string skip_ws_print)
  qed
qed simp

lemma dict_of_pairs_id: "dict_ok kvs \<Longrightarrow> dict_of_pairs kvs = kvs"
proof (induction kvs rule: rev_induct)
  case (snoc kv kvs)
  obtain k v where kv: "kv = (k, v)" by (cases kv)
  from snoc.prems kv have "dict_ok kvs" "\<not> dict_has kvs k" by (auto simp: dict_ok_def dict_has_def)
  with snoc.IH kv show ?case by (simp add: dict_of_pairs_def dict_set_absent)
qed (simp add: dict_of_pairs_def)

theorem json_reads_back: "layout_ok l \<Longrightarrow> json_plain v \<Longrightarrow> reads_back l v"
proof (induction v)
  case (PInt i)
  show ?case
  proof (rule reads_backI)
    fix m k t assume t: "value_end t"
    obtain c cs where c: "int_str i = c # cs" "is_digit c \<or> c = CHR ''-''" by (rule int_str_first)
    from c(2) have "c \<noteq> dquote" "c \<noteq> CHR ''{''" "c \<noteq> CHR ''[''" "c \<noteq> CHR ''n''" "c \<noteq> CHR ''t''" "c \<noteq> CHR ''f''"
      by (auto simp: is_digit_def)
    with c json_number_int [OF t, of i]
    show "json_value (Suc m) (json_print l k (PInt i) @ t) = Some (PInt i, t)" by simp
  qed
next
  case (PStr x)
  show ?case
    by (rule reads_backI) (simp add: json_string_def json_chars_string)
next
  case (PList vs)
  have vs: "\<forall>v \<in> set vs. reads_back l v" "list_all json_plain vs" using PList by (auto simp: list_all_iff)
  note ws = layout_okD [OF PList.prems(1)]
  show ?case
  proof (rule reads_backI)
    fix m k t assume n: "2 * length (json_print l k (PList vs) @ t) \<le> m"
    let ?body = "join_with ('','' @ ws_comma l k) (map (json_print l (k + 1)) vs) @ ws_close l k @ CHR '']'' # t"
    show "json_value (Suc m) (json_print l k (PList vs) @ t) = Some (PList vs, t)"
    proof (cases vs)
      case Nil
      then show ?thesis by (simp add: Let_def)
    next
      case (Cons w ws')
      have "skip_ws (ws_open l k @ ?body) = ?body"
        using vs(2) Cons skip_ws_joined [of w ws'] ws(1) by simp
      moreover have "\<not> starts (CHR '']'') ?body"
        by (rule json_print_first [of w l "k + 1"]) (use vs(2) Cons in \<open>cases ws'; simp\<close>)+
      moreover have "json_items m ?body = Some (vs, t)"
        by (rule json_items_print [OF vs _ ws(2,3)]) (use Cons n in simp_all)
      ultimately show ?thesis using Cons by (simp add: Let_def)
    qed
  qed
next
  case (PDict kvs)
  have kvs: "\<forall>(key, v) \<in> set kvs. reads_back l v \<and> json_plain v" using PDict by (fastforce simp: list_all_iff)
  note ws = layout_okD [OF PDict.prems(1)]
  show ?case
  proof (rule reads_backI)
    fix m k t assume n: "2 * length (json_print l k (PDict kvs) @ t) \<le> m"
    let ?body = "join_with ('','' @ ws_comma l k) (map (member_text l (k + 1)) kvs) @ ws_close l k @ CHR ''}'' # t"
    show "json_value (Suc m) (json_print l k (PDict kvs) @ t) = Some (PDict kvs, t)"
    proof (cases kvs)
      case Nil
      then show ?thesis by (simp add: Let_def)
    next
      case (Cons w ws')
      have full: "json_print l k (PDict kvs) @ t = CHR ''{'' # ws_open l k @ ?body"
        using Cons by (simp add: member_text_def [abs_def])
      obtain r where r: "?body = dquote # r" using joined_members_first [of _ l "k + 1" w ws'] Cons by blast
      have "json_members m ?body = Some (kvs, t)"
        by (rule json_members_print [OF kvs _ ws(2,3)]) (use Cons n full in simp_all)
      with r dict_of_pairs_id [of kvs] PDict.prems ws(1) show ?thesis
        unfolding full by (simp add: Let_def)
    qed
  qed
qed (rule reads_backI; simp add: json_literal_def)+

text \<open>The round trips: compact, and indented with sorted keys and white space after it.\<close>

lemma json_loads_print:
  assumes "layout_ok l" "json_plain v" "list_all json_space t"
  shows "json_loads (json_print l k v @ t) = Some v"
proof -
  have "value_end t" using value_end_spaces [OF assms(3), of "[]"] by simp
  from reads_backD [OF json_reads_back [OF assms(1,2)] this, of k "2 * length (json_print l k v @ t) + 1"]
    skip_ws_print [OF assms(2), of l k t] skip_ws_spaces [OF assms(3), of "[]"]
  show ?thesis by (simp add: json_loads_def skip_ws_def)
qed

theorem json_loads_dumps: "json_plain v \<Longrightarrow> json_loads (json_dumps v) = Some v"
  using json_loads_print [of compact_layout v "[]" 0] by (simp add: json_print_compact)

lemma sort_keys_plain: "json_plain v \<Longrightarrow> json_plain (sort_keys v)"
proof (induction v)
  case (PDict kvs)
  let ?kvs = "map (\<lambda>(k, v). (k, sort_keys v)) kvs"
  have keys: "dict_keys ?kvs = dict_keys kvs" by (induction kvs) auto
  have "distinct (map fst ?kvs)" using PDict.prems unfolding keys by (simp add: dict_ok_def)
  then have "distinct (map fst (sort_key fst ?kvs))"
    unfolding distinct_map [of fst] by (simp only: distinct_sort set_sort)
  moreover have "\<forall>(k, v) \<in> set (sort_key fst ?kvs). json_plain v"
    using PDict by (fastforce simp: list_all_iff)
  ultimately show ?case by (simp add: dict_ok_def list_all_iff)
qed (auto simp: list_all_iff)

theorem json_loads_indented:
  "json_plain v \<Longrightarrow> list_all json_space t \<Longrightarrow> json_loads (json_dumps_indented v @ t) = Some (sort_keys v)"
  unfolding json_dumps_indented_def by (rule json_loads_print [OF layouts_ok(2) sort_keys_plain])

end
