(* ===== verification/Architect.thy ===== *)
theory Architect
  imports Code_Generation Json
begin

text \<open>
  \<open>workers/architect.py\<close> and \<open>workers/architect_prompts.py\<close>: a review is one call of the provider
  manager, its answer is parsed into a score between 0 and 100 with findings and sections, compared
  with the last review of the same target and kind, stored and announced. The worker's state is the
  manager it uses, the in-memory review store and its bus. The theorems hold for every JSON decoder;
  the witnesses use the one of \<open>Json\<close>.
\<close>

section \<open>workers/architect_prompts.py\<close>

datatype ReviewKind =
  ARCHITECTURE_REVIEW | RUNTIME_ANALYSIS | SPEC_GENERATION | REFACTOR_REVIEW

fun kind_value :: "ReviewKind \<Rightarrow> string" where
  "kind_value ARCHITECTURE_REVIEW = ''architecture_review''"
| "kind_value RUNTIME_ANALYSIS = ''runtime_analysis''"
| "kind_value SPEC_GENERATION = ''spec_generation''"
| "kind_value REFACTOR_REVIEW = ''refactor_review''"

fun kind_capability :: "ReviewKind \<Rightarrow> Capability" where
  "kind_capability ARCHITECTURE_REVIEW = ARCHITECTURE"
| "kind_capability RUNTIME_ANALYSIS = ANALYSIS"
| "kind_capability SPEC_GENERATION = ARCHITECTURE"
| "kind_capability REFACTOR_REVIEW = REVIEW"

fun kind_task_type :: "ReviewKind \<Rightarrow> string" where
  "kind_task_type ARCHITECTURE_REVIEW = ''architecture.review''"
| "kind_task_type RUNTIME_ANALYSIS = ''analysis.runtime''"
| "kind_task_type SPEC_GENERATION = ''architecture.spec''"
| "kind_task_type REFACTOR_REVIEW = ''review.refactor''"

fun kind_role :: "ReviewKind \<Rightarrow> string" where
  "kind_role ARCHITECTURE_REVIEW = ''design review''"
| "kind_role RUNTIME_ANALYSIS = ''runtime/orchestration analysis''"
| "kind_role SPEC_GENERATION = ''specification generation''"
| "kind_role REFACTOR_REVIEW = ''refactor review''"

definition review_system :: "ReviewKind \<Rightarrow> string" where
  "review_system k =
     ''You are a Principal Software Architect performing a '' @ kind_role k @ ''. '' @
     ''Be precise, deterministic, and conservative. '' @
     ''Respond with ONLY a JSON object and no prose. Schema: '' @
     map (\<lambda>c. if c = CHR ''`'' then dquote else c)
       (''{`score`: <int 0-100>, `summary`: <string>, '' @
        ''`findings`: [<string>, ...], `sections`: [<string>, ...]}. '') @
     ''score is overall architectural health (100 = excellent). '' @
     ''findings are concrete issues or risks. sections is the document outline '' @
     ''(used for spec generation; otherwise []).''"

definition review_request :: "ReviewKind \<Rightarrow> string \<Rightarrow> string \<Rightarrow> LLMRequest" where
  "review_request k target content =
     (let user = ''Target: '' @ target @ [newline] @ ''Review kind: '' @ kind_value k @ [newline] @
            ''--- material ---'' @ [newline] @ content @ [newline] @ ''--- end ---'' @ [newline] @
            ''Return the JSON object now.''
      in \<lparr>req_model = ''auto'',
          messages = [\<lparr>msg_role = ''system'', msg_content = review_system k, msg_metadata = []\<rparr>,
                      \<lparr>msg_role = ''user'', msg_content = user, msg_metadata = []\<rparr>],
          max_tokens = None, temperature = Some 0, top_p = None, stop = None,
          response_format = Some ''json'', req_tools = None, req_metadata = []\<rparr>)"

section \<open>workers/architect.py\<close>

definition DRIFT_THRESHOLD :: int where "DRIFT_THRESHOLD = 15"

record ReviewResult =
  review_kind :: ReviewKind
  review_target :: string
  review_provider :: string
  score :: int
  summary :: string
  findings :: "string list"
  review_sections :: "string list"
  drift_detected :: bool
  review_degraded :: bool

type_synonym review_store = "(string \<times> string, ReviewResult list) dict"

definition review_save :: "ReviewResult \<Rightarrow> review_store \<Rightarrow> review_store" where
  "review_save r st =
     (let key = (review_target r, kind_value (review_kind r))
      in dict_set key (dict_get_default st key [] @ [r]) st)"

definition latest_score :: "review_store \<Rightarrow> string \<Rightarrow> ReviewKind \<Rightarrow> int option" where
  "latest_score st target k =
     (let entries = dict_get_default st (target, kind_value k) []
      in if entries \<noteq> [] then Some (score (last entries)) else None)"

record architect =
  arch_manager :: manager
  arch_store :: review_store
  arch_bus :: event_bus

record parsed_review =
  p_score :: int
  p_summary :: string
  p_findings :: "string list"
  p_sections :: "string list"
  p_degraded :: bool

text \<open>\<open>int(v)\<close> of a number, else 0.\<close>

fun raw_score :: "pyval \<Rightarrow> int" where
  "raw_score (PInt i) = i"
| "raw_score (PBool b) = (if b then 1 else 0)"
| "raw_score (PFloat q) = (if q < 0 then \<lceil>q\<rceil> else \<lfloor>q\<rfloor>)"
| "raw_score _ = 0"

fun str_list :: "pyval \<Rightarrow> string list" where
  "str_list (PList vs) = map py_str vs"
| "str_list _ = []"

definition parse_review :: "(string \<Rightarrow> pyval option) \<Rightarrow> string \<Rightarrow> parsed_review" where
  "parse_review jl content =
     (case jl content of
        Some (PDict d) \<Rightarrow>
          \<lparr>p_score = max 0 (min 100 (raw_score (dict_get_default d ''score'' (PInt 0)))),
           p_summary = py_str (dict_get_default d ''summary'' (PStr [])),
           p_findings = str_list (dict_get_default d ''findings'' (PList [])),
           p_sections = str_list (dict_get_default d ''sections'' (PList [])),
           p_degraded = False\<rparr>
      | _ \<Rightarrow>
          \<lparr>p_score = 0, p_summary = take 200 content, p_findings = [], p_sections = [],
           p_degraded = True\<rparr>)"

definition arch_emit :: "architecture_event \<Rightarrow> architect \<Rightarrow> architect" where
  "arch_emit e a = a\<lparr>arch_bus := publish (Architecture_Event e) (arch_bus a)\<rparr>"

definition emit_review_events :: "ReviewResult \<Rightarrow> int option \<Rightarrow> architect \<Rightarrow> architect" where
  "emit_review_events r previous a =
     (let a1 = arch_emit (ArchitectureReviewed (review_target r) (kind_value (review_kind r)) (score r)
                 (int (length (findings r))) (review_provider r)) a;
          a2 = (if review_kind r = SPEC_GENERATION
                then arch_emit (SpecGenerated (review_target r) (kind_value (review_kind r))
                       (review_provider r) (int (length (review_sections r)))) a1
                else a1)
      in case previous of
           Some p \<Rightarrow>
             if drift_detected r
             then arch_emit (ArchitectureDriftDetected (review_target r) p (score r) (p - score r)) a2
             else a2
         | None \<Rightarrow> a2)"

definition unserved_review :: "ReviewKind \<Rightarrow> string \<Rightarrow> ReviewResult" where
  "unserved_review k target =
     \<lparr>review_kind = k, review_target = target, review_provider = ''none'', score = 0,
      summary = ''no provider available for cognition'', findings = [], review_sections = [],
      drift_detected = False, review_degraded = True\<rparr>"

definition served_review :: "ReviewKind \<Rightarrow> string \<Rightarrow> string \<Rightarrow> parsed_review \<Rightarrow> int option \<Rightarrow> ReviewResult" where
  "served_review k target prov p previous =
     \<lparr>review_kind = k, review_target = target, review_provider = prov, score = p_score p,
      summary = p_summary p, findings = p_findings p, review_sections = p_sections p,
      drift_detected = (case previous of None \<Rightarrow> False | Some q \<Rightarrow> DRIFT_THRESHOLD \<le> q - p_score p),
      review_degraded = p_degraded p\<rparr>"

definition run_review ::
  "environment \<Rightarrow> (string \<Rightarrow> pyval option) \<Rightarrow> ReviewKind \<Rightarrow> string \<Rightarrow> string \<Rightarrow> architect \<Rightarrow>
     (exn + ReviewResult) \<times> architect" where
  "run_review env jl k target content a =
     (let previous = latest_score (arch_store a) target k in
      case manager_complete env (review_request k target content) (kind_capability k) None (arch_manager a) of
        (Inl e, m) \<Rightarrow>
          (let a1 = a\<lparr>arch_manager := m\<rparr> in
           if isinstance_exn e NoProviderAvailable
           then (let r = unserved_review k target
                 in (Inr r, a1\<lparr>arch_store := review_save r (arch_store a1)\<rparr>))
           else (Inl e, a1))
      | (Inr ans, m) \<Rightarrow>
          (let r = served_review k target (inv_provider ans) (parse_review jl (inv_content ans)) previous;
               a1 = a\<lparr>arch_manager := m, arch_store := review_save r (arch_store a)\<rparr>
           in (Inr r, emit_review_events r previous a1)))"

text \<open>The four handlers.\<close>

definition review_architecture where "review_architecture env jl = run_review env jl ARCHITECTURE_REVIEW"
definition analyze_runtime where "analyze_runtime env jl = run_review env jl RUNTIME_ANALYSIS"
definition generate_spec where "generate_spec env jl = run_review env jl SPEC_GENERATION"
definition review_refactor where "review_refactor env jl = run_review env jl REFACTOR_REVIEW"

section \<open>The store\<close>

lemma kind_value_inj: "kind_value k = kind_value k' \<longleftrightarrow> k = k'"
  by (cases k; cases k') simp_all

lemma latest_score_save:
  "latest_score (review_save r st) target k =
     (if target = review_target r \<and> k = review_kind r then Some (score r) else latest_score st target k)"
  by (auto simp: latest_score_def review_save_def kind_value_inj Let_def)

section \<open>What a review leaves behind\<close>

text \<open>The events of a review that was served.\<close>

definition review_events :: "ReviewResult \<Rightarrow> int option \<Rightarrow> domain_event list" where
  "review_events r previous =
     [Architecture_Event (ArchitectureReviewed (review_target r) (kind_value (review_kind r)) (score r)
        (int (length (findings r))) (review_provider r))] @
     (if review_kind r = SPEC_GENERATION
      then [Architecture_Event (SpecGenerated (review_target r) (kind_value (review_kind r))
              (review_provider r) (int (length (review_sections r))))] else []) @
     (case previous of
        Some p \<Rightarrow> if DRIFT_THRESHOLD \<le> p - score r
          then [Architecture_Event (ArchitectureDriftDetected (review_target r) p (score r) (p - score r))] else []
      | None \<Rightarrow> [])"

lemma emit_review_events_bus:
  assumes "arch_bus a = Some evs"
    and "drift_detected r = (case previous of None \<Rightarrow> False | Some p \<Rightarrow> DRIFT_THRESHOLD \<le> p - score r)"
  shows "arch_bus (emit_review_events r previous a) = Some (evs @ review_events r previous)"
  using assms by (auto simp: emit_review_events_def review_events_def arch_emit_def publish_def Let_def
      split: option.split)

lemma emit_review_events_store [simp]:
  "arch_store (emit_review_events r previous a) = arch_store a"
  by (auto simp: emit_review_events_def arch_emit_def Let_def split: option.split)

text \<open>A review that returns: its result, by what the manager did.\<close>

lemma run_review_cases:
  assumes "run_review env jl k target content a = (Inr r, a')"
  obtains (unserved) e where "r = unserved_review k target" "arch_bus a' = arch_bus a"
      "arch_store a' = review_save r (arch_store a)"
      "fst (manager_complete env (review_request k target content) (kind_capability k) None (arch_manager a)) = Inl e"
  | (served) ans where
      "r = served_review k target (inv_provider ans) (parse_review jl (inv_content ans))
             (latest_score (arch_store a) target k)"
      "\<forall>evs. arch_bus a = Some evs \<longrightarrow>
         arch_bus a' = Some (evs @ review_events r (latest_score (arch_store a) target k))"
      "arch_store a' = review_save r (arch_store a)"
      "fst (manager_complete env (review_request k target content) (kind_capability k) None (arch_manager a)) = Inr ans"
proof -
  obtain res m where mc: "manager_complete env (review_request k target content) (kind_capability k) None
      (arch_manager a) = (res, m)" by fastforce
  show ?thesis
  proof (cases res)
    case (Inl e)
    with assms mc show ?thesis
      by (intro unserved [of e]) (auto simp: run_review_def Let_def split: if_splits)
  next
    case (Inr ans)
    let ?previous = "latest_score (arch_store a) target k"
    let ?r = "served_review k target (inv_provider ans) (parse_review jl (inv_content ans)) ?previous"
    have r: "r = ?r" and a': "a' = emit_review_events r ?previous (a\<lparr>arch_manager := m, arch_store := review_save r (arch_store a)\<rparr>)"
      using assms mc Inr by (auto simp: run_review_def Let_def)
    have "drift_detected r = (case ?previous of None \<Rightarrow> False | Some p \<Rightarrow> DRIFT_THRESHOLD \<le> p - score r)"
      unfolding r served_review_def by (simp split: option.split)
    from emit_review_events_bus [OF _ this] show ?thesis
      using mc Inr r by (intro served [of ans]) (simp_all add: a')
  qed
qed

lemma parsed_score_bounds: "0 \<le> p_score (parse_review jl s) \<and> p_score (parse_review jl s) \<le> 100"
  by (auto simp: parse_review_def split: option.split pyval.split)

lemma parsed_degraded: "p_degraded (parse_review jl s) \<Longrightarrow> p_score (parse_review jl s) = 0"
  by (auto simp: parse_review_def split: option.splits pyval.splits)

lemma run_review_store:
  assumes "run_review env jl k target content a = (Inr r, a')"
  shows "arch_store a' = review_save r (arch_store a)" "review_kind r = k" "review_target r = target"
    "0 \<le> score r" "score r \<le> 100" "review_degraded r \<Longrightarrow> score r = 0"
  using assms parsed_score_bounds parsed_degraded
  by (cases rule: run_review_cases; auto simp: unserved_review_def served_review_def)+

lemma run_review_raised:
  "run_review env jl k target content a = (Inl e, a') \<Longrightarrow> arch_store a' = arch_store a"
  by (auto simp: run_review_def Let_def split: prod.splits sum.splits if_splits)

section \<open>Histories of reviews\<close>

datatype review_op = Review environment "string \<Rightarrow> pyval option" ReviewKind string string

fun review_step :: "architect \<Rightarrow> review_op \<Rightarrow> architect" where
  "review_step a (Review env jl k target content) = snd (run_review env jl k target content a)"

definition review_ok :: "string \<times> string \<Rightarrow> ReviewResult \<Rightarrow> bool" where
  "review_ok key r \<longleftrightarrow> key = (review_target r, kind_value (review_kind r)) \<and> 0 \<le> score r \<and> score r \<le> 100 \<and>
     (review_degraded r \<longrightarrow> score r = 0)"

definition store_reviews_ok :: "architect \<Rightarrow> bool" where
  "store_reviews_ok a \<longleftrightarrow> (\<forall>key rs. dict_get (arch_store a) key = Some rs \<longrightarrow> rs \<noteq> [] \<and> (\<forall>r \<in> set rs. review_ok key r))"

lemma review_step_ok:
  assumes "store_reviews_ok a"
  shows "store_reviews_ok (review_step a op)"
proof (cases op)
  case (Review env jl k target content)
  obtain res a' where run: "run_review env jl k target content a = (res, a')" by fastforce
  show ?thesis
  proof (cases res)
    case (Inl e)
    with run_review_raised run Review assms show ?thesis by (simp add: store_reviews_ok_def)
  next
    case (Inr r)
    note st = run_review_store [OF run [unfolded Inr]]
    have ok: "review_ok (target, kind_value k) r" using st by (auto simp: review_ok_def)
    have "arch_store (review_step a op) = dict_set (target, kind_value k)
        (dict_get_default (arch_store a) (target, kind_value k) [] @ [r]) (arch_store a)"
      using Review run st(1-3) by (simp add: review_save_def Let_def)
    with assms ok show ?thesis
      by (auto simp: store_reviews_ok_def dict_get_default_def split: option.splits)
  qed
qed

interpretation reviews: invariant_system review_step store_reviews_ok
  by unfold_locales (rule review_step_ok)

definition new_architect :: "manager \<Rightarrow> event_bus \<Rightarrow> architect" where
  "new_architect m bus = \<lparr>arch_manager = m, arch_store = [], arch_bus = bus\<rparr>"

text \<open>
  C30: After any sequence of reviews, whatever the vendors answer, every stored review is filed
  under its own target and kind and has a score between 0 and 100, and 0 if it is degraded; the
  latest score of a target is that of its last review.
\<close>

theorem stored_reviews_are_sound:
  "let a = run review_step (new_architect m bus) ops in
     (\<forall>target k rs. dict_get (arch_store a) (target, kind_value k) = Some rs \<longrightarrow>
        latest_score (arch_store a) target k = Some (score (last rs)) \<and>
        (\<forall>r \<in> set rs. review_target r = target \<and> review_kind r = k \<and> 0 \<le> score r \<and> score r \<le> 100 \<and>
           (review_degraded r \<longrightarrow> score r = 0)))"
proof -
  have "store_reviews_ok (new_architect m bus)" by (simp add: store_reviews_ok_def new_architect_def)
  from reviews.run_inv [OF this] have "store_reviews_ok (run review_step (new_architect m bus) ops)" .
  then show ?thesis
    by (fastforce simp: store_reviews_ok_def review_ok_def latest_score_def dict_get_default_def
        kind_value_inj Let_def)
qed

text \<open>
  What a review announces. If no provider could serve it, nothing; otherwise the review, for a
  specification its sections, and a drift exactly if a previous score of the same target and kind
  exists and the new one is at least 15 below it. In either case the result is stored and its
  score is the latest one.
\<close>

theorem review_announcements:
  assumes "run_review env jl k target content a = (Inr r, a')" "arch_bus a = Some evs"
  shows "latest_score (arch_store a') target k = Some (score r) \<and>
    arch_bus a' = Some (evs @
      (if fst (manager_complete env (review_request k target content) (kind_capability k) None (arch_manager a))
           \<in> range Inl then [] else
       [Architecture_Event (ArchitectureReviewed target (kind_value k) (score r) (int (length (findings r)))
          (review_provider r))] @
       (if k = SPEC_GENERATION
        then [Architecture_Event (SpecGenerated target (kind_value k) (review_provider r)
                (int (length (review_sections r))))] else []) @
       (case latest_score (arch_store a) target k of
          Some p \<Rightarrow> if 15 \<le> p - score r
            then [Architecture_Event (ArchitectureDriftDetected target p (score r) (p - score r))] else []
        | None \<Rightarrow> [])))"
proof -
  note st = run_review_store [OF assms(1)]
  from assms(1) show ?thesis
  proof (cases rule: run_review_cases)
    case (unserved e)
    then show ?thesis using st(1-3) assms(2) by (simp add: latest_score_save)
  next
    case (served ans)
    have "fst (manager_complete env (review_request k target content) (kind_capability k) None (arch_manager a))
        \<notin> range Inl" using served(4) by auto
    with served(2) assms(2) st(1-3) show ?thesis
      by (simp add: latest_score_save review_events_def DRIFT_THRESHOLD_def split: option.split)
  qed
qed

text \<open>
  An answer that is no JSON object scores 0. If the last review of the target scored 15 or
  more, this alone is announced as an architecture drift of the whole score, although nothing was
  learned about the target.
\<close>

theorem unparsable_answer_is_drift:
  assumes "run_review env jl k target content a = (Inr r, a')" "arch_bus a = Some evs"
    and "fst (manager_complete env (review_request k target content) (kind_capability k) None (arch_manager a)) = Inr ans"
    and "jl (inv_content ans) = None"
    and "latest_score (arch_store a) target k = Some p" "15 \<le> p"
  shows "\<exists>new. arch_bus a' = Some (evs @ new) \<and>
    Architecture_Event (ArchitectureDriftDetected target p 0 p) \<in> set new \<and> score r = 0 \<and>
    latest_score (arch_store a') target k = Some 0"
proof -
  note st = run_review_store [OF assms(1)]
  from assms(1) show ?thesis
  proof (cases rule: run_review_cases)
    case (served ans')
    with assms(3,4) have "score r = 0" by (simp add: served_review_def parse_review_def)
    with served(2) assms(2,5,6) st(1-3) show ?thesis
      by (auto simp: review_events_def latest_score_save DRIFT_THRESHOLD_def)
  qed (use assms(3) in simp)
qed

section \<open>A sample review\<close>

text \<open>A vendor that answers every request with a fixed text, and the decoder of \<open>Json\<close>.\<close>

definition answering :: "string \<Rightarrow> environment" where
  "answering text = \<lparr>clock = (\<lambda>n. int n),
     vendor = (\<lambda>nm req n. Inr \<lparr>resp_model = [], resp_content = text, finish_reason = ''stop'',
       usage = \<lparr>prompt_tokens = 0, completion_tokens = 0, total_tokens = 0\<rparr>, tool_calls = [],
       resp_metadata = []\<rparr>)\<rparr>"

definition good_answer :: string where
  "good_answer = ''{'' @ [dquote] @ ''score'' @ [dquote] @ '': 80}''"

definition reviewed :: architect where
  "reviewed = snd (run_review (answering good_answer) json_loads ARCHITECTURE_REVIEW ''t'' ''c''
     (new_architect (sample_manager None) (Some [])))"

lemma sample_review:
  "case fst (run_review (answering ''bad'') json_loads ARCHITECTURE_REVIEW ''t'' ''c'' reviewed) of
     Inr r \<Rightarrow> True | Inl e \<Rightarrow> False"
  "latest_score (arch_store reviewed) ''t'' ARCHITECTURE_REVIEW = Some 80"
  "\<not> (case arch_bus reviewed of None \<Rightarrow> True | Some _ \<Rightarrow> False)"
  "case fst (manager_complete (answering ''bad'') (review_request ARCHITECTURE_REVIEW ''t'' ''c'') ARCHITECTURE None
     (arch_manager reviewed)) of Inr ans \<Rightarrow> inv_content ans = ''bad'' | Inl e \<Rightarrow> False"
  by code_simp+

lemma sample_reviewE:
  obtains r a' evs ans where
    "run_review (answering ''bad'') json_loads ARCHITECTURE_REVIEW ''t'' ''c'' reviewed = (Inr r, a')"
    "arch_bus reviewed = Some evs"
    "fst (manager_complete (answering ''bad'') (review_request ARCHITECTURE_REVIEW ''t'' ''c'')
       (kind_capability ARCHITECTURE_REVIEW) None (arch_manager reviewed)) = Inr ans"
    "json_loads (inv_content ans) = None"
proof -
  have bad: "json_loads ''bad'' = None" by code_simp
  from sample_review(1) obtain r a' where
    "run_review (answering ''bad'') json_loads ARCHITECTURE_REVIEW ''t'' ''c'' reviewed = (Inr r, a')"
    by (cases "run_review (answering ''bad'') json_loads ARCHITECTURE_REVIEW ''t'' ''c'' reviewed")
      (auto split: sum.splits)
  moreover from sample_review(3) obtain evs where "arch_bus reviewed = Some evs"
    by (auto split: option.splits)
  moreover from sample_review(4) obtain ans where
    "fst (manager_complete (answering ''bad'') (review_request ARCHITECTURE_REVIEW ''t'' ''c'')
       (kind_capability ARCHITECTURE_REVIEW) None (arch_manager reviewed)) = Inr ans" "inv_content ans = ''bad''"
    by (auto split: sum.splits)
  ultimately show ?thesis using that bad by simp
qed

theorem stored_reviews_are_sound_witness:
  "let a = run review_step (new_architect (sample_manager None) (Some []))
       [Review (answering good_answer) json_loads ARCHITECTURE_REVIEW ''t'' ''c'']
   in case dict_get (arch_store a) (''t'', kind_value ARCHITECTURE_REVIEW) of
        None \<Rightarrow> False
      | Some rs \<Rightarrow> latest_score (arch_store a) ''t'' ARCHITECTURE_REVIEW = Some (score (last rs)) \<and>
          list_all (\<lambda>r. review_target r = ''t'' \<and> 0 \<le> score r \<and> score r \<le> 100) rs"
proof -
  from sample_review(2) obtain rs where
    rs: "dict_get (arch_store reviewed) (''t'', kind_value ARCHITECTURE_REVIEW) = Some rs"
    by (auto simp: latest_score_def dict_get_default_def Let_def split: option.splits if_splits)
  have run: "run review_step (new_architect (sample_manager None) (Some []))
      [Review (answering good_answer) json_loads ARCHITECTURE_REVIEW ''t'' ''c''] = reviewed"
    by (simp add: reviewed_def)
  note sound = stored_reviews_are_sound [of "sample_manager None" "Some []"
    "[Review (answering good_answer) json_loads ARCHITECTURE_REVIEW ''t'' ''c'']", unfolded run Let_def]
  from sound [rule_format, OF rs] have
    "latest_score (arch_store reviewed) ''t'' ARCHITECTURE_REVIEW = Some (score (last rs))"
    "\<forall>r \<in> set rs. review_target r = ''t'' \<and> 0 \<le> score r \<and> score r \<le> 100"
    by auto
  then show ?thesis unfolding run Let_def rs option.case list_all_iff by blast
qed

theorem review_announcements_witness:
  "\<exists>r a'. run_review (answering ''bad'') json_loads ARCHITECTURE_REVIEW ''t'' ''c'' reviewed = (Inr r, a') \<and>
     latest_score (arch_store a') ''t'' ARCHITECTURE_REVIEW = Some (score r)"
  by (rule sample_reviewE) (use review_announcements in blast)

theorem unparsable_answer_is_drift_witness:
  "\<exists>r a'. run_review (answering ''bad'') json_loads ARCHITECTURE_REVIEW ''t'' ''c'' reviewed = (Inr r, a') \<and>
     score r = 0 \<and> latest_score (arch_store a') ''t'' ARCHITECTURE_REVIEW = Some 0"
proof (rule sample_reviewE)
  fix r a' evs ans
  assume run: "run_review (answering ''bad'') json_loads ARCHITECTURE_REVIEW ''t'' ''c'' reviewed = (Inr r, a')"
    and rest: "arch_bus reviewed = Some evs"
    "fst (manager_complete (answering ''bad'') (review_request ARCHITECTURE_REVIEW ''t'' ''c'')
       (kind_capability ARCHITECTURE_REVIEW) None (arch_manager reviewed)) = Inr ans"
    "json_loads (inv_content ans) = None"
  from unparsable_answer_is_drift [OF run rest sample_review(2)] run show ?thesis by auto
qed

end
