(* ===== verification/Composition.thy ===== *)
theory Composition
  imports Routing Task_Chaining Self_Healing Architect
begin

text \<open>
  \<open>runtime/composition.py\<close>: the configuration of the providers, the registry built from it and the
  assembled runtime. The vendor adapters behind the providers are the vendor parameter of the
  model; \<open>Wired_Runtime\<close> puts the adapters built from the keys in its place.
\<close>

record ProvidersConfig =
  openrouter_api_key :: "string option"
  openrouter_base_url :: string
  openrouter_model :: string
  openai_api_key :: "string option"
  openai_model :: string
  enable_local_fallback :: bool
  referer :: string

definition openrouter_url :: string where "openrouter_url = ''https://openrouter.ai/api/v1''"
definition default_openrouter_model :: string where
  "default_openrouter_model = ''qwen/qwen-2.5-coder-32b-instruct''"

definition default_config :: ProvidersConfig where
  "default_config =
     \<lparr>openrouter_api_key = None, openrouter_base_url = openrouter_url,
      openrouter_model = default_openrouter_model, openai_api_key = None,
      openai_model = ''gpt-4o-mini'', enable_local_fallback = True,
      referer = ''https://github.com/fmonfasani/hookclose''\<rparr>"

text \<open>\<open>os.environ\<close> is a parameter; \<open>v or None\<close> drops an empty value.\<close>

definition non_empty :: "string option \<Rightarrow> string option" where
  "non_empty v = (case v of Some s \<Rightarrow> if s \<noteq> [] then Some s else None | None \<Rightarrow> None)"

definition config_from_env :: "(string \<Rightarrow> string option) \<Rightarrow> ProvidersConfig" where
  "config_from_env env = default_config
     \<lparr>openrouter_api_key := non_empty (env ''OPENROUTER_API_KEY''),
      openrouter_base_url := (case env ''OPENROUTER_BASE_URL'' of Some s \<Rightarrow> s | None \<Rightarrow> openrouter_url),
      openrouter_model := (case env ''OPENROUTER_MODEL'' of Some s \<Rightarrow> s | None \<Rightarrow> default_openrouter_model),
      openai_api_key := non_empty (env ''OPENAI_API_KEY''),
      openai_model := (case env ''OPENAI_MODEL'' of Some s \<Rightarrow> s | None \<Rightarrow> ''gpt-4o-mini'')\<rparr>"

definition general_caps :: "Capability set" where
  "general_caps = {CODE_GENERATION, REVIEW, ANALYSIS, EXTRACTION}"

definition openrouter_profile :: ProviderProfile where
  "openrouter_profile = mk_profile ''openrouter'' general_caps (3 / 10) 128000"

text \<open>A key that is set and not empty.\<close>

definition has_key :: "string option \<Rightarrow> bool" where
  "has_key k \<longleftrightarrow> non_empty k \<noteq> None"

definition build_provider_registry :: "ProvidersConfig \<Rightarrow> exn + registry" where
  "build_provider_registry cfg =
     try_bind (if has_key (openrouter_api_key cfg)
               then register_provider (OpenAIProvider (Some openrouter_profile)) False [] else Inr []) (\<lambda>reg1.
     try_bind (if has_key (openai_api_key cfg)
               then register_provider (OpenAIProvider None) False reg1 else Inr reg1) (\<lambda>reg2.
     if enable_local_fallback cfg \<or> provider_names reg2 = []
     then register_provider (LocalProvider False None) False reg2 else Inr reg2))"

text \<open>
  The bundle. The registry lives in the manager; the routing engine reads the same one. With a bus,
  each component publishes to its own share of it.
\<close>

record Runtime =
  rt_manager :: manager
  rt_routing :: RoutingPolicy
  rt_chainer :: chainer
  rt_healing :: healing
  rt_provider_names :: "string list"

definition build_runtime :: "ProvidersConfig \<Rightarrow> event_bus \<Rightarrow> state_store \<Rightarrow> exn + Runtime" where
  "build_runtime cfg bus store =
     try_bind (build_provider_registry cfg) (\<lambda>reg. Inr
       \<lparr>rt_manager = \<lparr>mgr_registry = reg, mgr_store = store, mgr_bus = bus, moment = 0\<rparr>,
        rt_routing = default_routing_policy,
        rt_chainer = new_chainer default_chain_policy bus,
        rt_healing = new_healing default_repair_policy bus,
        rt_provider_names = provider_names reg\<rparr>)"

section \<open>The registry that is built\<close>

lemmas composition_profiles = openrouter_profile_def openai_profile_def local_profile_def mk_profile_def

definition configured :: "ProvidersConfig \<Rightarrow> registry" where
  "configured cfg =
     (if has_key (openrouter_api_key cfg) then [(''openrouter'', new_provider openrouter_profile AdapterBackend)] else []) @
     (if has_key (openai_api_key cfg) then [(''openai'', new_provider openai_profile AdapterBackend)] else []) @
     (if enable_local_fallback cfg \<or> \<not> has_key (openrouter_api_key cfg) \<and> \<not> has_key (openai_api_key cfg)
      then [(''local'', new_provider local_profile (LocalBackend False))] else [])"

lemma build_registry_configured: "build_provider_registry cfg = Inr (configured cfg)"
  by (simp add: build_provider_registry_def configured_def register_provider_def provider_names_def
      dict_has_def new_provider_def composition_profiles provider_classes)

lemma configured_wf [simp]: "registry_wf (configured cfg)"
  by (simp add: configured_def registry_wf_def dict_ok_def new_provider_def composition_profiles)

lemma configured_managed [simp]: "managed (configured cfg)"
  by (auto simp: managed_def configured_def new_provider_def)

lemma configured_no_architecture:
  "\<forall>p \<in> set (dict_values (configured cfg)). \<not> supports (profile p) ARCHITECTURE"
  by (auto simp: configured_def new_provider_def composition_profiles supports_def general_caps_def)

lemma no_supporter_fails:
  assumes "\<forall>p \<in> set (dict_values (mgr_registry m)). \<not> supports (profile p) c"
  shows "\<exists>m'. manager_complete env req c None m = (Inl (none_available_error c), m')"
proof -
  have "filter (\<lambda>p. supports (profile p) c) (dict_values (mgr_registry m)) = []"
    using assms by (auto simp: filter_empty_conv)
  then have "ordered_names (mgr_registry m) c None = []"
    by (simp add: ordered_names_def supporting_def for_capability_def ordered_def)
  then show ?thesis by (simp add: manager_complete_def candidates_def)
qed

text \<open>
  Every configuration gives a runtime with at least one provider, and the providers it serves
  with are exactly the configured ones, in the order OpenRouter, OpenAI, local; without any key it
  is the local fallback, even when that is disabled. The environment always enables the fallback.
\<close>

theorem runtime_always_builds:
  "(\<exists>rt. build_runtime cfg bus store = Inr rt \<and> rt_provider_names rt \<noteq> [] \<and>
     mgr_registry (rt_manager rt) = configured cfg \<and>
     rt_provider_names rt =
       (if has_key (openrouter_api_key cfg) then [''openrouter''] else []) @
       (if has_key (openai_api_key cfg) then [''openai''] else []) @
       (if enable_local_fallback cfg \<or> \<not> has_key (openrouter_api_key cfg) \<and> \<not> has_key (openai_api_key cfg)
        then [''local''] else [])) \<and>
   enable_local_fallback (config_from_env env)"
  by (simp add: build_runtime_def build_registry_configured provider_names_def configured_def
      config_from_env_def default_config_def)

text \<open>
  C27: A freshly built runtime with its fallback enabled answers every call for code generation or
  extraction, whatever the vendors and the clock do.
\<close>

theorem built_runtime_generates_code:
  assumes "build_runtime cfg bus store = Inr rt" "enable_local_fallback cfg"
    and "c \<in> {CODE_GENERATION, EXTRACTION}"
  shows "\<exists>res m'. manager_complete env req c None (rt_manager rt) = (Inr res, m')"
proof -
  have reg: "mgr_registry (rt_manager rt) = configured cfg"
    using assms(1) by (auto simp: build_runtime_def build_registry_configured)
  let ?local = "new_provider local_profile (LocalBackend False)"
  have "dict_get (configured cfg) ''local'' = Some ?local" using assms(2) by (simp add: configured_def)
  moreover have "order_ok None" by (simp add: order_ok_def)
  ultimately show ?thesis
    using local_provider_answers [of "rt_manager rt" None "''local''" ?local c env req] assms(3)
    by (auto simp: reg new_provider_def new_health_def composition_profiles has_budget_def
        remaining_budget_def supports_def)
qed

text \<open>
  No configuration registers a provider for architecture, so in every built runtime an
  architecture review and a specification are never served, whatever keys are configured: the
  worker stores a degraded review by the provider \<open>none\<close> with score 0 and announces nothing.
\<close>

theorem architecture_reviews_never_served:
  assumes "build_runtime cfg bus store = Inr rt"
    and "k = ARCHITECTURE_REVIEW \<or> k = SPEC_GENERATION"
    and "arch_manager a = rt_manager rt"
  shows "\<exists>a'. run_review env jl k target content a = (Inr (unserved_review k target), a') \<and>
    arch_bus a' = arch_bus a \<and> latest_score (arch_store a') target k = Some 0"
proof -
  have reg: "mgr_registry (rt_manager rt) = configured cfg"
    using assms(1) by (auto simp: build_runtime_def build_registry_configured)
  have cap: "kind_capability k = ARCHITECTURE" using assms(2) by auto
  obtain m' where mc: "manager_complete env (review_request k target content) ARCHITECTURE None (arch_manager a) =
      (Inl (none_available_error ARCHITECTURE), m')"
    using no_supporter_fails [of "rt_manager rt" ARCHITECTURE] configured_no_architecture reg assms(3) by metis
  then show ?thesis
    by (simp add: run_review_def cap none_available_error_def Let_def latest_score_save)
      (simp add: unserved_review_def)
qed

text \<open>
  A restart forgets the persisted health: no code reads the store. In a runtime built over a
  store that holds a provider as unavailable, whatever its cooldown, the provider is a candidate for
  every capability it has at once, at every reading of the clock, while the store still says
  otherwise.
\<close>

theorem restart_forgets_health:
  assumes "build_runtime cfg bus store = Inr rt"
    and "store_load store nm = Some h" "is_unavailable_status (health_status h)"
    and "dict_get (mgr_registry (rt_manager rt)) nm = Some p" "supports (profile p) c"
  shows "health p = new_health \<and> nm \<in> set (fst (candidates env c None (rt_manager rt))) \<and>
    store_load (mgr_store (rt_manager rt)) nm = Some h"
proof -
  have rt: "mgr_registry (rt_manager rt) = configured cfg" "mgr_store (rt_manager rt) = store"
    using assms(1) by (auto simp: build_runtime_def build_registry_configured)
  have fresh: "health p = new_health" "daily_token_budget (profile p) = None" "provider_name p = nm"
    using assms(4) rt(1) by (auto simp: configured_def new_provider_def composition_profiles split: if_splits)
  let ?nms = "map provider_name (for_capability (configured cfg) c)"
  let ?slots = "zip ?nms [moment (rt_manager rt)..<moment (rt_manager rt) + length ?nms]"
  have "nm \<in> set ?nms"
    using fresh assms(4,5) rt(1) map_of_SomeD [of "configured cfg" nm p] by (force simp: set_for_capability)
  moreover have "map fst ?slots = ?nms" by simp
  ultimately have "nm \<in> fst ` set ?slots" by (metis set_map)
  then obtain i where "(nm, i) \<in> set ?slots" by auto
  moreover have "servable env (configured cfg) nm i" for i
    using assms(4) rt(1) fresh by (simp add: servable_def is_available_at_def refresh_def new_health_def
        has_budget_def remaining_budget_def)
  ultimately have "nm \<in> set (fst (candidates env c None (rt_manager rt)))"
    using candidates_spec [of "rt_manager rt" None env c] rt(1) ordered_names_None [OF configured_wf]
    by (force simp: order_ok_def)
  with rt assms(2) fresh show ?thesis by simp
qed

theorem restart_forgets_health_witness:
  "\<exists>rt. build_runtime (default_config\<lparr>openai_api_key := Some ''key''\<rparr>) None
        [(''openai'', new_health\<lparr>health_status := OFFLINE, cooldown_until := Some 1800000000\<rparr>)] = Inr rt \<and>
     ''openai'' \<in> set (fst (candidates sample_env REVIEW None (rt_manager rt)))"
proof -
  let ?cfg = "default_config\<lparr>openai_api_key := Some ''key''\<rparr>"
  let ?h = "new_health\<lparr>health_status := OFFLINE, cooldown_until := Some 1800000000\<rparr>"
  obtain rt where rt: "build_runtime ?cfg None [(''openai'', ?h)] = Inr rt"
    by (simp add: build_runtime_def build_registry_configured)
  have "mgr_registry (rt_manager rt) = configured ?cfg"
    using rt by (auto simp: build_runtime_def build_registry_configured)
  then have "dict_get (mgr_registry (rt_manager rt)) ''openai'' = Some (new_provider openai_profile AdapterBackend)"
    by (simp add: configured_def has_key_def non_empty_def default_config_def)
  moreover have "store_load [(''openai'', ?h)] ''openai'' = Some ?h" by (simp add: store_load_def)
  moreover have "supports (profile (new_provider openai_profile AdapterBackend)) REVIEW"
    by (simp add: new_provider_def composition_profiles supports_def)
  ultimately show ?thesis
    using restart_forgets_health [OF rt, where nm = "''openai''" and c = REVIEW and env = sample_env] rt
    by (auto simp: unavailable_iff)
qed

theorem built_runtime_generates_code_witness:
  "\<exists>rt res m'. build_runtime default_config None [] = Inr rt \<and>
     manager_complete sample_env sample_request CODE_GENERATION None (rt_manager rt) = (Inr res, m')"
proof -
  obtain rt where "build_runtime default_config None [] = Inr rt"
    by (simp add: build_runtime_def build_registry_configured)
  with built_runtime_generates_code [OF this] show ?thesis by (simp add: default_config_def)
qed

theorem architecture_reviews_never_served_witness:
  "\<exists>rt a'. build_runtime default_config None [] = Inr rt \<and>
     run_review sample_env json_loads SPEC_GENERATION ''t'' ''c'' (new_architect (rt_manager rt) (Some [])) =
       (Inr (unserved_review SPEC_GENERATION ''t''), a') \<and> arch_bus a' = Some []"
proof -
  obtain rt where rt: "build_runtime default_config None [] = Inr rt"
    by (simp add: build_runtime_def build_registry_configured)
  from architecture_reviews_never_served [OF rt, of SPEC_GENERATION "new_architect (rt_manager rt) (Some [])",
      where env = sample_env and jl = json_loads and target = "''t''" and content = "''c''"] rt
  show ?thesis by (auto simp: new_architect_def)
qed

end
