(* ===== verification/OpenAI_Adapter.thy ===== *)
theory OpenAI_Adapter
  imports Provider_Base Failure_Analysis
begin

text \<open>
  \<open>adapters/llm/openai.py\<close>: the translation between the project's requests and errors and those of
  the vendor's client. The client is a parameter: it raises an exception with a type name, a text
  and possibly a status code, or returns a response object; asked to stream, it hands out chunks
  and may raise after any of them.
\<close>

section \<open>The client\<close>

record sdk_error =
  sdk_type :: string
  sdk_text :: string
  status_code :: "int option"

record sdk_choice =
  choice_content :: "string option"
  choice_finish :: "string option"

record sdk_usage =
  sdk_prompt_tokens :: "int option"
  sdk_completion_tokens :: "int option"
  sdk_total_tokens :: "int option"

record sdk_response =
  choices :: "sdk_choice list"
  sdk_model :: "string option"
  sdk_usage_field :: "sdk_usage option"

type_synonym chat_client = "(string, pyval) dict \<Rightarrow> sdk_error + sdk_response"
type_synonym embed_client = "string \<Rightarrow> string list \<Rightarrow> sdk_error + rat list list"

section \<open>Requests\<close>

definition model_for :: "string \<Rightarrow> LLMRequest \<Rightarrow> string" where
  "model_for dflt r = (if req_model r \<noteq> [] \<and> req_model r \<noteq> ''auto'' then req_model r else dflt)"

definition opt_entry :: "string \<Rightarrow> ('a \<Rightarrow> pyval) \<Rightarrow> 'a option \<Rightarrow> (string, pyval) dict" where
  "opt_entry k f v = (case v of None \<Rightarrow> [] | Some x \<Rightarrow> [(k, f x)])"

definition build_kwargs :: "string \<Rightarrow> LLMRequest \<Rightarrow> (string, pyval) dict" where
  "build_kwargs dflt r =
     [(''model'', PStr (model_for dflt r)),
      (''messages'', PList (map (\<lambda>m. PDict [(''role'', PStr (msg_role m)), (''content'', PStr (msg_content m))])
                       (messages r)))] @
     opt_entry ''max_tokens'' PInt (max_tokens r) @
     opt_entry ''temperature'' PFloat (temperature r) @
     opt_entry ''top_p'' PFloat (top_p r) @
     opt_entry ''stop'' (\<lambda>ss. PList (map PStr ss)) (stop r) @
     (if response_format r = Some ''json''
      then [(''response_format'', PDict [(''type'', PStr ''json_object'')])] else [])"

section \<open>Errors\<close>

definition map_error :: "sdk_error \<Rightarrow> exn" where
  "map_error e =
     (let lowered = map lower_char (sdk_text e) in
      if status_code e = Some 429 \<or> sdk_type e = ''RateLimitError'' then
        (if contains ''insufficient_quota'' lowered \<or> contains ''exceeded your current quota'' lowered
         then Exn ProviderCreditExhaustedError (sdk_text e)
         else Exn ProviderRateLimited (sdk_text e))
      else if sdk_type e \<in> {''APITimeoutError'', ''TimeoutError''} \<or> status_code e = Some 408 \<or>
              contains ''timed out'' lowered
      then Exn ProviderTimeout (sdk_text e)
      else if status_code e \<in> {Some 401, Some 403}
      then Exn ProviderError (''openai auth/permission error: '' @ sdk_text e)
      else Exn ProviderError (''openai error: '' @ sdk_text e))"

section \<open>Operations\<close>

definition tokens_of :: "(sdk_usage \<Rightarrow> int option) \<Rightarrow> sdk_usage option \<Rightarrow> int" where
  "tokens_of f u = (case u of None \<Rightarrow> 0 | Some x \<Rightarrow> (case f x of None \<Rightarrow> 0 | Some n \<Rightarrow> n))"

definition or_text :: "string option \<Rightarrow> string \<Rightarrow> string" where
  "or_text v d = (case v of Some s \<Rightarrow> if s \<noteq> [] then s else d | None \<Rightarrow> d)"

definition openai_complete :: "string \<Rightarrow> chat_client \<Rightarrow> LLMRequest \<Rightarrow> exn + LLMResponse" where
  "openai_complete dflt client r =
     (case client (build_kwargs dflt r) of
        Inl e \<Rightarrow> Inl (map_error e)
      | Inr resp \<Rightarrow>
          (case choices resp of
             [] \<Rightarrow> Inl (PyExn ''IndexError'' ''list index out of range'')
           | c # cs \<Rightarrow> Inr
               \<lparr>resp_model = (case sdk_model resp of Some m \<Rightarrow> m | None \<Rightarrow> dflt),
                resp_content = or_text (choice_content c) [],
                finish_reason = or_text (choice_finish c) ''stop'',
                usage = \<lparr>prompt_tokens = tokens_of sdk_prompt_tokens (sdk_usage_field resp),
                         completion_tokens = tokens_of sdk_completion_tokens (sdk_usage_field resp),
                         total_tokens = tokens_of sdk_total_tokens (sdk_usage_field resp)\<rparr>,
                tool_calls = [], resp_metadata = []\<rparr>))"

definition openai_embed :: "embed_client \<Rightarrow> string \<Rightarrow> string list \<Rightarrow> exn + rat list list" where
  "openai_embed client model texts =
     (case client model texts of Inl e \<Rightarrow> Inl (map_error e) | Inr vs \<Rightarrow> Inr vs)"

section \<open>Construction\<close>

text \<open>The adapter with what its client was built from.\<close>

record openai_adapter =
  oa_api_key :: string
  oa_base_url :: "string option"
  oa_headers :: "(string, string) dict option"
  oa_default_model :: string
  oa_timeout :: rat

definition from_api_key ::
  "string \<Rightarrow> string \<Rightarrow> string option \<Rightarrow> rat \<Rightarrow> (string, string) dict option \<Rightarrow> openai_adapter" where
  "from_api_key key model url timeout headers =
     \<lparr>oa_api_key = key, oa_base_url = url, oa_headers = headers, oa_default_model = model,
      oa_timeout = timeout\<rparr>"

definition from_env ::
  "(string \<Rightarrow> string option) \<Rightarrow> string \<Rightarrow> string option \<Rightarrow> rat \<Rightarrow> (string, string) dict option \<Rightarrow>
     exn + openai_adapter" where
  "from_env env model url timeout headers =
     (case env ''OPENAI_API_KEY'' of
        Some key \<Rightarrow>
          if key \<noteq> [] then Inr (from_api_key key model url timeout headers)
          else Inl (Exn ConfigurationError ''OPENAI_API_KEY is not set'')
      | None \<Rightarrow> Inl (Exn ConfigurationError ''OPENAI_API_KEY is not set''))"

lemma from_env_key: "from_env env model url timeout headers = Inr a \<Longrightarrow> env ''OPENAI_API_KEY'' = Some (oa_api_key a) \<and> oa_api_key a \<noteq> []"
  by (auto simp: from_env_def from_api_key_def split: option.splits if_splits)

section \<open>Streaming\<close>

text \<open>
  A chunk: the contents of its choices' deltas. The client returns the chunks and what it raises
  after the last of them. The caller of \<open>stream\<close> gets a generator, so nothing is sent before the
  first item is asked for; its value here is the texts it yields and what ends it.
\<close>

type_synonym sdk_chunk = "string option list"
type_synonym stream_client = "(string, pyval) dict \<Rightarrow> sdk_error + sdk_chunk list \<times> sdk_error option"

definition no_choice :: sdk_error where
  "no_choice = \<lparr>sdk_type = ''IndexError'', sdk_text = ''list index out of range'', status_code = None\<rparr>"

fun stream_deltas :: "sdk_chunk list \<Rightarrow> sdk_error option \<Rightarrow> string list \<times> exn option" where
  "stream_deltas [] e = ([], map_option map_error e)"
| "stream_deltas ([] # cs) e = ([], Some (map_error no_choice))"
| "stream_deltas ((d # ds) # cs) e =
     (case d of
        None \<Rightarrow> stream_deltas cs e
      | Some t \<Rightarrow> if t \<noteq> [] then apfst (Cons t) (stream_deltas cs e) else stream_deltas cs e)"

definition openai_stream :: "string \<Rightarrow> stream_client \<Rightarrow> LLMRequest \<Rightarrow> string list \<times> exn option" where
  "openai_stream dflt client r =
     (case client (build_kwargs dflt r @ [(''stream'', PBool True)]) of
        Inl e \<Rightarrow> ([], Some (map_error e))
      | Inr (chunks, e) \<Rightarrow> stream_deltas chunks e)"

text \<open>The text of the chunks before the first without a choice.\<close>

definition chunk_text :: "sdk_chunk \<Rightarrow> string" where
  "chunk_text c = (case c of Some t # ds \<Rightarrow> t | _ \<Rightarrow> [])"

section \<open>The error mapping\<close>

lemma map_error_provider: "isinstance_exn (map_error e) ProviderError"
  by (simp add: map_error_def Let_def)

lemma stream_deltas_text:
  "concat (fst (stream_deltas cs e)) = concat (map chunk_text (takeWhile (\<lambda>c. c \<noteq> []) cs)) \<and>
   [] \<notin> set (fst (stream_deltas cs e)) \<and>
   snd (stream_deltas cs e) =
     (if [] \<in> set cs then Some (map_error no_choice) else map_option map_error e)"
  by (induction cs e rule: stream_deltas.induct) (auto simp: chunk_text_def split: option.split)

text \<open>
  A stream yields the vendor's text in order, cut where the vendor raises or sends a chunk
  without a choice, and never an empty piece; it ends without an error only if the vendor's stream
  did and every chunk had a choice, and what it raises is always a provider error. A chunk without
  choices - the one that reports the usage - is such an error.
\<close>

theorem stream_is_faithful:
  assumes "client (build_kwargs dflt r @ [(''stream'', PBool True)]) = Inr (chunks, e)"
  shows "case openai_stream dflt client r of (ts, end) \<Rightarrow>
     concat ts = concat (map chunk_text (takeWhile (\<lambda>c. c \<noteq> []) chunks)) \<and> [] \<notin> set ts \<and>
     (end = None \<longleftrightarrow> e = None \<and> [] \<notin> set chunks) \<and>
     (end = None \<or> isinstance_exn (the end) ProviderError)"
  using assms stream_deltas_text [of chunks e] map_error_provider
  by (cases e; cases "[] \<in> set chunks") (auto simp: openai_stream_def split: prod.split)

definition hello_request :: LLMRequest where
  "hello_request =
     \<lparr>req_model = ''auto'', messages = [], max_tokens = None, temperature = None, top_p = None,
      stop = None, response_format = None, req_tools = None, req_metadata = []\<rparr>"

theorem stream_is_faithful_witness:
  "case openai_stream ''gpt'' (\<lambda>kw. Inr ([[Some ''a''], [None], [Some ''b''], []], None)) hello_request of
     (ts, end) \<Rightarrow> concat ts = ''ab'' \<and> end \<noteq> None"
  using stream_is_faithful [of "\<lambda>kw. Inr ([[Some ''a''], [None], [Some ''b''], []], None)" "''gpt''" hello_request]
  by (auto simp: chunk_text_def split: prod.splits)

text \<open>How a provider reacts to a vendor error.\<close>

definition quota_error :: "sdk_error \<Rightarrow> bool" where
  "quota_error e \<longleftrightarrow>
     contains ''insufficient_quota'' (map lower_char (sdk_text e)) \<or>
     contains ''exceeded your current quota'' (map lower_char (sdk_text e))"

definition throttled :: "sdk_error \<Rightarrow> bool" where
  "throttled e \<longleftrightarrow> status_code e = Some 429 \<or> sdk_type e = ''RateLimitError''"

lemma map_error_class:
  "\<exists>cls msg. map_error e = Exn cls msg \<and> issubclass cls ProviderError \<and>
     (cls = ProviderRateLimited \<longleftrightarrow> throttled e \<and> \<not> quota_error e) \<and>
     (cls = ProviderCreditExhaustedError \<longleftrightarrow> throttled e \<and> quota_error e)"
  by (auto simp: map_error_def throttled_def quota_error_def Let_def)

text \<open>
  The adapter behind a provider: a call of an available provider whose vendor is the adapter
  never raises anything but a provider error, and the state the provider is left in follows the
  vendor's answer - rate limited exactly after a throttling error that is not about the quota,
  offline after one that is, and available after a response with a choice.
\<close>

theorem vendor_errors_drive_availability:
  assumes "vendor env (provider_name p) req (n + 1) = openai_complete dflt client req"
    and "backend p = AdapterBackend" "status p = AVAILABLE"
  shows "case complete env n req p of (r, p', n') \<Rightarrow>
    (case r of Inl e \<Rightarrow> isinstance_exn e ProviderError | Inr resp \<Rightarrow> status p' = AVAILABLE) \<and>
    (case client (build_kwargs dflt req) of
       Inl e \<Rightarrow> r = Inl (map_error e) \<and>
         (status p' = RATE_LIMITED \<longleftrightarrow> throttled e \<and> \<not> quota_error e) \<and>
         (status p' = OFFLINE \<longleftrightarrow> throttled e \<and> quota_error e)
     | Inr resp \<Rightarrow> (choices resp \<noteq> [] \<longleftrightarrow> (\<exists>x. r = Inr x)))"
proof -
  let ?out = "openai_complete dflt client req"
  have call: "complete env n req p =
      (case complete_at (clock env n) (wrap_exn (provider_name p) ?out) (clock env (n + 2)) p of
         (r, p') \<Rightarrow> (r, p', n + 3))"
    using assms(1,2) by (simp add: complete_def invoke_def)
  have avail: "is_available_at t p = (True, p)" for t
    using assms(3) by (simp add: is_available_at_def refresh_def)
  show ?thesis
  proof (cases "client (build_kwargs dflt req)")
    case (Inl e)
    obtain cls msg where map: "map_error e = Exn cls msg" and cls: "issubclass cls ProviderError"
      "cls = ProviderRateLimited \<longleftrightarrow> throttled e \<and> \<not> quota_error e"
      "cls = ProviderCreditExhaustedError \<longleftrightarrow> throttled e \<and> quota_error e"
      using map_error_class by blast
    have "wrap_exn (provider_name p) ?out = Inl (Exn cls msg)"
      using Inl map cls(1) by (simp add: openai_complete_def wrap_exn_def del: issubclass_ProviderError)
    with Inl map cls assms(3) show ?thesis
      by (auto simp: call complete_at_def avail record_failure_def Let_def)
  next
    case (Inr resp)
    with assms(3) show ?thesis
      by (cases "choices resp")
        (simp_all add: call complete_at_def avail openai_complete_def wrap_exn_def record_failure_def
          record_success_def Let_def)
  qed
qed

definition throttling_client :: chat_client where
  "throttling_client kw = Inl \<lparr>sdk_type = ''RateLimitError'', sdk_text = ''slow down'', status_code = Some 429\<rparr>"

theorem vendor_errors_drive_availability_witness:
  "case complete \<lparr>clock = (\<lambda>n. 0), vendor = (\<lambda>nm req n. openai_complete ''gpt'' throttling_client req)\<rparr> 0
      hello_request (new_provider openai_profile AdapterBackend) of
     (r, p', n') \<Rightarrow> status p' = RATE_LIMITED"
proof -
  let ?env = "\<lparr>clock = (\<lambda>n. 0), vendor = (\<lambda>nm req n. openai_complete ''gpt'' throttling_client req)\<rparr>"
  let ?e = "\<lparr>sdk_type = ''RateLimitError'', sdk_text = ''slow down'', status_code = Some 429\<rparr>"
  have "throttled ?e \<and> \<not> quota_error ?e" by code_simp
  then show ?thesis
    using vendor_errors_drive_availability [of ?env "new_provider openai_profile AdapterBackend" hello_request 0
        "''gpt''" throttling_client]
    by (simp add: throttling_client_def new_provider_def new_health_def split: prod.splits)
qed

end
