(* ===== verification/Iso_Time.thy ===== *)
theory Iso_Time
  imports Py_Value "HOL-Library.Monad_Syntax"
begin

text \<open>
  \<open>datetime.fromisoformat\<close>, for the texts \<open>datetime.isoformat\<close> writes for a time with an offset:
  date, any separator, time with an optional fraction of six digits, and the offset in hours and
  minutes. A result is the time in UTC. The other forms Python reads, none of which the
  components write, are refused here. Shown: what \<open>isoformat\<close> writes for the years 1 to 9999 is
  read back.
\<close>

section \<open>The calendar\<close>

definition days_from_civil :: "int \<Rightarrow> int \<Rightarrow> int \<Rightarrow> int" where
  "days_from_civil y m d =
     (let y' = (if m \<le> 2 then y - 1 else y); era = y' div 400; yoe = y' mod 400;
          mp = (if 2 < m then m - 3 else m + 9);
          doy = (153 * mp + 2) div 5 + d - 1;
          doe = 365 * yoe + yoe div 4 - yoe div 100 + doy
      in era * 146097 + doe - 719468)"

definition leap_year :: "int \<Rightarrow> bool" where
  "leap_year y \<longleftrightarrow> 4 dvd y \<and> (\<not> 100 dvd y \<or> 400 dvd y)"

definition days_in_month :: "int \<Rightarrow> int \<Rightarrow> int" where
  "days_in_month y m =
     (if m = 2 then (if leap_year y then 29 else 28)
      else if m = 4 \<or> m = 6 \<or> m = 9 \<or> m = 11 then 30 else 31)"

definition valid_date :: "int \<Rightarrow> int \<Rightarrow> int \<Rightarrow> bool" where
  "valid_date y m d \<longleftrightarrow> 1 \<le> y \<and> y \<le> 9999 \<and> 1 \<le> m \<and> m \<le> 12 \<and> 1 \<le> d \<and> d \<le> days_in_month y m"

section \<open>fromisoformat\<close>

definition read_num :: "nat \<Rightarrow> string \<Rightarrow> (int \<times> string) option" where
  "read_num n s =
     (if n \<le> length s \<and> list_all is_digit (take n s)
      then Some (digits_value (take n s), drop n s) else None)"

fun read_char :: "char \<Rightarrow> string \<Rightarrow> string option" where
  "read_char c (d # s) = (if d = c then Some s else None)"
| "read_char c [] = None"

fun read_any :: "string \<Rightarrow> string option" where
  "read_any (d # s) = Some s"
| "read_any [] = None"

definition read_fraction :: "string \<Rightarrow> (int \<times> string) option" where
  "read_fraction s = (case read_char CHR ''.'' s of None \<Rightarrow> Some (0, s) | Some r \<Rightarrow> read_num 6 r)"

definition read_sign :: "string \<Rightarrow> (int \<times> string) option" where
  "read_sign s =
     (case read_char CHR ''+'' s of
        Some r \<Rightarrow> Some (1, r)
      | None \<Rightarrow> map_option (\<lambda>r. (- 1, r)) (read_char CHR ''-'' s))"

definition read_date :: "string \<Rightarrow> ((int \<times> int \<times> int) \<times> string) option" where
  "read_date s = do {
     (y, s) \<leftarrow> read_num 4 s; s \<leftarrow> read_char CHR ''-'' s;
     (m, s) \<leftarrow> read_num 2 s; s \<leftarrow> read_char CHR ''-'' s;
     (d, s) \<leftarrow> read_num 2 s;
     Some ((y, m, d), s)
   }"

definition read_time :: "string \<Rightarrow> ((int \<times> int \<times> int \<times> int) \<times> string) option" where
  "read_time s = do {
     (hh, s) \<leftarrow> read_num 2 s; s \<leftarrow> read_char CHR '':'' s;
     (mi, s) \<leftarrow> read_num 2 s; s \<leftarrow> read_char CHR '':'' s;
     (ss, s) \<leftarrow> read_num 2 s; (us, s) \<leftarrow> read_fraction s;
     Some ((hh, mi, ss, us), s)
   }"

definition read_offset :: "string \<Rightarrow> (int \<times> string) option" where
  "read_offset s = do {
     (sg, s) \<leftarrow> read_sign s;
     (oh, s) \<leftarrow> read_num 2 s; s \<leftarrow> read_char CHR '':'' s;
     (om, s) \<leftarrow> read_num 2 s;
     Some (sg * (60 * oh + om), s)
   }"

definition fromisoformat :: "string \<Rightarrow> time option" where
  "fromisoformat s = do {
     ((y, m, d), s) \<leftarrow> read_date s; s \<leftarrow> read_any s;
     ((hh, mi, ss, us), s) \<leftarrow> read_time s;
     (off, s) \<leftarrow> read_offset s;
     if s = [] \<and> valid_date y m d \<and> hh < 24 \<and> mi < 60 \<and> ss < 60 \<and> \<bar>off\<bar> < 1440
     then Some ((((days_from_civil y m d * 24 + hh) * 60 + mi - off) * 60 + ss) * 1000000 + us)
     else None
   }"

section \<open>The calendar is inverted\<close>

text \<open>
  A day of the era (400 years, 146097 days) splits into century, group of four years, year and
  day of the year. The last day of a year of 366 days is in a leap year.
\<close>

lemma day_of_era:
  fixes doe :: int
  assumes "0 \<le> doe" "doe < 146097"
  defines "yoe \<equiv> (doe - doe div 1460 + doe div 36524 - doe div 146096) div 365"
  obtains c b u where "0 \<le> c" "c \<le> 3" "0 \<le> b" "b \<le> 24" "0 \<le> u" "u \<le> 3" "yoe = 100 * c + 4 * b + u"
    "0 \<le> doe - (365 * yoe + yoe div 4 - yoe div 100)" "doe - (365 * yoe + yoe div 4 - yoe div 100) \<le> 365"
    "doe - (365 * yoe + yoe div 4 - yoe div 100) = 365 \<longrightarrow> u = 3 \<and> (b < 24 \<or> c = 3)"
proof -
  define c where "c = doe div 36524 - doe div 146096"
  define r where "r = doe - 36524 * c"
  have c: "0 \<le> c \<and> c \<le> 3 \<and> 0 \<le> r \<and> r \<le> 36524 \<and> (r = 36524 \<longrightarrow> c = 3)"
  proof (cases "doe = 146096")
    case True
    then show ?thesis by (simp add: c_def r_def)
  next
    case False
    with assms(1,2) have "doe div 146096 = 0" by simp
    then have "c = doe div 36524" by (simp add: c_def)
    then have "36524 * c \<le> doe" "doe < 36524 * c + 36524" by simp_all
    with assms(1,2) False show ?thesis unfolding r_def by (intro conjI impI) linarith+
  qed
  define b where "b = r div 1461"
  define t where "t = r mod 1461"
  have r: "r = 1461 * b + t" "0 \<le> t" "t \<le> 1460" by (simp_all add: b_def t_def)
  with c have b: "0 \<le> b" "b \<le> 24" by linarith+
  define e where "e = (24 * c + b + t) div 1460"
  have e: "1460 * e \<le> 24 * c + b + t" "24 * c + b + t < 1460 * e + 1460" unfolding e_def by simp_all
  have e01: "0 \<le> e" "e \<le> 1" "t = 1460 \<Longrightarrow> e = 1" "e = 1 \<Longrightarrow> 1364 \<le> t" using c b r e by linarith+
  have "doe = 1460 * (25 * c + b) + (24 * c + b + t)" using r(1) by (simp add: r_def)
  then have q4: "doe div 1460 = 25 * c + b + e" unfolding e_def by simp
  define u where "u = (t - e) div 365"
  have "0 \<le> t - e" "t - e \<le> 1459" using e01 r by linarith+
  then have u: "0 \<le> u" "u \<le> 3" "365 * u \<le> t - e" "t - e < 365 * u + 365" unfolding u_def by simp_all
  have "doe - doe div 1460 + doe div 36524 - doe div 146096 = doe - (25 * c + b + e) + c"
    unfolding q4 by (simp add: c_def)
  also have "\<dots> = 365 * (100 * c + 4 * b) + (t - e)" using r(1) r_def by (simp add: algebra_simps)
  finally have yoe: "yoe = 100 * c + 4 * b + u" unfolding yoe_def u_def by simp
  have y4: "yoe div 4 = 25 * c + b" and y100: "yoe div 100 = c" using yoe u b by linarith+
  have doy: "doe - (365 * yoe + yoe div 4 - yoe div 100) = t - 365 * u"
    unfolding y4 y100 using r(1) yoe by (simp add: r_def)
  show ?thesis
  proof (rule that [of c b u])
    show "doe - (365 * yoe + yoe div 4 - yoe div 100) = 365 \<longrightarrow> u = 3 \<and> (b < 24 \<or> c = 3)"
    proof
      assume "doe - (365 * yoe + yoe div 4 - yoe div 100) = 365"
      then have t: "t = 365 * u + 365" using doy by simp
      with u e01 have "e = 1" by linarith
      with e01(4) t u have "u = 3" by linarith
      with t r(1) c show "u = 3 \<and> (b < 24 \<or> c = 3)" by linarith
    qed
  qed (use c b u yoe doy e01 in linarith)+
qed

lemma month_of_year:
  fixes doy :: int
  assumes "0 \<le> doy" "doy \<le> 365"
  defines "mp \<equiv> (5 * doy + 2) div 153" and "d \<equiv> doy - (153 * ((5 * doy + 2) div 153) + 2) div 5 + 1"
  shows "0 \<le> mp" "mp \<le> 11" "1 \<le> d"
    "mp = 11 \<Longrightarrow> d \<le> 29 \<and> (d = 29 \<longrightarrow> doy = 365)"
    "mp \<in> {1, 3, 6, 8} \<Longrightarrow> d \<le> 30" "d \<le> 31"
    "mp < 10 \<longleftrightarrow> doy < 306"
proof -
  have mp: "153 * mp \<le> 5 * doy + 2" "5 * doy + 2 < 153 * mp + 153" unfolding mp_def by simp_all
  define q where "q = (153 * mp + 2) div 5"
  have q: "5 * q \<le> 153 * mp + 2" "153 * mp + 2 < 5 * q + 5" unfolding q_def by simp_all
  have dq: "d = doy - q + 1" unfolding d_def q_def mp_def ..
  with q have d: "5 * doy + 3 \<le> 153 * mp + 5 * d" "153 * mp + 5 * d < 5 * doy + 8" by linarith+
  show "0 \<le> mp" "mp \<le> 11" using mp assms(1,2) by linarith+
  show "1 \<le> d" "d \<le> 31" using mp d by linarith+
  show "mp < 10 \<longleftrightarrow> doy < 306" using mp by (intro iffI) linarith+
  show "mp = 11 \<Longrightarrow> d \<le> 29 \<and> (d = 29 \<longrightarrow> doy = 365)" using mp d assms(1,2) by linarith
  show "mp \<in> {1, 3, 6, 8} \<Longrightarrow> d \<le> 30"
    using mp(2) dq unfolding q_def by auto
qed

text \<open>Days of the years 1 to 9999.\<close>

lemma civil_from_days_inverse:
  assumes "- 719162 \<le> z" "z \<le> 2932896" and civil: "civil_from_days z = (y, m, d)"
  shows "valid_date y m d" "days_from_civil y m d = z"
proof -
  define era doe where "era = (z + 719468) div 146097" and "doe = (z + 719468) mod 146097"
  define yoe where "yoe = (doe - doe div 1460 + doe div 36524 - doe div 146096) div 365"
  define doy where "doy = doe - (365 * yoe + yoe div 4 - yoe div 100)"
  have doe: "0 \<le> doe" "doe < 146097" by (simp_all add: doe_def)
  have z: "z + 719468 = era * 146097 + doe" by (simp add: era_def doe_def)
  obtain c b u where parts: "0 \<le> c" "c \<le> 3" "0 \<le> b" "b \<le> 24" "0 \<le> u" "u \<le> 3"
      "yoe = 100 * c + 4 * b + u" and doy: "0 \<le> doy" "doy \<le> 365"
      "doy = 365 \<longrightarrow> u = 3 \<and> (b < 24 \<or> c = 3)"
    by (rule day_of_era [OF doe, folded yoe_def, folded doy_def])
  define mp where "mp = (5 * doy + 2) div 153"
  note month = month_of_year [OF doy(1,2), folded mp_def]
  have ymd: "y = yoe + era * 400 + (if m \<le> 2 then 1 else 0)" "m = (if mp < 10 then mp + 3 else mp - 9)"
    "d = doy - (153 * mp + 2) div 5 + 1"
    using civil [unfolded civil_from_days_def Let_def, folded era_def doe_def, folded yoe_def,
      folded doy_def, folded mp_def] by auto
  have yoe: "0 \<le> yoe" "yoe < 400" using parts by linarith+
  have "(if m \<le> 2 then y - 1 else y) = 400 * era + yoe" using ymd(1) by simp
  then have back_y: "(if m \<le> 2 then y - 1 else y) div 400 = era" "(if m \<le> 2 then y - 1 else y) mod 400 = yoe"
    using yoe by simp_all
  have back_mp: "(if 2 < m then m - 3 else m + 9) = mp" using ymd(2) month(1,2) by auto
  have sum: "era * 146097 + (365 * yoe + A - B + (Q + d - 1)) - 719468 = z"
    if "doy = doe - (365 * yoe + A - B)" "d = doy - Q + 1" for A B Q using that z by linarith
  show "days_from_civil y m d = z"
    unfolding days_from_civil_def Let_def back_y back_mp
    using sum [OF doy_def ymd(3)] by (simp only: add_diff_eq)
  have m: "1 \<le> m" "m \<le> 12" using ymd(2) month(1,2) by auto
  have leap: "leap_year y" if "m = 2" "doy = 365"
  proof -
    from that doy(3) parts ymd(1) have y: "y = 400 * era + 100 * c + 4 * b + 4" "b < 24 \<or> c = 3" by auto
    from y(1) have four: "y = 4 * (100 * era + 25 * c + b + 1)" and
      hundred: "y = 100 * (4 * era + c) + (4 * b + 4)" by simp_all
    have "4 dvd y" unfolding four by (rule dvd_triv_left)
    moreover have "400 dvd y" if "100 dvd y"
    proof -
      from that have "100 dvd 4 * b + 4" unfolding hundred by (simp add: dvd_add_right_iff)
      then have "100 \<le> 4 * b + 4" using parts by (intro zdvd_imp_le) simp_all
      with parts y have "y = 400 * (era + 1)" by simp
      then show "400 dvd y" by simp
    qed
    ultimately show ?thesis by (auto simp: leap_year_def)
  qed
  have "d \<le> days_in_month y m"
    using leap month(4-6) ymd(2) month(1,2) unfolding ymd(3) [symmetric] days_in_month_def
    by (auto split: if_splits)
  moreover have "1 \<le> d" using month(3) ymd(3) by simp
  moreover have "1 \<le> y \<and> y \<le> 9999"
  proof -
    have era: "0 \<le> era" "era \<le> 24" using z doe assms(1,2) by linarith+
    have "1 \<le> y"
    proof (cases "era = 0 \<and> yoe = 0")
      case True
      then have "306 \<le> doy" using z assms(1) by (simp add: doy_def)
      with month(7) ymd(1,2) True month(2) show ?thesis by auto
    next
      case False
      with era yoe ymd(1) show ?thesis by auto
    qed
    moreover have "y \<le> 9999"
    proof (cases "era = 24 \<and> yoe = 399")
      case True
      then have "doy < 306" using z assms(2) by (simp add: doy_def)
      with month(7) ymd(1,2) True month(1) show ?thesis by auto
    next
      case False
      with era yoe ymd(1) show ?thesis by auto
    qed
    ultimately show ?thesis by simp
  qed
  ultimately show "valid_date y m d" using m by (simp add: valid_date_def)
qed

section \<open>Reading back a timestamp\<close>

definition iso_range :: "time \<Rightarrow> bool" where
  "iso_range t \<longleftrightarrow> - 62135596800000000 \<le> t \<and> t < 253402300800000000"

lemma digits_value_zeros: "digits_value (replicate k CHR ''0'' @ ds) = digits_value ds"
proof (induction k)
  case (Suc k)
  have "of_char CHR ''0'' = (48 :: int)" by code_simp
  then have "digits_value (CHR ''0'' # xs) = digits_value xs" for xs by (simp add: digits_value_def)
  with Suc show ?case by simp
qed simp

lemma nat_digits_length: "0 < w \<Longrightarrow> n < 10 ^ w \<Longrightarrow> length (nat_digits n) \<le> w"
proof (induction n arbitrary: w rule: nat_digits.induct)
  case (1 n)
  show ?case
  proof (cases "n < 10")
    case True
    with "1.prems" show ?thesis by (simp add: nat_digits.simps)
  next
    case False
    with "1.prems" obtain v where v: "w = Suc v" "0 < v" by (cases w; cases "w = 1") auto
    with "1.prems" have "n div 10 < 10 ^ v" by (simp add: less_mult_imp_div_less)
    with "1.IH" [OF False v(2)] False v show ?thesis by (simp add: nat_digits.simps [of n])
  qed
qed

lemma read_num_pad:
  assumes "0 < w" "n < 10 ^ w"
  shows "read_num w (pad_nat w n @ s) = Some (int n, s)"
proof -
  have zero: "is_digit CHR ''0''" by code_simp
  have len: "length (pad_nat w n) = w" using nat_digits_length [OF assms] by (simp add: pad_nat_def Let_def)
  have "list_all is_digit (pad_nat w n)" "digits_value (pad_nat w n) = int n"
    using nat_digits_facts [of n] zero
    by (auto simp: pad_nat_def Let_def digits_value_zeros list_all_iff)
  with len show ?thesis by (simp add: read_num_def)
qed

lemmas read_2 = read_num_pad [of 2, simplified] and read_4 = read_num_pad [of 4, simplified]
  and read_6 = read_num_pad [of 6, simplified]

theorem fromisoformat_isoformat:
  assumes "iso_range t"
  shows "fromisoformat (isoformat t) = Some t"
proof -
  define us s where "us = t mod 1000000" and "s = t div 1000000"
  define sod z where "sod = s mod 86400" and "z = s div 86400"
  obtain y m d where civil: "civil_from_days z = (y, m, d)" by (cases "civil_from_days z")
  have "s = 86400 * z + sod" "t = 1000000 * s + us" by (simp_all add: us_def s_def sod_def z_def)
  then have t: "t = 86400000000 * z + 1000000 * sod + us" by simp
  have us: "0 \<le> us" "us < 1000000" and sod: "0 \<le> sod" "sod < 86400" by (simp_all add: us_def sod_def)
  have "- 719162 \<le> z" "z \<le> 2932896" using assms t us sod unfolding iso_range_def by linarith+
  note ymd = civil_from_days_inverse [OF this civil]
  have date: "1 \<le> y" "y < 10000" "1 \<le> m" "m < 100" "1 \<le> d" "d < 100"
    using ymd(1) by (auto simp: valid_date_def days_in_month_def split: if_splits)
  define hh mi ss where "hh = sod div 3600" and "mi = sod div 60 mod 60" and "ss = sod mod 60"
  have hms: "0 \<le> hh" "hh < 24" "0 \<le> mi" "mi < 60" "0 \<le> ss" "ss < 60"
    using sod by (simp_all add: hh_def mi_def ss_def)
  have "hh = sod div 60 div 60" using zdiv_zmult2_eq [of 60 sod 60] by (simp add: hh_def)
  then have "sod div 60 = 60 * hh + mi" "sod = 60 * (sod div 60) + ss" by (simp_all add: mi_def ss_def)
  then have sum: "sod = 3600 * hh + 60 * mi + ss" by simp
  have nats: "nat y < 10000" "nat m < 100" "nat d < 100" "nat hh < 100" "nat mi < 100" "nat ss < 100"
    "nat us < 1000000"
    using date hms us by simp_all
  have fraction: "read_fraction ((if us = 0 then [] else ''.'' @ pad_nat 6 (nat us)) @ ''+00:00'') = Some (us, ''+00:00'')"
    using us read_6 [OF nats(7)] by (simp add: read_fraction_def)
  have zeros: "read_offset ''+00:00'' = Some (0, [])" by code_simp
  let ?clock = "pad_nat 2 (nat hh) @ CHR '':'' # pad_nat 2 (nat mi) @ CHR '':'' # pad_nat 2 (nat ss) @
    (if us = 0 then [] else ''.'' @ pad_nat 6 (nat us)) @ ''+00:00''"
  have shape: "isoformat t = pad_nat 4 (nat y) @ CHR ''-'' # pad_nat 2 (nat m) @ CHR ''-'' #
      pad_nat 2 (nat d) @ CHR ''T'' # ?clock"
    unfolding isoformat_def Let_def us_def [symmetric] s_def [symmetric] sod_def [symmetric]
      z_def [symmetric] hh_def [symmetric] mi_def [symmetric] ss_def [symmetric] civil
    by simp
  have "read_date (isoformat t) = Some ((y, m, d), CHR ''T'' # ?clock)"
    unfolding shape read_date_def using date nats by (simp add: read_4 read_2)
  moreover have "read_time ?clock = Some ((hh, mi, ss, us), ''+00:00'')"
    unfolding read_time_def using hms nats fraction by (simp add: read_2)
  moreover have "((days_from_civil y m d * 24 + hh) * 60 + mi - 0) * 60 + ss = 86400 * z + sod"
    using ymd(2) sum by simp
  ultimately show ?thesis
    unfolding fromisoformat_def using zeros ymd(1) hms t by simp
qed

end
