(* ===== verification/Provider_Persistence.thy ===== *)
theory Provider_Persistence
  imports Provider_Store Effects Json Iso_Time
begin

text \<open>
  \<open>providers/persistence.py\<close>, the durable side: the dictionary a health is written as, its reading
  back, and the store that keeps it as JSON in a Redis hash. The client is a parameter;
  \<open>redis_laws\<close> states what Redis documents of \<open>HSET\<close>, \<open>HGET\<close> and \<open>HGETALL\<close>. Shown: a health is
  read back as it was written, over the store's whole history, and the Redis store refines the
  in-memory one.
\<close>

section \<open>Health as a dictionary\<close>

definition opt_time :: "time option \<Rightarrow> pyval" where
  "opt_time t = (case t of None \<Rightarrow> PNone | Some x \<Rightarrow> PStr (isoformat x))"

definition opt_str :: "string option \<Rightarrow> pyval" where
  "opt_str s = (case s of None \<Rightarrow> PNone | Some x \<Rightarrow> PStr x)"

definition health_to_dict :: "ProviderHealth \<Rightarrow> (string, pyval) dict" where
  "health_to_dict h =
     [(''status'', PStr (status_value (health_status h))),
      (''consecutive_failures'', PInt (consecutive_failures h)),
      (''cooldown_until'', opt_time (cooldown_until h)),
      (''tokens_used'', PInt (tokens_used h)),
      (''total_requests'', PInt (total_requests h)),
      (''total_failures'', PInt (total_failures h)),
      (''last_error'', opt_str (last_error h)),
      (''last_used_at'', opt_time (last_used_at h))]"

text \<open>
  \<open>cast\<close> checks nothing, so what is read back has whatever values the dictionary holds in five of
  its fields.
\<close>

record raw_health =
  raw_status :: ProviderStatus
  raw_consecutive :: pyval
  raw_cooldown :: "time option"
  raw_tokens :: pyval
  raw_requests :: pyval
  raw_failures :: pyval
  raw_error :: pyval
  raw_used_at :: "time option"

definition dict_index :: "(string, pyval) dict \<Rightarrow> string \<Rightarrow> exn + pyval" where
  "dict_index d k =
     (case dict_get d k of Some v \<Rightarrow> Inr v | None \<Rightarrow> Inl (PyExn ''KeyError'' (repr_str k)))"

definition status_of_value :: "string \<Rightarrow> exn + ProviderStatus" where
  "status_of_value s =
     (case List.find (\<lambda>st. status_value st = s) [AVAILABLE, RATE_LIMITED, OFFLINE, COOLDOWN, FAILED] of
        Some st \<Rightarrow> Inr st
      | None \<Rightarrow> Inl (PyExn ''ValueError'' (repr_str s @ '' is not a valid ProviderStatus'')))"

fun read_dt :: "pyval \<Rightarrow> exn + time option" where
  "read_dt (PStr s) =
     (case fromisoformat s of
        Some t \<Rightarrow> Inr (Some t)
      | None \<Rightarrow> Inl (PyExn ''ValueError'' (''Invalid isoformat string: '' @ repr_str s)))"
| "read_dt _ = Inr None"

definition health_from_dict :: "(string, pyval) dict \<Rightarrow> exn + raw_health" where
  "health_from_dict d =
     try_bind (dict_index d ''status'') (\<lambda>s.
     try_bind (status_of_value (py_str s)) (\<lambda>st.
     try_bind (dict_index d ''consecutive_failures'') (\<lambda>cf.
     try_bind (read_dt (dict_get_default d ''cooldown_until'' PNone)) (\<lambda>cd.
     try_bind (dict_index d ''tokens_used'') (\<lambda>tk.
     try_bind (dict_index d ''total_requests'') (\<lambda>rq.
     try_bind (dict_index d ''total_failures'') (\<lambda>fl.
     try_bind (read_dt (dict_get_default d ''last_used_at'' PNone)) (\<lambda>lu.
     Inr \<lparr>raw_status = st, raw_consecutive = cf, raw_cooldown = cd, raw_tokens = tk,
          raw_requests = rq, raw_failures = fl, raw_error = dict_get_default d ''last_error'' PNone,
          raw_used_at = lu\<rparr>))))))))"

text \<open>The health such an object is, if its fields have their declared types.\<close>

definition typed_health :: "raw_health \<Rightarrow> ProviderHealth option" where
  "typed_health r =
     (case (raw_consecutive r, raw_tokens r, raw_requests r, raw_failures r) of
        (PInt cf, PInt tk, PInt rq, PInt fl) \<Rightarrow>
          (let h = \<lparr>health_status = raw_status r, consecutive_failures = cf,
                    cooldown_until = raw_cooldown r, tokens_used = tk, total_requests = rq,
                    total_failures = fl, last_error = None, last_used_at = raw_used_at r\<rparr>
           in case raw_error r of PNone \<Rightarrow> Some h | PStr e \<Rightarrow> Some (h\<lparr>last_error := Some e\<rparr>) | _ \<Rightarrow> None)
      | _ \<Rightarrow> None)"

definition raw_of :: "ProviderHealth \<Rightarrow> raw_health" where
  "raw_of h =
     \<lparr>raw_status = health_status h, raw_consecutive = PInt (consecutive_failures h),
      raw_cooldown = cooldown_until h, raw_tokens = PInt (tokens_used h),
      raw_requests = PInt (total_requests h), raw_failures = PInt (total_failures h),
      raw_error = opt_str (last_error h), raw_used_at = last_used_at h\<rparr>"

section \<open>The Redis store\<close>

text \<open>A reply is text, or bytes when the client does not decode responses.\<close>

datatype redis_reply = RText string | RBytes string

text \<open>UTF-8, for the code points below 256.\<close>

fun utf8_decode :: "string \<Rightarrow> string option" where
  "utf8_decode [] = Some []"
| "utf8_decode (c # s) =
     (if (of_char c :: nat) < 128 then map_option (Cons c) (utf8_decode s)
      else case s of
        [] \<Rightarrow> None
      | d # s' \<Rightarrow>
          if of_char c \<in> {194, 195 :: nat} \<and> of_char d \<in> {128..<192 :: nat}
          then map_option (Cons (char_of ((of_char c - 192) * 64 + (of_char d - 128) :: nat))) (utf8_decode s')
          else None)"

definition reply_text :: "redis_reply \<Rightarrow> exn + string" where
  "reply_text r =
     (case r of
        RText s \<Rightarrow> Inr s
      | RBytes b \<Rightarrow> (case utf8_decode b of
            Some s \<Rightarrow> Inr s
          | None \<Rightarrow> Inl (PyExn ''UnicodeDecodeError'' ''invalid data'')))"

record 'c redis_client =
  hset :: "string \<Rightarrow> string \<Rightarrow> string \<Rightarrow> ('c, unit) op"
  hget :: "string \<Rightarrow> string \<Rightarrow> ('c, redis_reply option) op"
  hgetall :: "string \<Rightarrow> ('c, (redis_reply \<times> redis_reply) list) op"

definition default_key :: string where
  "default_key = ''providers:health''"

text \<open>\<open>health_from_dict(json.loads(raw))\<close>; indexing anything but an object raises.\<close>

definition health_from_text :: "string \<Rightarrow> exn + raw_health" where
  "health_from_text s =
     (case json_loads s of
        None \<Rightarrow> Inl (PyExn ''JSONDecodeError'' ''not a JSON document'')
      | Some (PDict d) \<Rightarrow> health_from_dict d
      | Some _ \<Rightarrow> Inl (PyExn ''TypeError'' ''indices must be integers or object is not subscriptable''))"

definition health_from_reply :: "redis_reply \<Rightarrow> exn + raw_health" where
  "health_from_reply r = try_bind (reply_text r) health_from_text"

definition redis_save ::
  "'c redis_client \<Rightarrow> string \<Rightarrow> string \<Rightarrow> ProviderHealth \<Rightarrow> ('c, unit) op" where
  "redis_save cl key n h = hset cl key n (json_dumps (PDict (health_to_dict h)))"

definition redis_load :: "'c redis_client \<Rightarrow> string \<Rightarrow> string \<Rightarrow> ('c, raw_health option) op" where
  "redis_load cl key n =
     op_bind (hget cl key n) (\<lambda>raw.
       case raw of None \<Rightarrow> op_return None
       | Some r \<Rightarrow> op_lift (try_bind (health_from_reply r) (\<lambda>h. Inr (Some h))))"

text \<open>The dictionary comprehension: keys decoded, a later entry replaces an earlier one.\<close>

fun read_entries :: "(redis_reply \<times> redis_reply) list \<Rightarrow> (string, raw_health) dict \<Rightarrow> exn + (string, raw_health) dict" where
  "read_entries [] d = Inr d"
| "read_entries ((k, v) # kvs) d =
     try_bind (reply_text k) (\<lambda>n. try_bind (health_from_reply v) (\<lambda>h. read_entries kvs (dict_set n h d)))"

definition redis_load_all :: "'c redis_client \<Rightarrow> string \<Rightarrow> ('c, (string, raw_health) dict) op" where
  "redis_load_all cl key = op_bind (hgetall cl key) (\<lambda>kvs. op_lift (read_entries kvs []))"

section \<open>What a health is read back as\<close>

text \<open>Times are those a \<open>datetime\<close> can hold.\<close>

definition storable :: "ProviderHealth \<Rightarrow> bool" where
  "storable h \<longleftrightarrow> pred_option iso_range (cooldown_until h) \<and> pred_option iso_range (last_used_at h)"

lemma status_of_status_value [simp]: "status_of_value (status_value s) = Inr s"
  by (cases s) (simp_all add: status_of_value_def)

lemma read_dt_opt_time: "pred_option iso_range t \<Longrightarrow> read_dt (opt_time t) = Inr t"
  by (cases t) (simp_all add: opt_time_def fromisoformat_isoformat)

lemma health_from_to_dict: "storable h \<Longrightarrow> health_from_dict (health_to_dict h) = Inr (raw_of h)"
  by (simp add: storable_def health_from_dict_def health_to_dict_def dict_index_def dict_get_default_def
      read_dt_opt_time raw_of_def)

lemma typed_raw_of [simp]: "typed_health (raw_of h) = Some h"
  by (cases "last_error h") (simp_all add: typed_health_def raw_of_def opt_str_def)

lemma health_to_dict_plain: "json_plain (PDict (health_to_dict h))"
  by (simp add: health_to_dict_def opt_time_def opt_str_def dict_ok_def split: option.split)

lemma health_text_roundtrip: "storable h \<Longrightarrow> health_from_text (json_dumps (PDict (health_to_dict h))) = Inr (raw_of h)"
  unfolding health_from_text_def json_loads_dumps [OF health_to_dict_plain] by (simp add: health_from_to_dict)

text \<open>
  C26: Types. What reading a dictionary raises is a \<open>KeyError\<close> or a \<open>ValueError\<close>; what it returns is a
  health of the declared types exactly if the four counts of the dictionary are integers and the
  error is a string, null or missing. The status and the times always have their types.
\<close>

theorem loaded_health_types:
  "case health_from_dict d of
     Inl e \<Rightarrow> \<exists>m. e = PyExn ''KeyError'' m \<or> e = PyExn ''ValueError'' m
   | Inr r \<Rightarrow>
       typed_health r \<noteq> None \<longleftrightarrow>
         list_all (\<lambda>k. case dict_get d k of Some (PInt i) \<Rightarrow> True | _ \<Rightarrow> False)
           [''consecutive_failures'', ''tokens_used'', ''total_requests'', ''total_failures''] \<and>
         (case dict_get d ''last_error'' of None \<Rightarrow> True | Some PNone \<Rightarrow> True | Some (PStr e) \<Rightarrow> True | _ \<Rightarrow> False)"
proof (cases "health_from_dict d")
  case (Inl e)
  have dt: "read_dt v = Inl e' \<Longrightarrow> \<exists>m. e' = PyExn ''ValueError'' m" for v e'
    by (cases v) (auto split: option.splits)
  have st: "status_of_value v = Inl e' \<Longrightarrow> \<exists>m. e' = PyExn ''ValueError'' m" for v e'
    by (auto simp: status_of_value_def split: option.splits)
  have ix: "dict_index d k = Inl e' \<Longrightarrow> \<exists>m. e' = PyExn ''KeyError'' m" for k e'
    by (auto simp: dict_index_def split: option.splits)
  from Inl show ?thesis
    by (simp add: health_from_dict_def split: sum.splits) (auto dest: dt st ix)
next
  case (Inr r)
  then have "dict_get d ''consecutive_failures'' = Some (raw_consecutive r)"
    "dict_get d ''tokens_used'' = Some (raw_tokens r)" "dict_get d ''total_requests'' = Some (raw_requests r)"
    "dict_get d ''total_failures'' = Some (raw_failures r)"
    "raw_error r = dict_get_default d ''last_error'' PNone"
    by (auto simp: health_from_dict_def dict_index_def split: sum.splits option.splits)
  then show ?thesis using Inr
    by (auto simp: typed_health_def dict_get_default_def Let_def split: pyval.splits option.splits)
qed

section \<open>The Redis store refines the in-memory store\<close>

text \<open>
  What the client is assumed to do when it returns, for \<open>hash c key field\<close> the value a hash holds:
  \<open>HSET\<close> sets one field; \<open>HGET\<close> replies with the field's value and \<open>HGETALL\<close> with every field once.
  A call may raise.
\<close>

definition redis_laws :: "'c redis_client \<Rightarrow> ('c \<Rightarrow> string \<Rightarrow> string \<Rightarrow> string option) \<Rightarrow> bool" where
  "redis_laws cl hash \<longleftrightarrow>
     (\<forall>key f v c c'. hset cl key f v c = (Inr (), c') \<longrightarrow>
        hash c' = (hash c)(key := (hash c key)(f \<mapsto> v))) \<and>
     (\<forall>key f c r c'. hget cl key f c = (Inr r, c') \<longrightarrow>
        hash c' = hash c \<and> map_option reply_text r = map_option Inr (hash c key f)) \<and>
     (\<forall>key c kvs c'. hgetall cl key c = (Inr kvs, c') \<longrightarrow>
        hash c' = hash c \<and>
        (\<exists>fvs. list_all2 (\<lambda>(k, v) (f, w). reply_text k = Inr f \<and> reply_text v = Inr w) kvs fvs \<and>
           dict_ok fvs \<and> dict_get fvs = hash c key))"

definition health_text :: "ProviderHealth \<Rightarrow> string" where
  "health_text h = json_dumps (PDict (health_to_dict h))"

definition redis_holds ::
  "('c \<Rightarrow> string \<Rightarrow> string \<Rightarrow> string option) \<Rightarrow> string \<Rightarrow> 'c \<Rightarrow> state_store \<Rightarrow> bool" where
  "redis_holds hash key c st \<longleftrightarrow>
     (\<forall>n. hash c key n = map_option health_text (dict_get st n)) \<and> list_all (\<lambda>(n, h). storable h) st"

lemma storable_set: "list_all (\<lambda>(n, h). storable h) st \<Longrightarrow> storable h \<Longrightarrow> list_all (\<lambda>(n, h). storable h) (dict_set n h st)"
  by (induction st) auto

lemma redis_save_holds:
  assumes "redis_laws cl hash" "redis_holds hash key c st" "storable h"
    "redis_save cl key n h c = (Inr (), c')"
  shows "redis_holds hash key c' (store_save n h st)"
  using assms storable_set [of st h n]
  by (auto simp: redis_laws_def redis_holds_def redis_save_def store_save_def health_text_def)

lemma redis_saves_hold:
  "redis_laws cl hash \<Longrightarrow> redis_holds hash key c st \<Longrightarrow> list_all (\<lambda>(n, h). storable h) ops \<Longrightarrow>
     op_each (\<lambda>(n, h). redis_save cl key n h) ops c = (Inr (), c') \<Longrightarrow>
     redis_holds hash key c' (fold (\<lambda>(n, h). store_save n h) ops st)"
proof (induction ops arbitrary: c st)
  case (Cons x ops)
  obtain n h where x: "x = (n, h)" by (cases x)
  from Cons.prems(4) x obtain c1 where c1: "redis_save cl key n h c = (Inr (), c1)"
    "op_each (\<lambda>(n, h). redis_save cl key n h) ops c1 = (Inr (), c')"
    by (auto simp: op_bind_Inr)
  have h: "storable h" "list_all (\<lambda>(n, h). storable h) ops" using Cons.prems(3) x by simp_all
  from Cons.IH [OF Cons.prems(1) redis_save_holds [OF Cons.prems(1,2) h(1) c1(1)] h(2) c1(2)] x
  show ?case by simp
qed simp

lemma store_load_eq: "store_load st n = dict_get st n"
  by (cases "dict_get st n") (simp_all add: store_load_def)

lemma held_health:
  "redis_holds hash key c st \<Longrightarrow> dict_get st n = Some h \<Longrightarrow> health_from_text (health_text h) = Inr (raw_of h)"
  using health_text_roundtrip map_of_SomeD [of st n h]
  by (fastforce simp: redis_holds_def health_text_def list_all_iff)

lemma redis_load_holds:
  assumes "redis_laws cl hash" "redis_holds hash key c st" "hget cl key n c = (Inr raw, c')"
  shows "redis_load cl key n c = (Inr (map_option raw_of (dict_get st n)), c')"
proof -
  have raw: "map_option reply_text raw = map_option Inr (map_option health_text (dict_get st n))"
    using assms by (auto simp: redis_laws_def redis_holds_def)
  show ?thesis
  proof (cases "dict_get st n")
    case None
    with raw assms(3) show ?thesis by (simp add: redis_load_def)
  next
    case (Some h)
    with raw obtain r where "raw = Some r" "reply_text r = Inr (health_text h)" by (cases raw) auto
    with Some assms(3) held_health [OF assms(2) Some] show ?thesis
      by (simp add: redis_load_def health_from_reply_def)
  qed
qed

lemma read_entries_held:
  assumes "list_all2 (\<lambda>(k, v) (f, w). reply_text k = Inr f \<and> reply_text v = Inr w) kvs fvs"
    "dict_ok fvs" "\<forall>(f, w) \<in> set fvs. health_from_text w = Inr (g f)"
  shows "\<exists>d'. read_entries kvs d = Inr d' \<and>
    (\<forall>n. dict_get d' n = (if dict_has fvs n then Some (g n) else dict_get d n))"
  using assms
proof (induction arbitrary: d rule: list_all2_induct)
  case (Cons kv kvs fw fvs)
  obtain k v f w where p: "kv = (k, v)" "fw = (f, w)" by (cases kv; cases fw)
  have ok: "dict_ok fvs" "\<not> dict_has fvs f" using Cons.prems(1) p by (auto simp: dict_ok_def dict_has_def)
  from Cons.IH [OF ok(1), of "dict_set f (g f) d"] Cons.prems(2) p obtain d' where
    "read_entries kvs (dict_set f (g f) d) = Inr d'"
    "\<forall>n. dict_get d' n = (if dict_has fvs n then Some (g n) else dict_get (dict_set f (g f) d) n)"
    by auto
  moreover have "health_from_reply v = Inr (g f)" using Cons.hyps(1) Cons.prems(2) p by (simp add: health_from_reply_def)
  ultimately show ?case using Cons.hyps(1) p ok(2) by (auto simp: dict_has_def)
qed simp

lemma redis_load_all_holds:
  assumes "redis_laws cl hash" "redis_holds hash key c st" "hgetall cl key c = (Inr kvs, c')"
  shows "\<exists>d. redis_load_all cl key c = (Inr d, c') \<and> (\<forall>n. dict_get d n = map_option raw_of (dict_get st n))"
proof -
  obtain fvs where fvs: "list_all2 (\<lambda>(k, v) (f, w). reply_text k = Inr f \<and> reply_text v = Inr w) kvs fvs"
      "dict_ok fvs" "dict_get fvs = hash c key"
    using assms(1,3) unfolding redis_laws_def by blast
  have held: "dict_get fvs n = map_option health_text (dict_get st n)" for n
    using fvs(3) assms(2) by (simp add: redis_holds_def)
  let ?g = "\<lambda>n. raw_of (the (dict_get st n))"
  have "\<forall>(f, w) \<in> set fvs. health_from_text w = Inr (?g f)"
    using held held_health [OF assms(2)] by (auto simp: dict_get_in [OF fvs(2)])
  from read_entries_held [OF fvs(1,2) this, of "[]"] obtain d where
    d: "read_entries kvs [] = Inr d" "\<forall>n. dict_get d n = (if dict_has fvs n then Some (?g n) else None)"
    by auto
  then have "dict_get d n = map_option raw_of (dict_get st n)" for n
    using held [of n] by (auto simp: dict_has_get)
  with d(1) assms(3) show ?thesis by (simp add: redis_load_all_def)
qed

text \<open>
  C25: The Redis store refines the in-memory store. After any sequence of saves that returned, of
  health whose times a \<open>datetime\<close> can hold, loading one provider or all of them gives exactly what
  the in-memory store would hold, with every field of its declared type, or raises because the
  client did.
\<close>

theorem redis_store_refines_memory:
  assumes "redis_laws cl hash" "hash c0 key = Map.empty" "list_all (\<lambda>(n, h). storable h) saves"
    and "op_each (\<lambda>(n, h). redis_save cl key n h) saves c0 = (Inr (), c)"
  defines "st \<equiv> fold (\<lambda>(n, h). store_save n h) saves []"
  shows "(case fst (redis_load cl key n c) of
            Inl e \<Rightarrow> fst (hget cl key n c) = Inl e
          | Inr r \<Rightarrow> r = map_option raw_of (store_load st n) \<and> Option.bind r typed_health = store_load st n) \<and>
         (case fst (redis_load_all cl key c) of
            Inl e \<Rightarrow> fst (hgetall cl key c) = Inl e
          | Inr d \<Rightarrow> dict_get d n = map_option raw_of (dict_get (store_load_all st) n))"
proof -
  have holds: "redis_holds hash key c st"
    using redis_saves_hold [OF assms(1) _ assms(3,4), of "[]"] assms(2) unfolding st_def
    by (simp add: redis_holds_def)
  have typed: "Option.bind (map_option raw_of x) typed_health = x" for x by (cases x) simp_all
  have "case fst (redis_load cl key n c) of
      Inl e \<Rightarrow> fst (hget cl key n c) = Inl e
    | Inr r \<Rightarrow> r = map_option raw_of (store_load st n) \<and> Option.bind r typed_health = store_load st n"
  proof (cases "hget cl key n c")
    case (Pair res c')
    then show ?thesis using redis_load_holds [OF assms(1) holds, of n] typed
      by (cases res) (auto simp: redis_load_def store_load_eq)
  qed
  moreover have "case fst (redis_load_all cl key c) of
      Inl e \<Rightarrow> fst (hgetall cl key c) = Inl e
    | Inr d \<Rightarrow> dict_get d n = map_option raw_of (dict_get (store_load_all st) n)"
  proof (cases "hgetall cl key c")
    case (Pair res c')
    then show ?thesis using redis_load_all_holds [OF assms(1) holds]
      by (cases res) (fastforce simp: redis_load_all_def)+
  qed
  ultimately show ?thesis by blast
qed

section \<open>A reference client\<close>

text \<open>A hash kept in memory whose replies are text, and which never raises.\<close>

type_synonym memory_redis = "(string, (string, string) dict) dict"

definition memory_hash :: "memory_redis \<Rightarrow> string \<Rightarrow> string \<Rightarrow> string option" where
  "memory_hash c key f = map_of (dict_get_default c key []) f"

definition memory_client :: "memory_redis redis_client" where
  "memory_client =
     \<lparr>hset = (\<lambda>key f v. op_modify (\<lambda>c. dict_set key (dict_set f v (dict_get_default c key [])) c)),
      hget = (\<lambda>key f c. (Inr (map_option RText (memory_hash c key f)), c)),
      hgetall = (\<lambda>key c. (Inr (map (\<lambda>f. (RText f, RText (the (memory_hash c key f))))
        (remdups (dict_keys (dict_get_default c key [])))), c))\<rparr>"

lemma memory_redis_laws: "redis_laws memory_client memory_hash"
  unfolding redis_laws_def
proof (intro conjI allI impI)
  fix key c kvs c'
  assume run: "hgetall memory_client key c = (Inr kvs, c')"
  let ?d = "dict_get_default c key []"
  let ?fvs = "map (\<lambda>f. (f, the (memory_hash c key f))) (remdups (dict_keys ?d))"
  have "map_of ?fvs = memory_hash c key"
    by (auto simp: map_of_map_restrict memory_hash_def restrict_map_def fun_eq_iff map_of_eq_None_iff
        dest: map_of_SomeD intro: sym)
  moreover have "list_all2 (\<lambda>(k, v) (f, w). reply_text k = Inr f \<and> reply_text v = Inr w) kvs ?fvs"
    using run by (auto simp: memory_client_def list_all2_map1 list_all2_map2 reply_text_def list_all2_same)
  moreover have "dict_ok ?fvs" by (simp add: dict_ok_def comp_def)
  ultimately show "\<exists>fvs. list_all2 (\<lambda>(k, v) (f, w). reply_text k = Inr f \<and> reply_text v = Inr w) kvs fvs \<and>
      dict_ok fvs \<and> dict_get fvs = memory_hash c key" by blast
qed (auto simp: memory_client_def memory_hash_def reply_text_def fun_eq_iff dict_get_default_def option.map_comp comp_def
    split: option.splits)

definition sample_saves :: "(string \<times> ProviderHealth) list" where
  "sample_saves =
     [(''openai'', new_health),
      (''openai'', new_health\<lparr>health_status := OFFLINE, cooldown_until := Some 1700000000000001,
         last_error := Some ''no credit''\<rparr>)]"

theorem redis_store_refines_memory_witness:
  "\<exists>c. op_each (\<lambda>(n, h). redis_save memory_client default_key n h) sample_saves [] = (Inr (), c) \<and>
     fst (redis_load memory_client default_key ''openai'' c) = Inr (Some (raw_of (snd (sample_saves ! 1))))"
proof -
  obtain c where c: "op_each (\<lambda>(n, h). redis_save memory_client default_key n h) sample_saves [] = (Inr (), c)"
    by (simp add: sample_saves_def redis_save_def memory_client_def)
  have empty: "memory_hash [] default_key = Map.empty" by (simp add: memory_hash_def dict_get_default_def fun_eq_iff)
  have ok: "list_all (\<lambda>(n, h). storable h) sample_saves"
    by (simp add: sample_saves_def storable_def new_health_def iso_range_def)
  have load: "dict_get (fold (\<lambda>(n, h). store_save n h) sample_saves []) ''openai'' = Some (snd (sample_saves ! 1))"
    by (simp add: sample_saves_def store_save_def)
  from redis_store_refines_memory [OF memory_redis_laws empty ok c, of "''openai''"] c load
  show ?thesis by (auto simp: memory_client_def store_load_eq split: sum.splits)
qed

end
