(* ===== verification/Event_Listener.thy ===== *)
theory Event_Listener
  imports Provider_Persistence Task_Pipeline
begin

text \<open>
  \<open>workflow-engine/main.py\<close>: the listener that copies the messages of the bus into the table
  \<open>events\<close>. A round takes what \<open>get_message\<close> returned; whatever is raised is logged and the round
  ends. Parameters are the decoding of bytes with replacement, the driver's reading of a text as
  a UUID, the texts the database takes, which statements raise for lack of a connection, and which
  of its two declarations the table has: \<open>infra/postgres/init.sql\<close> gives it a foreign key into
  \<open>workflows\<close>, \<open>scripts/init_db.py\<close> does not.
\<close>

section \<open>format_msg\<close>

definition format_msg :: "(string \<Rightarrow> string) \<Rightarrow> redis_reply option \<Rightarrow> pyval option" where
  "format_msg decode data =
     (case data of
        None \<Rightarrow> None
      | Some r \<Rightarrow>
          let s = (case r of RBytes b \<Rightarrow> decode b | RText s \<Rightarrow> s)
          in case json_loads s of
               Some v \<Rightarrow> Some v
             | None \<Rightarrow> Some (PDict [(''raw'', PStr s)]))"

section \<open>The table of events\<close>

text \<open>\<open>workflow_ids\<close>: the identifiers in the table \<open>workflows\<close>, which no component writes.\<close>

record event_row =
  ev_workflow :: string
  ev_type :: string
  ev_payload :: string

record event_db =
  workflow_ids :: "string list"
  event_rows :: "event_row list"
  db_moment :: nat

record listener_env =
  decode_utf8 :: "string \<Rightarrow> string"
  read_uuid :: "string \<Rightarrow> string option"
  storable_text :: "string \<Rightarrow> bool"
  foreign_key :: bool
  db_faulty :: "nat \<Rightarrow> bool"

definition data_error :: exn where
  "data_error = PyExn ''DataError'' ''invalid input for query argument''"

text \<open>
  The statement's arguments: a UUID and two texts. A foreign key refuses a workflow that is not in
  its table.
\<close>

definition insert_event :: "listener_env \<Rightarrow> pyval \<Rightarrow> pyval \<Rightarrow> string \<Rightarrow> (event_db, unit) op" where
  "insert_event env wid ev body db =
     (let db1 = db\<lparr>db_moment := db_moment db + 1\<rparr> in
      if db_faulty env (db_moment db) then (Inl connection_error, db1) else
      case wid of
        PStr w \<Rightarrow>
          (case read_uuid env w of
             None \<Rightarrow> (Inl data_error, db1)
           | Some u \<Rightarrow>
               (case ev of
                  PStr t \<Rightarrow>
                    if \<not> (storable_text env t \<and> storable_text env body)
                    then (Inl (PyExn ''UntranslatableCharacterError'' ''unsupported Unicode escape sequence''), db1)
                    else if foreign_key env \<and> u \<notin> set (workflow_ids db1)
                    then (Inl (PyExn ''ForeignKeyViolationError''
                            ''insert or update on table violates foreign key constraint''), db1)
                    else (Inr (), db1\<lparr>event_rows := event_rows db1 @
                            [\<lparr>ev_workflow = u, ev_type = t, ev_payload = body\<rparr>]\<rparr>)
                | _ \<Rightarrow> (Inl data_error, db1)))
      | _ \<Rightarrow> (Inl data_error, db1))"

section \<open>listen_events\<close>

text \<open>
  The arguments of the log line: \<open>len(task_id)\<close>, and a slice of it if it is longer than 8.
\<close>

fun log_task :: "pyval \<Rightarrow> exn + unit" where
  "log_task (PStr s) = Inr ()"
| "log_task (PList vs) = Inr ()"
| "log_task (PDict kvs) =
     (if 8 < length kvs then Inl (PyExn ''KeyError'' ''slice'') else Inr ())"
| "log_task _ = Inl (PyExn ''TypeError'' ''object has no len()'')"

definition store_event :: "listener_env \<Rightarrow> (string, pyval) dict \<Rightarrow> (event_db, unit) op" where
  "store_event env d =
     (let event = dict_get_default d ''event'' (PStr ''unknown'');
          task_id = dict_get_default d ''task_id'' (PStr ''?'');
          wid = dict_get_default d ''workflow_id'' PNone
      in op_bind (op_lift (log_task task_id)) (\<lambda>_.
         insert_event env (if py_truthy wid then wid else task_id) event (json_dumps (PDict d))))"

definition handle_message :: "listener_env \<Rightarrow> redis_reply option option \<Rightarrow> (event_db, unit) op" where
  "handle_message env msg =
     (case msg of
        None \<Rightarrow> op_return ()
      | Some data \<Rightarrow>
          (case format_msg (decode_utf8 env) data of
             None \<Rightarrow> op_return ()
           | Some v \<Rightarrow>
               if \<not> py_truthy v then op_return ()
               else (case v of
                       PDict d \<Rightarrow> store_event env d
                     | _ \<Rightarrow> op_raise (PyExn ''AttributeError'' ''object has no attribute 'get''))))"

definition listen_round :: "listener_env \<Rightarrow> event_db \<Rightarrow> redis_reply option option \<Rightarrow> event_db" where
  "listen_round env db msg = snd (handle_message env msg db)"

section \<open>What a message does\<close>

definition message_on :: "(string, pyval) dict \<Rightarrow> redis_reply option option" where
  "message_on d = Some (Some (RText (json_dumps (PDict d))))"

lemma listen_message:
  assumes "json_plain (PDict d)" "d \<noteq> []"
  shows "listen_round env db (message_on d) = snd (store_event env d db)"
  using json_loads_dumps [OF assms(1)] assms(2)
  by (simp add: listen_round_def handle_message_def message_on_def format_msg_def Let_def)

lemma insert_event_frame:
  "workflow_ids (snd (insert_event env wid ev body db)) = workflow_ids db"
  "event_rows (snd (insert_event env wid ev body db)) = event_rows db \<or>
     (\<exists>w u t. wid = PStr w \<and> read_uuid env w = Some u \<and> (foreign_key env \<longrightarrow> u \<in> set (workflow_ids db)) \<and>
        event_rows (snd (insert_event env wid ev body db)) =
          event_rows db @ [\<lparr>ev_workflow = u, ev_type = t, ev_payload = body\<rparr>])"
  by (auto simp: insert_event_def Let_def split: pyval.splits option.splits)

lemma store_event_frame:
  "workflow_ids (snd (store_event env d db)) = workflow_ids db"
  "\<not> py_truthy (dict_get_default d ''workflow_id'' PNone) \<Longrightarrow>
     dict_get_default d ''task_id'' (PStr ''?'') = PStr i \<Longrightarrow>
     (\<forall>u. read_uuid env i = Some u \<longrightarrow> foreign_key env \<and> u \<notin> set (workflow_ids db)) \<Longrightarrow>
     event_rows (snd (store_event env d db)) = event_rows db"
proof -
  show "workflow_ids (snd (store_event env d db)) = workflow_ids db"
    using insert_event_frame(1)
    by (cases "log_task (dict_get_default d ''task_id'' (PStr ''?''))")
      (simp_all add: store_event_def Let_def op_bind_def)
next
  assume "\<not> py_truthy (dict_get_default d ''workflow_id'' PNone)"
    "dict_get_default d ''task_id'' (PStr ''?'') = PStr i"
    "\<forall>u. read_uuid env i = Some u \<longrightarrow> foreign_key env \<and> u \<notin> set (workflow_ids db)"
  then show "event_rows (snd (store_event env d db)) = event_rows db"
    using insert_event_frame(2) [of env "PStr i" "dict_get_default d ''event'' (PStr ''unknown'')"
        "json_dumps (PDict d)" db]
    by (auto simp: store_event_def Let_def op_bind_def)
qed

text \<open>
  An event whose message names a workflow of the table is stored under it with the message's
  text, and the text is read back as the message.
\<close>

theorem stored_event_is_faithful:
  assumes "json_plain (PDict d)" and "dict_get d ''event'' = Some (PStr ev)"
    and "dict_get d ''task_id'' = Some (PStr i)"
    and "dict_get d ''workflow_id'' = Some (PStr w)" "w \<noteq> []"
    and "read_uuid env w = Some u" "u \<in> set (workflow_ids db)"
    and "storable_text env ev" "storable_text env (json_dumps (PDict d))" "\<not> db_faulty env (db_moment db)"
  shows "\<exists>row. event_rows (listen_round env db (message_on d)) = event_rows db @ [row] \<and>
    ev_workflow row = u \<and> ev_type row = ev \<and> json_loads (ev_payload row) = Some (PDict d)"
proof -
  have "d \<noteq> []" using assms(2) by auto
  with assms json_loads_dumps [OF assms(1)] show ?thesis
    by (simp add: listen_message store_event_def Let_def dict_get_default_def insert_event_def)
qed

text \<open>
  A text that is no JSON document is kept as the value of \<open>raw\<close>, and then never stored: its task
  is the question mark, which is no UUID.
\<close>

theorem raw_message_never_stored:
  assumes "json_loads s = None" "read_uuid env ''?'' = None"
  shows "event_rows (listen_round env db (Some (Some (RText s)))) = event_rows db"
proof -
  have "listen_round env db (Some (Some (RText s))) = snd (store_event env [(''raw'', PStr s)] db)"
    using assms(1) by (simp add: listen_round_def handle_message_def format_msg_def Let_def)
  with assms(2) store_event_frame(2) [of "[(''raw'', PStr s)]" "''?''" env db]
  show ?thesis by (simp add: dict_get_default_def)
qed

section \<open>What the pipeline announces\<close>

text \<open>
  Each message starts with the event and the task; its other entries are none of these and name no
  workflow.
\<close>

definition announcement :: "(string, pyval) dict \<Rightarrow> bool" where
  "announcement m \<longleftrightarrow>
     (\<exists>ev i rest. m = (''event'', PStr ev) # (''task_id'', PStr i) # rest \<and> \<not> dict_has rest ''workflow_id'')"

text \<open>From \<open>p\<close> to \<open>q\<close> only announcements were published.\<close>

definition announces :: "pipeline \<Rightarrow> pipeline \<Rightarrow> bool" where
  "announces p q \<longleftrightarrow> (\<exists>ms. bus_log q = bus_log p @ ms \<and> list_all announcement ms)"

interpretation announced: frame_relation announces
  by unfold_locales (force simp: announces_def)+

lemma announces_quiet: "bus_log q = bus_log p \<Longrightarrow> announces p q"
  by (simp add: announces_def)

lemma interact_quiet:
  "(\<And>p. bus_log (snd (f p)) = bus_log p) \<Longrightarrow> announces p (snd (interact env f p))"
  by (simp add: announces_quiet interact_def Let_def)

lemma quiet_operations [intro]:
  "announces p (snd (repo_create env t p))"
  "announces p (snd (repo_get env i p))"
  "announces p (snd (get_pending env k p))"
  "announces p (snd (redis_lpush env key m p))"
  "announces p (snd (redis_blpop env key p))"
  "announces p (snd (update_status env i st res err att p))"
  "announces p (snd (execute_op m p))"
  "announces p (snd (op_return () p))"
proof -
  show "announces p (snd (repo_create env t p))" unfolding repo_create_def
    by (rule interact_quiet) (simp add: Let_def split: option.split)
  show "announces p (snd (repo_get env i p))" unfolding repo_get_def
    by (rule interact_quiet) (simp split: option.split)
  show "announces p (snd (get_pending env k p))" unfolding get_pending_def
    by (rule interact_quiet) simp
  show "announces p (snd (redis_lpush env key m p))" unfolding redis_lpush_def
    by (rule interact_quiet) simp
  show "announces p (snd (redis_blpop env key p))" unfolding redis_blpop_def
    by (rule interact_quiet) (simp split: list.split)
  show "announces p (snd (update_status env i st res err att p))" unfolding update_status_def
    by (rule interact_quiet) (simp split: option.split)
  show "announces p (snd (execute_op m p))" "announces p (snd (op_return () p))"
    by (auto intro: announces_quiet simp: execute_op_def)
qed

lemma publish_announces: "announcement m \<Longrightarrow> announces p (snd (redis_publish env m p))"
  by (auto simp: announces_def redis_publish_def interact_def Let_def)

lemma publish_event_announces:
  "\<not> dict_has extra ''workflow_id'' \<Longrightarrow> announces p (snd (publish_event env ev i extra p))"
  by (auto simp: publish_event_def announcement_def dict_has_def intro!: publish_announces)

lemma dispatch_announces: "announces p (snd (dispatch env t p))"
  unfolding dispatch_def Let_def
  by (intro announced.frame_bind quiet_operations publish_announces) (auto simp: announcement_def dict_has_def)

lemma consume_announces: "announces p (snd (consume_message env m p))"
proof -
  have finished: "announces p (snd (on_task_done env m res p))" for res p
    unfolding on_task_done_def
    by (intro announced.frame_bind quiet_operations publish_event_announces) (simp add: dict_has_def)
  have failed: "announces p (snd (on_task_error env m err p))" for err p
    unfolding on_task_error_def Let_def
    by (intro announced.frame_bind quiet_operations)
      (auto simp: dict_has_def intro!: announced.frame_bind quiet_operations publish_event_announces)
  show ?thesis
    unfolding consume_message_def
    by (intro announced.frame_bind quiet_operations) (auto simp: failed finished split: option.split)
qed

lemma pipeline_announces: "announces p (pipeline_do p st)"
proof (cases st)
  case (Poll env)
  then show ?thesis
    by (auto simp: poll_round_def intro!: announced.frame_bind announced.frame_each dispatch_announces)
next
  case (Consume env)
  then show ?thesis
    by (auto simp: consume_round_def announced.frame_refl intro!: announced.frame_bind consume_announces
        split: option.split)
qed auto

lemma pipeline_run_announces: "announces p (run pipeline_do p steps)"
proof (induction steps arbitrary: p)
  case (Cons st steps)
  from announced.frame_trans [OF pipeline_announces Cons.IH] show ?case by simp
qed (simp add: announced.frame_refl)

section \<open>Pipeline and listener together\<close>

text \<open>
  The table has its foreign key, and the task a message names has the identifier of no workflow.
\<close>

definition no_workflow_task :: "listener_env \<Rightarrow> string list \<Rightarrow> (string, pyval) dict \<Rightarrow> bool" where
  "no_workflow_task env ids m \<longleftrightarrow>
     (case dict_get m ''task_id'' of
        Some (PStr i) \<Rightarrow>
          (case read_uuid env i of Some u \<Rightarrow> foreign_key env \<and> u \<notin> set ids | None \<Rightarrow> True)
      | _ \<Rightarrow> True)"

lemma listen_announcement:
  assumes "announcement m" "json_plain (PDict m)"
    and "no_workflow_task env (workflow_ids db) m"
  shows "event_rows (listen_round env db (message_on m)) = event_rows db \<and>
    workflow_ids (listen_round env db (message_on m)) = workflow_ids db"
proof -
  from assms(1) obtain ev i rest where m: "m = (''event'', PStr ev) # (''task_id'', PStr i) # rest"
      "\<not> dict_has rest ''workflow_id''" by (auto simp: announcement_def)
  then have "dict_get m ''workflow_id'' = None" by (simp add: dict_get_None_iff)
  then have get: "\<not> py_truthy (dict_get_default m ''workflow_id'' PNone)"
      "dict_get_default m ''task_id'' (PStr ''?'') = PStr i"
    using m(1) by (simp_all add: dict_get_default_def)
  have "\<forall>u. read_uuid env i = Some u \<longrightarrow> foreign_key env \<and> u \<notin> set (workflow_ids db)"
    using assms(3) m(1) by (simp add: no_workflow_task_def split: option.splits)
  moreover have "m \<noteq> []" using m(1) by simp
  ultimately show ?thesis
    using store_event_frame(1) store_event_frame(2) [OF get] listen_message [OF assms(2)] by metis
qed

lemma listen_announcements:
  "\<forall>m \<in> set ms. announcement m \<Longrightarrow> \<forall>m \<in> set ms. json_plain (PDict m) \<Longrightarrow>
     \<forall>m \<in> set ms. no_workflow_task env (workflow_ids db) m \<Longrightarrow>
     event_rows (run (listen_round env) db (map message_on ms)) = event_rows db"
proof (induction ms arbitrary: db)
  case (Cons m ms)
  have here: "event_rows (listen_round env db (message_on m)) = event_rows db"
    "workflow_ids (listen_round env db (message_on m)) = workflow_ids db"
    using listen_announcement [of m env db] Cons.prems by simp_all
  have "event_rows (run (listen_round env) (listen_round env db (message_on m)) (map message_on ms)) =
      event_rows (listen_round env db (message_on m))"
    using Cons.prems by (intro Cons.IH) (simp_all add: here)
  with here show ?case by simp
qed simp

text \<open>
  Under the foreign key no event of the pipeline is ever stored. Whatever the scheduler and the workers do, every
  message they publish names its task and no workflow, so the listener files it under the task's
  identifier, and the foreign key refuses it, unless a workflow happens to have that identifier.
\<close>

theorem pipeline_events_never_stored:
  assumes "p = run pipeline_do empty_pipeline steps"
    and "\<forall>m \<in> set (bus_log p). json_plain (PDict m)"
    and "\<forall>m \<in> set (bus_log p). no_workflow_task env (workflow_ids db) m"
  shows "event_rows (run (listen_round env) db (map message_on (bus_log p))) = event_rows db"
proof -
  have "announces empty_pipeline p" unfolding assms(1) by (rule pipeline_run_announces)
  then have "\<forall>m \<in> set (bus_log p). announcement m" by (auto simp: announces_def empty_pipeline_def list_all_iff)
  then show ?thesis using assms(2,3) by (rule listen_announcements)
qed

text \<open>Without the foreign key: the row of a message whose task's identifier is read as a UUID.\<close>

definition event_row_of :: "listener_env \<Rightarrow> (string, pyval) dict \<Rightarrow> event_row" where
  "event_row_of env m =
     \<lparr>ev_workflow = (case dict_get m ''task_id'' of Some (PStr i) \<Rightarrow> (case read_uuid env i of Some u \<Rightarrow> u | None \<Rightarrow> []) | _ \<Rightarrow> []),
      ev_type = (case dict_get m ''event'' of Some (PStr t) \<Rightarrow> t | _ \<Rightarrow> []), ev_payload = json_dumps (PDict m)\<rparr>"

definition storable_message :: "listener_env \<Rightarrow> (string, pyval) dict \<Rightarrow> bool" where
  "storable_message env m \<longleftrightarrow>
     json_plain (PDict m) \<and> storable_text env (json_dumps (PDict m)) \<and>
     (case dict_get m ''event'' of Some (PStr t) \<Rightarrow> storable_text env t | _ \<Rightarrow> False) \<and>
     (case dict_get m ''task_id'' of Some (PStr i) \<Rightarrow> read_uuid env i \<noteq> None | _ \<Rightarrow> False)"

lemma listen_storable:
  assumes "announcement m" "storable_message env m" "\<not> foreign_key env" "\<not> db_faulty env (db_moment db)"
  shows "event_rows (listen_round env db (message_on m)) = event_rows db @ [event_row_of env m]"
proof -
  from assms(1) obtain ev i rest where m: "m = (''event'', PStr ev) # (''task_id'', PStr i) # rest"
      "\<not> dict_has rest ''workflow_id''" by (auto simp: announcement_def)
  from m assms(2) obtain u where u: "read_uuid env i = Some u" by (auto simp: storable_message_def)
  have wid: "dict_get m ''workflow_id'' = None" using m by (simp add: dict_get_None_iff)
  with m u assms(2-4) listen_message [of m env db] show ?thesis
    by (simp add: storable_message_def store_event_def insert_event_def event_row_of_def
        dict_get_default_def Let_def del: json_plain.simps)
qed

lemma listen_storables:
  "\<forall>m \<in> set ms. announcement m \<and> storable_message env m \<Longrightarrow> \<not> foreign_key env \<Longrightarrow>
     (\<And>n. \<not> db_faulty env n) \<Longrightarrow>
     event_rows (run (listen_round env) db (map message_on ms)) = event_rows db @ map (event_row_of env) ms"
proof (induction ms arbitrary: db)
  case (Cons m ms)
  then show ?case using listen_storable [of m env db] by simp
qed simp

text \<open>
  With the table as \<open>scripts/init_db.py\<close> declares it there is no foreign key, and the listener
  is a faithful log: while the database answers and every task has a UUID, the rows it adds are
  the published events, each once, in order, filed under their task.
\<close>

theorem events_stored_without_foreign_key:
  assumes "p = run pipeline_do empty_pipeline steps"
    and "\<not> foreign_key env" "db_faulty env = (\<lambda>_. False)"
    and "\<forall>m \<in> set (bus_log p). storable_message env m"
  shows "event_rows (run (listen_round env) db (map message_on (bus_log p))) =
     event_rows db @ map (event_row_of env) (bus_log p)"
proof -
  have "announces empty_pipeline p" unfolding assms(1) by (rule pipeline_run_announces)
  then have "\<forall>m \<in> set (bus_log p). announcement m" by (auto simp: announces_def empty_pipeline_def list_all_iff)
  with assms(2-4) show ?thesis by (intro listen_storables) auto
qed

section \<open>Witnesses\<close>

definition sample_listener :: listener_env where
  "sample_listener =
     \<lparr>decode_utf8 = (\<lambda>b. b), read_uuid = (\<lambda>s. if s = ''?'' then None else Some s),
      storable_text = (\<lambda>s. True), foreign_key = True, db_faulty = (\<lambda>n. False)\<rparr>"

definition sample_db :: event_db where
  "sample_db = \<lparr>workflow_ids = [''flow''], event_rows = [], db_moment = 0\<rparr>"

theorem stored_event_is_faithful_witness:
  "let d = [(''event'', PStr ''started''), (''task_id'', PStr ''job''), (''workflow_id'', PStr ''flow'')]
   in \<exists>row. event_rows (listen_round sample_listener sample_db (message_on d)) = [row] \<and>
        ev_type row = ''started'' \<and> json_loads (ev_payload row) = Some (PDict d)"
  using stored_event_is_faithful
    [of "[(''event'', PStr ''started''), (''task_id'', PStr ''job''), (''workflow_id'', PStr ''flow'')]"
      "''started''" "''job''" "''flow''" sample_listener "''flow''" sample_db]
  by (auto simp: sample_listener_def sample_db_def dict_ok_def)

theorem raw_message_never_stored_witness:
  "event_rows (listen_round sample_listener sample_db (Some (Some (RText ''ping'')))) = []"
proof -
  have "json_loads ''ping'' = None" by code_simp
  from raw_message_never_stored [OF this, of sample_listener sample_db] show ?thesis
    by (simp add: sample_listener_def sample_db_def)
qed

theorem pipeline_events_never_stored_witness:
  "let env = sample_pipe_env (\<lambda>n. False) declared_columns;
       p = run pipeline_do empty_pipeline [Create env (sample_job ''echo''), Poll env, Consume env]
   in length (bus_log p) = 2 \<and>
      event_rows (run (listen_round sample_listener) sample_db (map message_on (bus_log p))) = []"
proof -
  let ?env = "sample_pipe_env (\<lambda>n. False) declared_columns"
  let ?p = "run pipeline_do empty_pipeline [Create ?env (sample_job ''echo''), Poll ?env, Consume ?env]"
  have two: "length (bus_log ?p) = 2" by (simp add: pipeline_eval)
  have plain: "\<forall>m \<in> set (bus_log ?p). json_plain (PDict m)"
    by (simp add: pipeline_eval payload_get_def dict_ok_def)
  have ids: "\<forall>m \<in> set (bus_log ?p). no_workflow_task sample_listener (workflow_ids sample_db) m"
    by (simp add: pipeline_eval no_workflow_task_def sample_listener_def sample_db_def)
  from pipeline_events_never_stored [OF refl plain ids] two show ?thesis
    by (simp add: Let_def) (simp add: sample_db_def)
qed

theorem events_stored_without_foreign_key_witness:
  "let env = sample_pipe_env (\<lambda>n. False) declared_columns; le = sample_listener\<lparr>foreign_key := False\<rparr>;
       p = run pipeline_do empty_pipeline [Create env (sample_job ''echo''), Poll env, Consume env]
   in map ev_type (event_rows (run (listen_round le) sample_db (map message_on (bus_log p)))) =
      [''task_scheduled'', ''task_completed'']"
proof -
  let ?env = "sample_pipe_env (\<lambda>n. False) declared_columns" and ?le = "sample_listener\<lparr>foreign_key := False\<rparr>"
  let ?p = "run pipeline_do empty_pipeline [Create ?env (sample_job ''echo''), Poll ?env, Consume ?env]"
  have types: "map (\<lambda>m. ev_type (event_row_of ?le m)) (bus_log ?p) = [''task_scheduled'', ''task_completed'']"
    by (simp add: pipeline_eval event_row_of_def)
  have storable: "\<forall>m \<in> set (bus_log ?p). storable_message ?le m"
    by (simp add: pipeline_eval payload_get_def dict_ok_def storable_message_def sample_listener_def)
  have env: "\<not> foreign_key ?le" "db_faulty ?le = (\<lambda>_. False)" by (simp_all add: sample_listener_def)
  from events_stored_without_foreign_key [OF refl env storable, of sample_db] types show ?thesis
    by (simp add: Let_def comp_def del: foldl_Cons) (simp add: sample_db_def)
qed

end
