(* ===== verification/Processes.thy ===== *)
theory Processes
  imports Task_Pipeline
begin

text \<open>
  The processes of a deployment at the granularity of their \<open>await\<close>s. \<open>Task_Pipeline\<close> models a
  round of the scheduler (\<open>scheduler/main.py\<close>) and of a worker (\<open>opencode-worker/main.py\<close>) as one
  operation; here a round is a sequence of steps, each one call of the database, of Redis or of the
  executor, and the steps of any number of processes interleave. A process may be cancelled between
  any two of its steps, as \<open>asyncio.run\<close> does with the remaining tasks after a signal, and started
  again. Shown: an undisturbed round is the round of \<open>Task_Pipeline\<close>, and with one scheduler no two
  processes ever hold the same task.
\<close>

section \<open>The scheduler\<close>

text \<open>
  Where \<open>poll_pg\<close> waits: before \<open>get_pending\<close>, before marking the first of the tasks left, before
  pushing it, before publishing. \<open>S_Stopped\<close>: the process is down.
\<close>

datatype sched =
    S_Idle
  | S_Mark Task "Task list"
  | S_Push Task "Task list"
  | S_Publish Task "Task list"
  | S_Stopped

definition next_task :: "Task list \<Rightarrow> sched" where
  "next_task ts = (case ts of [] \<Rightarrow> S_Idle | t # ts' \<Rightarrow> S_Mark t ts')"

definition provider_of :: "Task \<Rightarrow> string" where
  "provider_of t = (if task_provider t \<noteq> [] then task_provider t else ''opencode'')"

definition scheduled_event :: "pipe_env \<Rightarrow> Task \<Rightarrow> pipeline \<Rightarrow> (string, pyval) dict" where
  "scheduled_event env t p =
     [(''event'', PStr ''task_scheduled''), (''task_id'', PStr (task_id t)),
      (''provider'', PStr (provider_of t)),
      (''timestamp'', PStr (isoformat (wall_clock env (pl_moment p))))]"

text \<open>What is raised ends the round.\<close>

definition or_idle :: "'c \<Rightarrow> ('a \<Rightarrow> 'c) \<Rightarrow> (exn + 'a) \<times> 's \<Rightarrow> 'c \<times> 's" where
  "or_idle idle f r = (case r of (Inl e, p) \<Rightarrow> (idle, p) | (Inr x, p) \<Rightarrow> (f x, p))"

fun sched_step :: "pipe_env \<Rightarrow> sched \<Rightarrow> pipeline \<Rightarrow> sched \<times> pipeline" where
  "sched_step env S_Idle p = or_idle S_Idle next_task (get_pending env 10 p)"
| "sched_step env (S_Mark t ts) p =
     or_idle S_Idle (\<lambda>_. S_Push t ts) (update_status env (task_id t) SCHEDULED None None (Some 1) p)"
| "sched_step env (S_Push t ts) p =
     or_idle S_Idle (\<lambda>_. S_Publish t ts)
       (redis_lpush env (queue_key (provider_of t)) (message_of t (provider_of t)) p)"
| "sched_step env (S_Publish t ts) p =
     or_idle S_Idle (\<lambda>_. next_task ts) (redis_publish env (scheduled_event env t p) p)"
| "sched_step env S_Stopped p = (S_Stopped, p)"

section \<open>The worker\<close>

text \<open>Where \<open>consume\<close> waits, with the message it works on.\<close>

datatype consumer =
    W_Idle
  | W_Start queue_message
  | W_Execute queue_message
  | W_Look queue_message string
  | W_Retry queue_message string int
  | W_Requeue queue_message
  | W_GiveUp queue_message string int
  | W_SayFailed queue_message string
  | W_Finish queue_message "(string, pyval) dict option"
  | W_SayDone queue_message "(string, pyval) dict option"
  | W_Stopped

definition after_execution ::
  "queue_message \<Rightarrow> (string, pyval) dict option \<times> string option \<Rightarrow> consumer" where
  "after_execution m r =
     (case r of (res, err) \<Rightarrow>
        case err of None \<Rightarrow> W_Finish m res | Some e \<Rightarrow> if e \<noteq> [] then W_Look m e else W_Finish m res)"

definition after_look :: "queue_message \<Rightarrow> string \<Rightarrow> Task option \<Rightarrow> consumer" where
  "after_look m err db =
     (let att = (case db of Some t \<Rightarrow> attempts t | None \<Rightarrow> 0) + 1
      in if (case db of Some t \<Rightarrow> att < max_attempts t | None \<Rightarrow> False)
         then W_Retry m err att else W_GiveUp m err att)"

fun work_step :: "pipe_env \<Rightarrow> consumer \<Rightarrow> pipeline \<Rightarrow> consumer \<times> pipeline" where
  "work_step env W_Idle p =
     or_idle W_Idle (\<lambda>m. case m of None \<Rightarrow> W_Idle | Some m \<Rightarrow> W_Start m) (redis_blpop env task_queue p)"
| "work_step env (W_Start m) p =
     or_idle W_Idle (\<lambda>_. W_Execute m) (update_status env (msg_id m) RUNNING None None None p)"
| "work_step env (W_Execute m) p = or_idle W_Idle (after_execution m) (execute_op m p)"
| "work_step env (W_Look m err) p = or_idle W_Idle (after_look m err) (repo_get env (msg_id m) p)"
| "work_step env (W_Retry m err att) p =
     or_idle W_Idle (\<lambda>_. W_Requeue m)
       (update_status env (msg_id m) RETRYING None (Some err) (Some att) p)"
| "work_step env (W_Requeue m) p = or_idle W_Idle (\<lambda>_. W_Idle) (redis_lpush env task_queue m p)"
| "work_step env (W_GiveUp m err att) p =
     or_idle W_Idle (\<lambda>_. W_SayFailed m err)
       (update_status env (msg_id m) TASK_FAILED None (Some err) (Some att) p)"
| "work_step env (W_SayFailed m err) p =
     or_idle W_Idle (\<lambda>_. W_Idle) (publish_event env ''task_failed'' (msg_id m) [(''error'', PStr err)] p)"
| "work_step env (W_Finish m res) p =
     or_idle W_Idle (\<lambda>_. W_SayDone m res)
       (update_status env (msg_id m) COMPLETED res None (Some 0) p)"
| "work_step env (W_SayDone m res) p =
     or_idle W_Idle (\<lambda>_. W_Idle)
       (publish_event env ''task_completed'' (msg_id m)
          [(''result'', (case res of None \<Rightarrow> PNone | Some d \<Rightarrow> PDict d))] p)"
| "work_step env W_Stopped p = (W_Stopped, p)"

section \<open>An undisturbed round\<close>

text \<open>\<open>returns f idle c p q\<close>: alone, the process comes to wait at \<open>idle\<close> and leaves the state \<open>q\<close>.\<close>

inductive returns :: "('c \<Rightarrow> 's \<Rightarrow> 'c \<times> 's) \<Rightarrow> 'c \<Rightarrow> 'c \<Rightarrow> 's \<Rightarrow> 's \<Rightarrow> bool"
  for f :: "'c \<Rightarrow> 's \<Rightarrow> 'c \<times> 's" and idle :: 'c where
  returned: "returns f idle idle p p"
| onwards: "c \<noteq> idle \<Longrightarrow> f c p = (c', p') \<Longrightarrow> returns f idle c' p' q \<Longrightarrow> returns f idle c p q"

inductive_simps returns_idle: "returns f idle idle p q"

lemma returns_step: "c \<noteq> idle \<Longrightarrow> returns f idle c p q \<longleftrightarrow> returns f idle (fst (f c p)) (snd (f c p)) q"
  by (subst returns.simps) (cases "f c p", auto)

lemma returns_or_idle:
  "c \<noteq> idle \<Longrightarrow> f c p = or_idle idle g r \<Longrightarrow>
     returns f idle c p q \<longleftrightarrow>
       (case r of (Inl e, p') \<Rightarrow> q = p' | (Inr x, p') \<Rightarrow> returns f idle (g x) p' q)"
  by (subst returns_step) (auto simp: or_idle_def returns_idle split: prod.split sum.split)

lemma next_task_simps [simp]: "next_task [] = S_Idle" "next_task (t # ts) = S_Mark t ts"
  by (simp_all add: next_task_def)

lemma sched_returns_tasks:
  "returns (sched_step env) S_Idle (next_task ts) p q \<longleftrightarrow> q = snd (op_each (dispatch env) ts p)"
proof (induction ts arbitrary: p)
  case Nil
  then show ?case by (auto simp: returns_idle)
next
  case (Cons t ts)
  have d: "snd (op_each (dispatch env) (t # ts) p) =
      (case update_status env (task_id t) SCHEDULED None None (Some 1) p of
         (Inl e, p1) \<Rightarrow> p1
       | (Inr _, p1) \<Rightarrow>
           (case redis_lpush env (queue_key (provider_of t)) (message_of t (provider_of t)) p1 of
              (Inl e, p2) \<Rightarrow> p2
            | (Inr _, p2) \<Rightarrow>
                (case redis_publish env (scheduled_event env t p2) p2 of
                   (Inl e, p3) \<Rightarrow> p3 | (Inr _, p3) \<Rightarrow> snd (op_each (dispatch env) ts p3))))"
    by (auto simp: dispatch_def op_bind_def Let_def provider_of_def scheduled_event_def
        split: prod.split sum.split)
  show ?case
    unfolding d
    by (auto simp: returns_or_idle Cons.IH split: prod.split sum.split)
qed

lemma work_returns_done:
  "returns (work_step env) W_Idle (W_Finish m res) p q \<longleftrightarrow> q = snd (on_task_done env m res p)"
  by (auto simp: returns_or_idle returns_idle on_task_done_def op_bind_def split: prod.split sum.split)

lemma work_returns_error:
  "returns (work_step env) W_Idle (W_Look m err) p q \<longleftrightarrow> q = snd (on_task_error env m err p)"
  by (auto simp: returns_or_idle returns_idle after_look_def on_task_error_def op_bind_def Let_def
      split: prod.split sum.split option.split)

lemma work_returns_message:
  "returns (work_step env) W_Idle (W_Start m) p q \<longleftrightarrow> q = snd (consume_message env m p)"
  by (auto simp: returns_or_idle returns_idle after_execution_def consume_message_def op_bind_def
      work_returns_done work_returns_error
      split: prod.split sum.split option.split)

text \<open>One round: the first step, and then on until the process is back.\<close>

definition round_alone :: "('c \<Rightarrow> 's \<Rightarrow> 'c \<times> 's) \<Rightarrow> 'c \<Rightarrow> 's \<Rightarrow> 's \<Rightarrow> bool" where
  "round_alone f idle p q \<longleftrightarrow> returns f idle (fst (f idle p)) (snd (f idle p)) q"

text \<open>
  A round of the scheduler or of the worker that nobody interrupts always comes to its end,
  and its steps together are exactly the round \<open>poll_round\<close> or \<open>consume_round\<close>, whatever raises
  on the way.
\<close>

theorem undisturbed_rounds:
  "(round_alone (sched_step env) S_Idle p q \<longleftrightarrow> q = poll_round env p) \<and>
   (round_alone (work_step env) W_Idle p q \<longleftrightarrow> q = consume_round env p)"
proof
  show "round_alone (sched_step env) S_Idle p q \<longleftrightarrow> q = poll_round env p"
    by (cases "get_pending env 10 p")
      (auto simp: round_alone_def poll_round_def op_bind_def or_idle_def returns_idle sched_returns_tasks
        split: sum.split)
  show "round_alone (work_step env) W_Idle p q \<longleftrightarrow> q = consume_round env p"
    by (cases "redis_blpop env task_queue p")
      (auto simp: round_alone_def consume_round_def op_bind_def or_idle_def returns_idle work_returns_message
        op_return_def split: sum.split option.split)
qed

section \<open>A deployment\<close>

text \<open>
  Schedulers and workers over one database and one Redis. A step of a deployment: a task is
  created, a process makes its next step, is cancelled where it waits, or is started again. Every
  step has its own environment.
\<close>

datatype proc = Sched sched | Worker consumer

definition proc_step :: "pipe_env \<Rightarrow> proc \<Rightarrow> pipeline \<Rightarrow> proc \<times> pipeline" where
  "proc_step env c p =
     (case c of Sched s \<Rightarrow> map_prod Sched id (sched_step env s p)
      | Worker w \<Rightarrow> map_prod Worker id (work_step env w p))"

fun cancelled :: "proc \<Rightarrow> proc" where
  "cancelled (Sched s) = Sched S_Stopped"
| "cancelled (Worker w) = Worker W_Stopped"

fun started :: "proc \<Rightarrow> proc" where
  "started (Sched s) = Sched (if s = S_Stopped then S_Idle else s)"
| "started (Worker w) = Worker (if w = W_Stopped then W_Idle else w)"

datatype sys_event = New pipe_env Task | Act pipe_env nat | Cancel nat | Start nat

fun sys_do :: "proc list \<times> pipeline \<Rightarrow> sys_event \<Rightarrow> proc list \<times> pipeline" where
  "sys_do (cs, p) (New env t) = (cs, snd (repo_create env t p))"
| "sys_do (cs, p) (Act env i) =
     (if i < length cs then case proc_step env (cs ! i) p of (c, p') \<Rightarrow> (cs[i := c], p') else (cs, p))"
| "sys_do (cs, p) (Cancel i) = (if i < length cs then cs[i := cancelled (cs ! i)] else cs, p)"
| "sys_do (cs, p) (Start i) = (if i < length cs then cs[i := started (cs ! i)] else cs, p)"

definition deployment :: "nat \<Rightarrow> nat \<Rightarrow> proc list \<times> pipeline" where
  "deployment m n = (replicate m (Sched S_Idle) @ replicate n (Worker W_Idle), empty_pipeline)"

section \<open>Who holds a task\<close>

text \<open>
  A process holds a task between taking it - marking it, popping it - and giving it back. While it
  does, the task is in no queue and not pending, so nobody else can take it.
\<close>

fun work_id :: "consumer \<Rightarrow> string option" where
  "work_id W_Idle = None"
| "work_id (W_Start m) = Some (msg_id m)"
| "work_id (W_Execute m) = Some (msg_id m)"
| "work_id (W_Look m err) = Some (msg_id m)"
| "work_id (W_Retry m err att) = Some (msg_id m)"
| "work_id (W_Requeue m) = Some (msg_id m)"
| "work_id (W_GiveUp m err att) = Some (msg_id m)"
| "work_id (W_SayFailed m err) = Some (msg_id m)"
| "work_id (W_Finish m res) = Some (msg_id m)"
| "work_id (W_SayDone m res) = Some (msg_id m)"
| "work_id W_Stopped = None"

fun holds :: "proc \<Rightarrow> string option" where
  "holds (Sched (S_Push t ts)) = Some (task_id t)"
| "holds (Sched _) = None"
| "holds (Worker w) = work_id w"

text \<open>The pending tasks a scheduler has read and not yet marked.\<close>

fun to_mark :: "proc \<Rightarrow> Task list" where
  "to_mark (Sched (S_Mark t ts)) = t # ts"
| "to_mark (Sched (S_Push t ts)) = ts"
| "to_mark (Sched (S_Publish t ts)) = ts"
| "to_mark _ = []"

fun held_status :: "proc \<Rightarrow> TaskStatus set" where
  "held_status (Sched (S_Push t ts)) = {SCHEDULED}"
| "held_status (Worker (W_Start m)) = {SCHEDULED, RETRYING}"
| "held_status (Worker (W_Requeue m)) = {RETRYING}"
| "held_status (Worker (W_SayFailed m err)) = {TASK_FAILED}"
| "held_status (Worker (W_SayDone m res)) = {COMPLETED}"
| "held_status _ = {RUNNING}"

text \<open>The changes of status the life of a task is made of.\<close>

inductive task_move :: "TaskStatus \<Rightarrow> TaskStatus \<Rightarrow> bool" where
  "task_move PENDING SCHEDULED"
| "task_move SCHEDULED RUNNING"
| "task_move RUNNING COMPLETED"
| "task_move RUNNING TASK_FAILED"
| "task_move RUNNING RETRYING"
| "task_move RETRYING RUNNING"

inductive_simps task_move_from [simp]:
  "task_move PENDING st" "task_move SCHEDULED st" "task_move RUNNING st" "task_move COMPLETED st"
  "task_move TASK_FAILED st" "task_move RETRYING st"

definition moves_ok :: "string \<Rightarrow> pipeline \<Rightarrow> pipeline \<Rightarrow> bool" where
  "moves_ok x p q \<longleftrightarrow>
     (\<forall>st. row_has_status p x {st} \<longrightarrow> (\<exists>st'. row_has_status q x {st'} \<and> (st' = st \<or> task_move st st')))"

definition proc_ok :: "pipeline \<Rightarrow> proc \<Rightarrow> bool" where
  "proc_ok p c \<longleftrightarrow>
     (\<forall>x. holds c = Some x \<longrightarrow> \<not> queued p x \<and> row_has_status p x (held_status c)) \<and>
     distinct (map task_id (to_mark c)) \<and>
     (\<forall>t \<in> set (to_mark c). row_has_status p (task_id t) {PENDING})"

lemma row_has_status_mono: "row_has_status p i A \<Longrightarrow> A \<subseteq> B \<Longrightarrow> row_has_status p i B"
  unfolding row_has_status_def by blast

lemma task_status_value_inj [simp]: "task_status_value s = task_status_value t \<longleftrightarrow> s = t"
  by (cases s; cases t) simp_all

lemma row_has_status_disjoint: "row_has_status p i A \<Longrightarrow> row_has_status p i B \<Longrightarrow> A \<inter> B \<noteq> {}"
  unfolding row_has_status_def by auto

lemma row_set_status:
  "row_set i st p q \<Longrightarrow> row_has_status p i A \<Longrightarrow> row_has_status q i {st}"
  unfolding row_set_def row_has_status_def by blast

lemma same_at_status: "same_at i p q \<Longrightarrow> row_has_status q i A = row_has_status p i A"
  by (simp add: same_at_def row_has_status_def)

lemma same_core_status: "same_core p q \<Longrightarrow> row_has_status q i A = row_has_status p i A"
  by (simp add: same_core_def row_has_status_def)

lemma same_at_moves: "same_at x p q \<Longrightarrow> moves_ok x p q"
  using same_at_status by (auto simp: moves_ok_def)

lemma row_set_moves:
  assumes "row_set i st p q" "row_has_status p i A" "\<forall>st0 \<in> A. task_move st0 st"
  shows "moves_ok i p q"
proof -
  have "row_has_status q i {st}" by (rule row_set_status [OF assms(1,2)])
  moreover have "st0 \<in> A" if "row_has_status p i {st0}" for st0
    using that assms(2) by (auto simp: row_has_status_def)
  ultimately show ?thesis using assms(3) by (auto simp: moves_ok_def)
qed

lemma proc_ok_frame:
  assumes "\<And>x. holds c = Some x \<or> x \<in> task_id ` set (to_mark c) \<Longrightarrow> same_at x p q"
  shows "proc_ok q c = proc_ok p c"
proof -
  have "queued q x = queued p x \<and> row_has_status q x A = row_has_status p x A" if "holds c = Some x" for x A
    using assms [of x] that same_at_status [of x p q A] by (simp add: same_at_def)
  moreover have "row_has_status q (task_id t) A = row_has_status p (task_id t) A" if "t \<in> set (to_mark c)" for t A
    using that by (intro same_at_status assms) simp
  ultimately show ?thesis unfolding proc_ok_def by simp
qed

lemma same_core_ok: "same_core p q \<Longrightarrow> proc_ok q c = proc_ok p c"
  by (rule proc_ok_frame) (rule same_core_at)

section \<open>What one step may do\<close>

text \<open>
  From \<open>c\<close> and \<open>p\<close> to \<open>d\<close> and \<open>q\<close>: only the tasks the process holds before or after are touched,
  their status moves as it should, and one held newly was queued or - by the scheduler - pending.
\<close>

fun is_sched :: "proc \<Rightarrow> bool" where
  "is_sched (Sched s) \<longleftrightarrow> True"
| "is_sched (Worker w) \<longleftrightarrow> False"

definition good_step :: "proc \<Rightarrow> pipeline \<Rightarrow> proc \<Rightarrow> pipeline \<Rightarrow> bool" where
  "good_step c p d q \<longleftrightarrow>
     pipeline_wf q \<and> proc_ok q d \<and>
     (\<forall>x. holds c \<noteq> Some x \<longrightarrow> holds d \<noteq> Some x \<longrightarrow> same_at x p q) \<and> (\<forall>x. moves_ok x p q) \<and>
     (\<forall>x. holds d = Some x \<longrightarrow> holds c \<noteq> Some x \<longrightarrow>
        queued p x \<or> is_sched c \<and> row_has_status p x {PENDING})"

text \<open>Nothing happened, and the process gave up what it was doing or went on holding the same.\<close>

lemma good_step_core:
  assumes "pipeline_wf p" "proc_ok p c" "same_core p q"
    and "holds d = None \<or> holds d = holds c \<and> held_status c \<subseteq> held_status d"
    and "to_mark d = [] \<or> to_mark d = to_mark c"
  shows "good_step c p d q"
proof -
  have "\<not> queued p x \<and> row_has_status p x (held_status d)" if "holds d = Some x" for x
    using assms(2,4) that row_has_status_mono [of p x "held_status c" "held_status d"]
    by (auto simp: proc_ok_def)
  then have "proc_ok p d" using assms(2,5) by (auto simp: proc_ok_def)
  then have "proc_ok q d" using same_core_ok assms(3) by blast
  moreover have "pipeline_wf q" using same_core_wf assms(1,3) by blast
  ultimately show ?thesis
    using assms(3,4) by (auto simp: good_step_def intro: same_core_at same_at_moves)
qed

text \<open>The process sets the status of the row it holds.\<close>

lemma good_step_update:
  assumes "pipeline_wf p" "proc_ok p c" "holds c = Some x" "row_set x st p q"
    and "\<forall>st0 \<in> held_status c. task_move st0 st" "holds d = Some x" "st \<in> held_status d" "to_mark d = []"
  shows "good_step c p d q"
proof -
  from assms(2,3) have x: "\<not> queued p x" "row_has_status p x (held_status c)" by (simp_all add: proc_ok_def)
  have "row_has_status q x (held_status d)"
    using row_set_status [OF assms(4) x(2)] assms(7) by (auto intro: row_has_status_mono)
  with x(1) have "proc_ok q d" using assms(6,8) row_set_queued [OF assms(4)] by (simp add: proc_ok_def)
  moreover have "moves_ok y p q" for y
    using row_set_moves [OF assms(4) x(2) assms(5)] row_set_at [OF assms(4)] same_at_moves by (cases "y = x") auto
  ultimately show ?thesis
    using row_set_wf [OF assms(4,1) x(1)] assms(3,6) row_set_at [OF assms(4)] by (auto simp: good_step_def)
qed

text \<open>The process pushes the message of the task it holds, and lets go of it.\<close>

lemma good_step_push:
  assumes "pipeline_wf p" "proc_ok p c" "holds c = Some (msg_id m)" "held_status c \<subseteq> {SCHEDULED, RETRYING}"
    and "holds d = None" "to_mark d = [] \<or> to_mark d = to_mark c"
  shows "good_step c p d (snd (redis_lpush env k m p))"
proof -
  let ?q = "snd (redis_lpush env k m p)"
  from assms(2,3) have x: "\<not> queued p (msg_id m)" "row_has_status p (msg_id m) (held_status c)"
    by (simp_all add: proc_ok_def)
  have wf: "pipeline_wf ?q"
    by (rule lpush_wf [OF assms(1) x(1) row_has_status_mono [OF x(2) assms(4)]])
  have "row_has_status ?q i A = row_has_status p i A" for i A
    using redis_lpush_state [of env k m p] by (simp add: row_has_status_def)
  then have "proc_ok ?q d" "moves_ok y p ?q" for y
    using assms(2,5,6) by (auto simp: proc_ok_def moves_ok_def)
  with wf assms(3,5) lpush_at show ?thesis by (auto simp: good_step_def)
qed

lemma or_idle_cases:
  assumes "or_idle idle f r = (c, p)"
  obtains (raised) e where "fst r = Inl e" "c = idle" "p = snd r"
  | (value_) x where "fst r = Inr x" "c = f x" "p = snd r"
  using assms by (cases r; cases "fst r") (auto simp: or_idle_def)

text \<open>The worker pops a message.\<close>

lemma blpop_cases:
  obtains (nothing) r where "redis_blpop env k p = (r, p\<lparr>pl_moment := pl_moment p + 1\<rparr>)"
      "r = Inr None \<or> (\<exists>e. r = Inl e)"
  | (popped) m ms where "queue p k = m # ms"
      "redis_blpop env k p =
         (Inr (Some m), p\<lparr>pl_moment := pl_moment p + 1, queues := dict_set k ms (queues p)\<rparr>)"
  by (cases "faulty env (pl_moment p)"; cases "queue p k")
    (auto simp: redis_blpop_def interact_def Let_def)

lemma good_step_pop:
  assumes "pipeline_wf p" "work_step env W_Idle p = (w, q)"
  shows "good_step (Worker W_Idle) p (Worker w) q"
proof (cases rule: blpop_cases [of env task_queue p])
  case (nothing r)
  with assms(2) have "w = W_Idle" "q = p\<lparr>pl_moment := pl_moment p + 1\<rparr>" by (auto simp: or_idle_def)
  with assms(1) show ?thesis by (auto intro!: good_step_core simp: proc_ok_def)
next
  case (popped m ms)
  let ?q = "p\<lparr>pl_moment := pl_moment p + 1, queues := dict_set task_queue ms (queues p)\<rparr>"
  from popped assms(2) have w: "w = W_Start m" "q = ?q" by (auto simp: or_idle_def)
  have u: "unqueued (msg_id m) q" unfolding w(2) by (rule pop_unqueued [OF assms(1) popped(1)])
  have was: "queued p (msg_id m)" using popped(1) by (auto simp: queued_def intro!: exI [of _ task_queue])
  with assms(1) have "row_has_status p (msg_id m) {SCHEDULED, RETRYING}" by (simp add: pipeline_wf_def)
  moreover have rows: "row_has_status q x A = row_has_status p x A" for x A
    unfolding w(2) row_has_status_def by simp
  ultimately have "row_has_status q (msg_id m) {SCHEDULED, RETRYING}" by simp
  with u have "proc_ok q (Worker w)" by (simp add: w(1) proc_ok_def unqueued_def)
  moreover have "same_at x p q" if "x \<noteq> msg_id m" for x
  proof -
    have "x \<in> msg_id ` set (queue q k) \<longleftrightarrow> x \<in> msg_id ` set (queue p k)" for k
      using popped(1) that by (auto simp: w(2) queue_def)
    then have "queued q x = queued p x" by (simp add: queued_def)
    then show ?thesis by (simp add: same_at_def w(2))
  qed
  moreover have "moves_ok x p q" for x by (auto simp: moves_ok_def rows)
  ultimately show ?thesis using u was by (auto simp: good_step_def w(1) unqueued_def)
qed

text \<open>The worker executes.\<close>

lemma good_step_execute:
  assumes "pipeline_wf p" "proc_ok p (Worker (W_Execute m))" "q = snd (execute_op m p)"
    and "w = W_Idle \<or> work_id w = Some (msg_id m) \<and> held_status (Worker w) = {RUNNING}"
  shows "good_step (Worker (W_Execute m)) p (Worker w) q"
proof -
  have "pipeline_wf q" "queued q x = queued p x" "row_has_status q x A = row_has_status p x A" for x A
    using assms(1,3) by (simp_all add: execute_op_def pipeline_wf_def queued_def row_has_status_def)
  moreover from this have "proc_ok q (Worker w)"
    using assms(2,4) by (auto simp: proc_ok_def)
  moreover have "same_at x p q" if "x \<noteq> msg_id m" for x
    using that assms(3) by (simp add: same_at_def execute_op_def queued_def)
  ultimately show ?thesis using assms(4) by (auto simp: good_step_def moves_ok_def)
qed

lemma good_step_status:
  assumes "or_idle W_Idle f (update_status env x st res err att p) = (w, q)"
    and "pipeline_wf p" "proc_ok p c" "holds c = Some x" "\<forall>st0 \<in> held_status c. task_move st0 st"
    and "holds (Worker (f ())) = Some x" "st \<in> held_status (Worker (f ()))"
  shows "good_step c p (Worker w) q"
proof (cases rule: update_status_cases [of env x st res err att p])
  case (raised e)
  with assms(1) have "w = W_Idle" "same_core p q" by (auto simp: or_idle_def split: prod.splits)
  with assms(2,3) show ?thesis by (auto intro: good_step_core)
next
  case updated
  with assms(1) have w: "w = f ()" "row_set x st p q" by (auto simp: or_idle_def split: prod.splits)
  show ?thesis
    by (rule good_step_update [OF assms(2,3,4) w(2) assms(5)]) (use assms(6,7) w(1) in simp_all)
qed

lemma or_idle_keeps:
  assumes "or_idle W_Idle f r = (w, q)" "same_core p (snd r)" "pipeline_wf p" "proc_ok p c"
    and "\<And>x. fst r = Inr x \<Longrightarrow> holds (Worker (f x)) = None \<or>
          holds (Worker (f x)) = holds c \<and> held_status c \<subseteq> held_status (Worker (f x))"
  shows "good_step c p (Worker w) q"
  using assms(1)
proof (cases rule: or_idle_cases)
  case (raised e)
  with assms(2-4) show ?thesis by (auto intro: good_step_core)
next
  case (value_ x)
  with assms(2-5) show ?thesis by (auto intro: good_step_core)
qed

lemma work_good:
  assumes "work_step env w p = (w', q)" "pipeline_wf p" "proc_ok p (Worker w)"
  shows "good_step (Worker w) p (Worker w') q"
proof (cases w)
  case W_Idle
  with assms(1,2) show ?thesis using good_step_pop by blast
next
  case (W_Start m)
  with assms show ?thesis by (intro good_step_status [OF _ assms(2,3)]) auto
next
  case (W_Execute m)
  from assms(1) have w': "or_idle W_Idle (after_execution m) (execute_op m p) = (w', q)"
    by (simp add: W_Execute)
  have held: "work_id (after_execution m r) = Some (msg_id m) \<and>
      held_status (Worker (after_execution m r)) = {RUNNING}" for r
    by (auto simp: after_execution_def split: prod.split option.split)
  from w' have "w' = W_Idle \<or> work_id w' = Some (msg_id m) \<and> held_status (Worker w') = {RUNNING}"
    by (cases rule: or_idle_cases) (auto simp: held)
  moreover from w' have "q = snd (execute_op m p)" by (cases rule: or_idle_cases) auto
  ultimately show ?thesis using assms(2,3) unfolding W_Execute by (intro good_step_execute)
next
  case (W_Look m err)
  from assms(1) have w': "or_idle W_Idle (after_look m err) (repo_get env (msg_id m) p) = (w', q)"
    by (simp add: W_Look)
  show ?thesis
    by (rule or_idle_keeps [OF w' repo_get_core assms(2,3)]) (simp add: W_Look after_look_def Let_def)
next
  case (W_Retry m err att)
  with assms show ?thesis by (intro good_step_status [OF _ assms(2,3)]) auto
next
  case (W_Requeue m)
  from assms(1) have "w' = W_Idle" "q = snd (redis_lpush env task_queue m p)"
    by (auto simp: W_Requeue or_idle_def split: prod.splits sum.splits)
  with assms(2,3) show ?thesis by (auto simp: W_Requeue intro: good_step_push)
next
  case (W_GiveUp m err att)
  with assms show ?thesis by (intro good_step_status [OF _ assms(2,3)]) auto
next
  case (W_SayFailed m err)
  from or_idle_keeps [OF _ publish_event_core assms(2,3)] assms(1) show ?thesis by (simp add: W_SayFailed)
next
  case (W_Finish m res)
  with assms show ?thesis by (intro good_step_status [OF _ assms(2,3)]) auto
next
  case (W_SayDone m res)
  from or_idle_keeps [OF _ publish_event_core assms(2,3)] assms(1) show ?thesis by (simp add: W_SayDone)
next
  case W_Stopped
  with assms show ?thesis by (auto intro: good_step_core)
qed

section \<open>A scheduler's step\<close>

lemma sched_read:
  assumes "sched_step env S_Idle p = (s, q)" "pipeline_wf p"
  shows "good_step (Sched S_Idle) p (Sched s) q"
proof -
  obtain r where r: "get_pending env 10 p = (r, q)"
    using assms(1) by (cases "get_pending env 10 p") (auto simp: or_idle_def split: sum.splits)
  from get_pending_result [OF r] have q: "q = p\<lparr>pl_moment := pl_moment p + 1\<rparr>"
    and ts: "\<And>ts. r = Inr ts \<Longrightarrow> rows_to_tasks env (pending_rows 10 p) = Inr ts" by auto
  have core: "same_core p q" by (simp add: q)
  have "holds (Sched (next_task ts)) = None" for ts by (cases ts) simp_all
  with assms(1) r have none: "holds (Sched s) = None" by (auto simp: or_idle_def split: sum.splits)
  have "distinct (map task_id (to_mark (Sched s))) \<and>
      (\<forall>t \<in> set (to_mark (Sched s)). row_has_status p (task_id t) {PENDING})"
  proof (cases r)
    case (Inl e)
    with assms(1) r show ?thesis by (simp add: or_idle_def)
  next
    case (Inr ts)
    note ids = rows_to_tasks_ids [OF ts [OF Inr]]
    have "to_mark (Sched (next_task ts)) = ts" by (cases ts) simp_all
    with assms(1) r Inr have tm: "to_mark (Sched s) = ts" by (auto simp: or_idle_def)
    have "row_has_status p (task_id t) {PENDING}" if t: "t \<in> set ts" for t
    proof -
      from t ids obtain row where row: "row \<in> set (pending_rows 10 p)" "task_id t = row_id row"
        by (metis (no_types, lifting) image_iff list.set_map)
      from pending_row_get [OF assms(2) row(1)] row(2) show ?thesis by (simp add: row_has_status_def)
    qed
    with ids pending_ids_distinct [OF assms(2)] show ?thesis by (simp add: tm)
  qed
  with none core have "proc_ok q (Sched s)" by (simp add: proc_ok_def same_core_status)
  with none core assms(2) same_core_wf [OF core] show ?thesis
    by (auto simp: good_step_def intro: same_core_at same_at_moves)
qed

lemma sched_mark:
  assumes "sched_step env (S_Mark t ts) p = (s, q)" "pipeline_wf p" "proc_ok p (Sched (S_Mark t ts))"
  shows "good_step (Sched (S_Mark t ts)) p (Sched s) q"
proof -
  have t: "row_has_status p (task_id t) {PENDING}" and ts: "task_id t \<notin> task_id ` set ts"
    using assms(3) by (simp_all add: proc_ok_def)
  show ?thesis
  proof (cases rule: update_status_cases [of env "task_id t" SCHEDULED None None "Some 1" p])
    case (raised e)
    with assms(1) have "s = S_Idle" "same_core p q" by (auto simp: or_idle_def split: prod.splits)
    with assms(2,3) show ?thesis by (auto intro: good_step_core)
  next
    case updated
    with assms(1) have s: "s = S_Push t ts" and set: "row_set (task_id t) SCHEDULED p q"
      by (auto simp: or_idle_def split: prod.splits)
    have nq: "\<not> queued p (task_id t)"
      using t pending_not_queued [OF assms(2)] by (auto simp: row_has_status_def)
    note at = row_set_at [OF set]
    have "row_has_status q (task_id u) {PENDING}" if "u \<in> set ts" for u
    proof -
      from that ts have "task_id u \<noteq> task_id t" by (metis imageI)
      from same_at_status [OF at [OF this]] assms(3) that show ?thesis by (simp add: proc_ok_def)
    qed
    moreover have "\<not> queued q (task_id t)" using nq row_set_queued [OF set] by simp
    ultimately have "proc_ok q (Sched s)"
      using assms(3) row_set_status [OF set t] by (simp add: s proc_ok_def)
    moreover have "moves_ok x p q" for x
      using row_set_moves [OF set t] at same_at_moves by (cases "x = task_id t") auto
    ultimately show ?thesis
      using row_set_wf [OF set assms(2) nq] at t by (auto simp: good_step_def s)
  qed
qed

lemma sched_good:
  assumes "sched_step env s p = (s', q)" "pipeline_wf p" "proc_ok p (Sched s)"
  shows "good_step (Sched s) p (Sched s') q"
proof (cases s)
  case S_Idle
  with assms sched_read show ?thesis by blast
next
  case (S_Mark t ts)
  with assms sched_mark show ?thesis by blast
next
  case (S_Push t ts)
  from assms(1) have "s' = S_Idle \<or> s' = S_Publish t ts"
    "q = snd (redis_lpush env (queue_key (provider_of t)) (message_of t (provider_of t)) p)"
    by (auto simp: S_Push or_idle_def split: prod.splits sum.splits)
  with assms(2,3) show ?thesis by (auto simp: S_Push intro: good_step_push)
next
  case (S_Publish t ts)
  have "holds (Sched (next_task ts)) = None" "to_mark (Sched (next_task ts)) = ts"
    by (cases ts; simp)+
  moreover from assms(1) have "s' = S_Idle \<or> s' = next_task ts"
    "q = snd (redis_publish env (scheduled_event env t p) p)"
    by (auto simp: S_Publish or_idle_def split: prod.splits sum.splits)
  ultimately show ?thesis
    using assms(2,3) by (intro good_step_core) (auto simp: S_Publish)
next
  case S_Stopped
  with assms show ?thesis by (auto intro: good_step_core)
qed

lemma step_good:
  assumes "proc_step env c p = (d, q)" "pipeline_wf p" "proc_ok p c"
  shows "good_step c p d q"
  using assms by (cases c) (auto simp: proc_step_def map_prod_def split: prod.splits intro: work_good sched_good)

section \<open>Every history\<close>

definition apart :: "proc \<Rightarrow> proc \<Rightarrow> bool" where
  "apart c d \<longleftrightarrow> (holds c = None \<or> holds c \<noteq> holds d) \<and> \<not> (is_sched c \<and> is_sched d)"

definition deployment_ok :: "proc list \<times> pipeline \<Rightarrow> bool" where
  "deployment_ok s \<longleftrightarrow>
     (case s of (cs, p) \<Rightarrow>
        pipeline_wf p \<and> (\<forall>c \<in> set cs. proc_ok p c) \<and>
        (\<forall>i < length cs. \<forall>j < length cs. i \<noteq> j \<longrightarrow> apart (cs ! i) (cs ! j)))"

lemma deployment_okI:
  assumes "pipeline_wf p" "\<And>c. c \<in> set cs \<Longrightarrow> proc_ok p c"
    and "\<And>i j. i < length cs \<Longrightarrow> j < length cs \<Longrightarrow> i \<noteq> j \<Longrightarrow> apart (cs ! i) (cs ! j)"
  shows "deployment_ok (cs, p)"
  using assms by (simp add: deployment_ok_def)

lemma is_sched_step: "proc_step env c p = (d, q) \<Longrightarrow> is_sched d = is_sched c"
  by (cases c) (auto simp: proc_step_def map_prod_def split: prod.splits)

lemma held_not_pending: "held_status c \<inter> {PENDING} = {}"
  by (cases c rule: held_status.cases) auto

text \<open>
  The other processes: a task they hold is neither queued nor pending, and the one the only
  scheduler has still to mark is pending, so the step does not concern it.
\<close>

lemma others_ok:
  assumes "good_step c p d q" "pipeline_wf p" "proc_ok p c" "proc_ok p e" "apart c e"
    and "is_sched d = is_sched c"
  shows "proc_ok q e" "apart d e"
proof -
  have held: "holds d \<noteq> Some x" if "holds e = Some x" for x
  proof
    assume d: "holds d = Some x"
    from that assms(5) have "holds c \<noteq> Some x" by (auto simp: apart_def)
    with assms(1) d have "queued p x \<or> row_has_status p x {PENDING}" by (auto simp: good_step_def)
    moreover from that assms(4) have "\<not> queued p x" "row_has_status p x (held_status e)"
      by (simp_all add: proc_ok_def)
    ultimately show False using row_has_status_disjoint held_not_pending by blast
  qed
  then show "apart d e" using assms(5,6) by (cases "holds e") (auto simp: apart_def)
  show "proc_ok q e"
  proof (subst proc_ok_frame [of e p q])
    fix x assume x: "holds e = Some x \<or> x \<in> task_id ` set (to_mark e)"
    have "holds c \<noteq> Some x \<and> holds d \<noteq> Some x"
    proof (cases "holds e = Some x")
      case True
      with held assms(5) show ?thesis by (auto simp: apart_def)
    next
      case False
      with x assms(4) have pend: "row_has_status p x {PENDING}" by (auto simp: proc_ok_def)
      with assms(3) have c: "holds c \<noteq> Some x"
        using row_has_status_disjoint held_not_pending by (fastforce simp: proc_ok_def)
      from x False have "is_sched e" by (cases e rule: to_mark.cases) auto
      with assms(5,6) have "\<not> is_sched d" by (simp add: apart_def)
      have "holds d \<noteq> Some x"
      proof
        assume "holds d = Some x"
        with assms(1,6) c \<open>\<not> is_sched d\<close> have "queued p x" by (auto simp: good_step_def)
        with pend pending_not_queued [OF assms(2)] show False by (auto simp: row_has_status_def)
      qed
      with c show ?thesis by simp
    qed
    with assms(1) show "same_at x p q" by (simp add: good_step_def)
  qed (rule assms(4))
qed

lemma act_ok:
  assumes "deployment_ok (cs, p)" "i < length cs" "proc_step env (cs ! i) p = (d, q)"
  shows "deployment_ok (cs[i := d], q)"
proof -
  from assms(1) have wf: "pipeline_wf p" and ok: "\<And>c. c \<in> set cs \<Longrightarrow> proc_ok p c"
    and ap: "\<And>i j. i < length cs \<Longrightarrow> j < length cs \<Longrightarrow> i \<noteq> j \<Longrightarrow> apart (cs ! i) (cs ! j)"
    by (auto simp: deployment_ok_def)
  note step = step_good [OF assms(3) wf ok [OF nth_mem [OF assms(2)]]]
  note others = others_ok [OF step wf ok [OF nth_mem [OF assms(2)]] ok [OF nth_mem] ap [OF assms(2)]
      is_sched_step [OF assms(3)]]
  have sym: "apart c e = apart e c" for c e by (auto simp: apart_def)
  show ?thesis
  proof (rule deployment_okI)
    show "pipeline_wf q" using step by (simp add: good_step_def)
    show "proc_ok q c" if "c \<in> set (cs[i := d])" for c
    proof -
      from that obtain j where j: "j < length cs" "c = cs[i := d] ! j" by (auto simp: in_set_conv_nth)
      then show ?thesis using others(1) [of j] step assms(2) by (cases "j = i") (auto simp: good_step_def)
    qed
    show "apart (cs[i := d] ! j) (cs[i := d] ! k)"
      if "j < length (cs[i := d])" "k < length (cs[i := d])" "j \<noteq> k" for j k
      using that others(2) [of j] others(2) [of k] ap [of j k] sym
      by (cases "j = i"; cases "k = i") auto
  qed
qed

text \<open>A process changed into one that holds and marks nothing.\<close>

lemma idle_ok:
  assumes "deployment_ok (cs, p)" "i < length cs" "is_sched d = is_sched (cs ! i)"
    and "d = cs ! i \<or> holds d = None \<and> to_mark d = []"
  shows "deployment_ok (cs[i := d], p)"
proof (cases "d = cs ! i")
  case True
  with assms(1) show ?thesis by simp
next
  case False
  with assms(4) have none: "holds d = None" "to_mark d = []" by auto
  have "proc_ok p c" if "c \<in> set (cs[i := d])" for c
  proof -
    from that set_update_subset_insert [of cs i d] have "c = d \<or> c \<in> set cs" by blast
    moreover have "proc_ok p d" by (simp add: proc_ok_def none)
    moreover have "\<forall>c \<in> set cs. proc_ok p c" using assms(1) by (simp add: deployment_ok_def)
    ultimately show ?thesis by blast
  qed
  moreover have "apart (cs[i := d] ! j) (cs[i := d] ! k)"
    if "j < length (cs[i := d])" "k < length (cs[i := d])" "j \<noteq> k" for j k
  proof -
    have ap: "apart (cs ! j) (cs ! k)" using that assms(1) by (simp add: deployment_ok_def)
    show ?thesis
      using ap that(3) assms(2,3) none by (cases "j = i"; cases "k = i"; cases "holds (cs ! j)") (simp_all add: apart_def)
  qed
  moreover have "pipeline_wf p" using assms(1) by (simp add: deployment_ok_def)
  ultimately show ?thesis by (intro deployment_okI)
qed

lemma cancelled_idle [simp]:
  "holds (cancelled c) = None" "to_mark (cancelled c) = []" "is_sched (cancelled c) = is_sched c"
  by (cases c; simp)+

lemma started_idle: "started c = c \<or> holds (started c) = None \<and> to_mark (started c) = []"
  "is_sched (started c) = is_sched c"
  by (cases c; simp)+

lemma create_at: "row_has_status p i A \<Longrightarrow> same_at i p (snd (repo_create env t p))"
proof (cases rule: repo_create_cases [of p env t])
  case kept
  then show ?thesis by (rule same_core_at)
next
  case (added r)
  assume "row_has_status p i A"
  with added show ?thesis by (auto simp: same_at_def queued_def queue_def row_has_status_def)
qed

lemma create_ok:
  assumes "deployment_ok (cs, p)"
  shows "deployment_ok (cs, snd (repo_create env t p))"
proof (rule deployment_okI)
  show "pipeline_wf (snd (repo_create env t p))"
    using assms by (intro repo_create_wf) (simp add: deployment_ok_def)
  show "proc_ok (snd (repo_create env t p)) c" if "c \<in> set cs" for c
  proof -
    from that assms have ok: "proc_ok p c" by (simp add: deployment_ok_def)
    have "proc_ok (snd (repo_create env t p)) c = proc_ok p c"
      by (rule proc_ok_frame) (use ok in \<open>auto simp: proc_ok_def intro: create_at\<close>)
    with ok show ?thesis by simp
  qed
  show "apart (cs ! i) (cs ! j)" if "i < length cs" "j < length cs" "i \<noteq> j" for i j
    using assms that by (simp add: deployment_ok_def)
qed

interpretation dp: invariant_system sys_do deployment_ok
proof unfold_locales
  fix s e
  assume s: "deployment_ok s"
  obtain cs p where cs: "s = (cs, p)" by (cases s)
  show "deployment_ok (sys_do s e)"
  proof (cases e)
    case (New env t)
    with s cs create_ok show ?thesis by simp
  next
    case (Act env i)
    with s cs act_ok [of cs p i env] show ?thesis by (auto split: prod.split)
  next
    case (Cancel i)
    with s cs idle_ok [of cs p i "cancelled (cs ! i)"] show ?thesis by auto
  next
    case (Start i)
    with s cs idle_ok [of cs p i "started (cs ! i)"] started_idle [of "cs ! i"] show ?thesis by auto
  qed
qed

lemma deployment_one_ok: "deployment_ok (deployment 1 n)"
proof -
  have "pipeline_wf empty_pipeline" by (rule empty_pipeline_wf)
  moreover have "proc_ok empty_pipeline c" if "c = Sched S_Idle \<or> c = Worker W_Idle" for c
    using that by (auto simp: proc_ok_def)
  ultimately show ?thesis
    unfolding deployment_def
    by (intro deployment_okI) (auto simp: apart_def nth_Cons split: nat.split)
qed

text \<open>
  C12: One scheduler and any number of workers. Whatever the interleaving of their steps, whatever
  raises, and whichever processes are cancelled and started again, no two processes ever hold the
  same task, and a task a process holds is in no queue: a task has one owner at a time.
\<close>

theorem one_owner_per_task:
  assumes "run sys_do (deployment 1 n) es = (cs, p)"
    and "i < length cs" "holds (cs ! i) = Some x"
  shows "(\<forall>j < length cs. holds (cs ! j) = Some x \<longrightarrow> j = i) \<and> (\<forall>k. x \<notin> msg_id ` set (queue p k))"
proof -
  have ok: "deployment_ok (cs, p)" using dp.run_inv [OF deployment_one_ok, of n es] assms(1) by simp
  then have "proc_ok p (cs ! i)" using assms(2) by (auto simp: deployment_ok_def)
  with assms(3) have "\<not> queued p x" by (simp add: proc_ok_def)
  moreover have "j = i" if "j < length cs" "holds (cs ! j) = Some x" for j
  proof (rule ccontr)
    assume "j \<noteq> i"
    with ok that assms(2) have "apart (cs ! j) (cs ! i)" by (simp add: deployment_ok_def)
    with that assms(3) show False by (simp add: apart_def)
  qed
  ultimately show ?thesis by (simp add: queued_def)
qed

text \<open>A worker has popped the only task, and has not marked it yet.\<close>

definition job_history :: "sys_event list" where
  "job_history =
     (let env = sample_pipe_env (\<lambda>_. False) declared_columns in
      [New env (sample_job ''echo'')] @ replicate 4 (Act env 0) @ [Act env 1])"

lemma job_popped:
  "\<exists>cs p. run sys_do (deployment 1 1) job_history = (cs, p) \<and> length cs = 2 \<and>
     holds (cs ! 1) = Some ''job'' \<and> executions p = [] \<and>
     (\<exists>r. dict_get (table p) ''job'' = Some r \<and> row_status r = ''SCHEDULED'')"
  by (simp add: job_history_def deployment_def proc_step_def map_prod_def or_idle_def numeral_eq_Suc
      next_task_def provider_of_def scheduled_event_def pipeline_eval)

theorem one_owner_per_task_witness:
  "\<exists>cs p. run sys_do (deployment 1 1) job_history = (cs, p) \<and> holds (cs ! 1) = Some ''job'' \<and>
     holds (cs ! 0) \<noteq> Some ''job''"
proof -
  from job_popped obtain cs p where s: "run sys_do (deployment 1 1) job_history = (cs, p)"
    "length cs = 2" "holds (cs ! 1) = Some ''job''" by blast
  with one_owner_per_task [OF s(1), of 1 "''job''"] have "holds (cs ! 0) \<noteq> Some ''job''"
    by (metis one_less_numeral_iff pos2 semiring_norm(76) zero_neq_one)
  with s show ?thesis by blast
qed

end
