(* ===== verification/Lifecycle.thy ===== *)
theory Lifecycle
  imports Processes
begin

text \<open>
  The life of a task in a deployment of interleaving processes: its status moves along a state
  machine, and the deployment refines an abstract life of five phases, as long as there is one
  scheduler. What a process held when it was cancelled is lost; and with two schedulers a task is
  executed twice.
\<close>

section \<open>The life of a task\<close>





text \<open>
  The abstract view of a task: not stored, waiting for the scheduler, in a queue, held by a
  process, or released - neither pending nor queued nor held by anyone.
\<close>

datatype phase = Absent | Waiting | Queued | Held | Released

definition phase :: "string \<Rightarrow> proc list \<times> pipeline \<Rightarrow> phase" where
  "phase x s =
     (case dict_get (table (snd s)) x of
        None \<Rightarrow> Absent
      | Some r \<Rightarrow>
          if row_status r = ''PENDING'' then Waiting
          else if queued (snd s) x then Queued
          else if \<exists>c \<in> set (fst s). holds c = Some x then Held else Released)"

inductive phase_move :: "phase \<Rightarrow> phase \<Rightarrow> bool" where
  stored: "phase_move Absent Waiting"
| stored_done: "phase_move Absent Released"
| marked: "phase_move Waiting Held"
| pushed: "phase_move Held Queued"
| popped: "phase_move Queued Held"
| let_go: "phase_move Held Released"

lemma phase_cong:
  assumes "dict_get (table q) x = dict_get (table p) x" "queued q x = queued p x"
    and "(\<exists>c \<in> set cs'. holds c = Some x) = (\<exists>c \<in> set cs. holds c = Some x)"
  shows "phase x (cs', q) = phase x (cs, p)"
  using assms by (simp add: phase_def split: option.split)

lemma status_PENDING: "task_status_value st = ''PENDING'' \<longleftrightarrow> st = PENDING"
  by (cases st) simp_all

lemma phase_Held:
  "\<not> queued p x \<Longrightarrow> row_has_status p x A \<Longrightarrow> PENDING \<notin> A \<Longrightarrow> c \<in> set cs \<Longrightarrow> holds c = Some x \<Longrightarrow>
     phase x (cs, p) = Held"
proof -
  assume p: "\<not> queued p x" "row_has_status p x A" "PENDING \<notin> A" "c \<in> set cs" "holds c = Some x"
  from p(2) obtain r st where r: "dict_get (table p) x = Some r" "st \<in> A" "row_status r = task_status_value st"
    by (auto simp: row_has_status_def)
  with p(3) have "row_status r \<noteq> ''PENDING''" using status_PENDING [of st] by auto
  with r(1) p show ?thesis by (auto simp: phase_def)
qed

lemma held_not_PENDING: "PENDING \<notin> held_status c"
  using held_not_pending by blast

lemma ok_phase_Held:
  "proc_ok p c \<Longrightarrow> holds c = Some x \<Longrightarrow> c \<in> set cs \<Longrightarrow> phase x (cs, p) = Held"
  by (rule phase_Held [of _ _ "held_status c"]) (auto simp: proc_ok_def held_not_PENDING)

lemma phase_let_go:
  assumes "row_has_status p x A" "PENDING \<notin> A"
  shows "phase x (cs, p) \<in> {Queued, Held, Released}"
proof -
  from assms obtain r st where "dict_get (table p) x = Some r" "row_status r = task_status_value st" "st \<noteq> PENDING"
    by (auto simp: row_has_status_def)
  then show ?thesis by (simp add: phase_def status_PENDING)
qed

lemma held_moves: "ph \<in> {Queued, Held, Released} \<Longrightarrow> ph = Held \<or> phase_move Held ph"
  by (auto intro: phase_move.intros)

lemma ok_phase_take:
  assumes "pipeline_wf p" "queued p x \<or> row_has_status p x {PENDING}"
  shows "phase x (cs, p) \<in> {Queued, Waiting}"
  using assms(2)
proof
  assume q: "queued p x"
  with assms(1) have "row_has_status p x {SCHEDULED, RETRYING}" by (simp add: pipeline_wf_def)
  with q show ?thesis by (auto simp: phase_def row_has_status_def)
qed (auto simp: phase_def row_has_status_def)

lemma holders_update:
  assumes "holds (cs ! i) \<noteq> Some x" "holds d \<noteq> Some x"
  shows "(\<exists>e \<in> set (cs[i := d]). holds e = Some x) = (\<exists>e \<in> set cs. holds e = Some x)"
proof -
  have "(\<exists>j < length cs. holds (cs[i := d] ! j) = Some x) = (\<exists>j < length cs. holds (cs ! j) = Some x)"
    using assms by (metis nth_list_update_eq nth_list_update_neq)
  then show ?thesis by (simp add: Bex_def in_set_conv_nth) metis
qed

lemma phase_idle:
  assumes "deployment_ok (cs, p)" "i < length cs" "d = cs ! i \<or> holds d = None"
  shows "phase x (cs[i := d], p) = phase x (cs, p) \<or> phase_move (phase x (cs, p)) (phase x (cs[i := d], p))"
proof (cases "holds (cs ! i) = Some x")
  case True
  have c: "cs ! i \<in> set cs" "proc_ok p (cs ! i)" using assms(1,2) by (auto simp: deployment_ok_def)
  have "phase x (cs, p) = Held" by (rule ok_phase_Held [OF c(2) True c(1)])
  moreover from c(2) True have "row_has_status p x (held_status (cs ! i))" by (simp add: proc_ok_def)
  from held_moves [OF phase_let_go [OF this held_not_PENDING]]
  have "phase x (cs[i := d], p) = Held \<or> phase_move Held (phase x (cs[i := d], p))" .
  ultimately show ?thesis by simp
next
  case False
  with assms(3) have "holds d \<noteq> Some x" by auto
  from holders_update [OF False this] have "phase x (cs[i := d], p) = phase x (cs, p)"
    by (intro phase_cong) auto
  then show ?thesis ..
qed

lemma phase_act:
  assumes "deployment_ok (cs, p)" "i < length cs" "proc_step env (cs ! i) p = (d, q)"
  shows "phase x (cs[i := d], q) = phase x (cs, p) \<or> phase_move (phase x (cs, p)) (phase x (cs[i := d], q))"
proof -
  let ?c = "cs ! i"
  have c: "?c \<in> set cs" "proc_ok p ?c" "pipeline_wf p" using assms(1,2) by (auto simp: deployment_ok_def)
  have step: "good_step ?c p d q" by (rule step_good [OF assms(3) c(3,2)])
  have d: "d \<in> set (cs[i := d])" using assms(2) by (simp add: set_update_memI)
  have ok: "proc_ok q d" using step by (simp add: good_step_def)
  consider (was) "holds ?c = Some x" | (takes) "holds ?c \<noteq> Some x" "holds d = Some x"
    | (other) "holds ?c \<noteq> Some x" "holds d \<noteq> Some x" by blast
  then show ?thesis
  proof cases
    case was
    have before: "phase x (cs, p) = Held" by (rule ok_phase_Held [OF c(2) was c(1)])
    from c(2) was have "row_has_status p x (held_status ?c)" by (simp add: proc_ok_def)
    then obtain st where st: "row_has_status p x {st}" "st \<in> held_status ?c"
      by (auto simp: row_has_status_def)
    from step have "moves_ok x p q" by (simp add: good_step_def)
    with st(1) obtain st' where st': "row_has_status q x {st'}" "st' = st \<or> task_move st st'"
      by (auto simp: moves_ok_def)
    have "st' \<noteq> PENDING" using st'(2) st(2) held_not_PENDING [of ?c] by (auto elim: task_move.cases)
    then have "PENDING \<notin> {st'}" by auto
    from held_moves [OF phase_let_go [OF st'(1) this]] before show ?thesis by simp
  next
    case takes
    from step takes have "queued p x \<or> row_has_status p x {PENDING}" by (auto simp: good_step_def)
    with ok_phase_take [OF c(3), of x cs] have "phase_move (phase x (cs, p)) Held"
      by (auto intro: phase_move.intros)
    with ok_phase_Held [OF ok takes(2) d] show ?thesis by simp
  next
    case other
    with step have "same_at x p q" by (simp add: good_step_def)
    with holders_update [OF other] have "phase x (cs[i := d], q) = phase x (cs, p)"
      by (intro phase_cong) (auto simp: same_at_def)
    then show ?thesis ..
  qed
qed

lemma phase_create:
  assumes "deployment_ok (cs, p)"
  shows "phase x (cs, snd (repo_create env t p)) = phase x (cs, p) \<or>
    phase_move (phase x (cs, p)) (phase x (cs, snd (repo_create env t p)))"
proof (cases "dict_get (table p) x")
  case (Some r)
  show ?thesis
  proof (cases rule: repo_create_cases [of p env t])
    case kept
    then have "phase x (cs, snd (repo_create env t p)) = phase x (cs, p)"
      by (intro phase_cong) (auto simp: same_core_def queued_def queue_def)
    then show ?thesis ..
  next
    case (added r')
    with Some have "phase x (cs, snd (repo_create env t p)) = phase x (cs, p)"
      by (intro phase_cong) (auto simp: queued_def queue_def)
    then show ?thesis ..
  qed
next
  case None
  let ?q = "snd (repo_create env t p)"
  have ok: "deployment_ok (cs, ?q)" by (rule create_ok [OF assms])
  have free: "\<not> queued p x" "\<forall>c \<in> set cs. holds c \<noteq> Some x"
    using assms None by (fastforce simp: deployment_ok_def pipeline_wf_def proc_ok_def row_has_status_def)+
  have "queued ?q x = queued p x"
    by (cases rule: repo_create_cases [of p env t]) (auto simp: same_core_def queued_def queue_def)
  with free have "phase x (cs, ?q) \<in> {Absent, Waiting, Released}"
    by (auto simp: phase_def split: option.split)
  moreover have "phase x (cs, p) = Absent" using None by (simp add: phase_def)
  ultimately show ?thesis by (auto intro: phase_move.intros)
qed

text \<open>
  C11: A deployment with one scheduler refines the abstract life of a task: seen through
  \<open>phase\<close>, every step of every process - and every creation, cancellation and restart - leaves a
  task where it is or makes one of the abstract moves. Only taking, pushing and popping change who
  is responsible for it, and a released task is never taken again.
\<close>

theorem deployment_refines_lifecycle:
  assumes "run sys_do (deployment 1 n) es = s"
  shows "phase x (sys_do s e) = phase x s \<or> phase_move (phase x s) (phase x (sys_do s e))"
proof -
  obtain cs p where s: "s = (cs, p)" by (cases s)
  have ok: "deployment_ok (cs, p)" using dp.run_inv [OF deployment_one_ok, of n es] assms s by simp
  show ?thesis
  proof (cases e)
    case (New env t)
    with s phase_create [OF ok] show ?thesis by simp
  next
    case (Act env i)
    with s phase_act [OF ok] show ?thesis by (auto split: prod.split)
  next
    case (Cancel i)
    with s phase_idle [OF ok, of i "cancelled (cs ! i)"] show ?thesis by auto
  next
    case (Start i)
    with s phase_idle [OF ok, of i "started (cs ! i)"] started_idle(1) [of "cs ! i"] show ?thesis by auto
  qed
qed

theorem deployment_refines_lifecycle_witness:
  "let s = run sys_do (deployment 1 1) job_history in
     phase ''job'' (sys_do s (Cancel 1)) = phase ''job'' s \<or>
     phase_move (phase ''job'' s) (phase ''job'' (sys_do s (Cancel 1)))"
  using deployment_refines_lifecycle [OF refl, where n = 1 and es = job_history and x = "''job''" and e = "Cancel 1"] by (simp add: Let_def)

section \<open>What a cancelled process held\<close>







section \<open>Two schedulers\<close>








section \<open>A driver that hands out JSON as text\<close>

text \<open>
  No pool of the system sets a codec for JSON columns, and the documented default of the driver is to
  hand them out as text. A history of such a deployment:
\<close>

fun as_text :: "sys_event \<Rightarrow> bool" where
  "as_text (New env t) \<longleftrightarrow> jsonb_text env"
| "as_text (Act env i) \<longleftrightarrow> jsonb_text env"
| "as_text _ \<longleftrightarrow> True"

definition at_rest :: "proc \<Rightarrow> bool" where
  "at_rest c \<longleftrightarrow> c \<in> {Sched S_Idle, Sched S_Stopped, Worker W_Idle, Worker W_Stopped}"

definition untouched :: "proc list \<times> pipeline \<Rightarrow> bool" where
  "untouched s \<longleftrightarrow>
     list_all at_rest (fst s) \<and> executions (snd s) = [] \<and> bus_log (snd s) = [] \<and> (\<forall>k. queue (snd s) k = [])"

lemma text_rows: "jsonb_text env \<Longrightarrow> rows_to_tasks env rs = Inr ts \<Longrightarrow> ts = []"
  by (cases rs) (auto simp: row_to_task_def column_dict_def split: sum.splits)

lemma get_pending_text:
  assumes "jsonb_text env"
  shows "get_pending env l p = (r, q) \<Longrightarrow> (r = Inr [] \<or> (\<exists>e. r = Inl e)) \<and> q = p\<lparr>pl_moment := pl_moment p + 1\<rparr>"
  using text_rows [OF assms] by (cases r) (auto simp: get_pending_def interact_def Let_def split: if_splits)

lemma rest_step:
  assumes "jsonb_text env" "at_rest c" "\<And>k. queue p k = []"
  shows "proc_step env c p = (c, p) \<or> proc_step env c p = (c, p\<lparr>pl_moment := pl_moment p + 1\<rparr>)"
proof -
  obtain r q where g: "get_pending env 10 p = (r, q)" by fastforce
  with get_pending_text [OF assms(1) g]
  have "sched_step env S_Idle p = (S_Idle, p\<lparr>pl_moment := pl_moment p + 1\<rparr>)"
    by (auto simp: or_idle_def)
  moreover have "work_step env W_Idle p = (W_Idle, p\<lparr>pl_moment := pl_moment p + 1\<rparr>)"
    using assms(3) by (simp add: redis_blpop_def interact_def Let_def or_idle_def)
  ultimately show ?thesis using assms(2) by (auto simp: at_rest_def proc_step_def)
qed

lemma untouched_step:
  assumes "untouched s" "as_text e"
  shows "untouched (sys_do s e)"
    and "dict_get (table (snd s)) x = Some r \<Longrightarrow> dict_get (table (snd (sys_do s e))) x = Some r"
proof -
  obtain cs p where s: "s = (cs, p)" by fastforce
  have "untouched (sys_do s e) \<and>
    (dict_get (table (snd s)) x = Some r \<longrightarrow> dict_get (table (snd (sys_do s e))) x = Some r)"
  proof (cases e)
    case (New env t)
    with assms(1) s show ?thesis
      by (auto simp: untouched_def repo_create_def interact_def Let_def dict_has_get split: option.split)
  next
    case (Act env i)
    show ?thesis
    proof (cases "i < length cs")
      case True
      with assms s Act have "jsonb_text env" "at_rest (cs ! i)" "queue p k = []" for k
        by (auto simp: untouched_def list_all_length)
      from rest_step [OF this] Act s True assms(1) show ?thesis by (auto simp: untouched_def)
    qed (use Act s assms(1) in simp)
  next
    case (Cancel i)
    with assms(1) s show ?thesis
      by (auto simp: untouched_def list_all_length nth_list_update at_rest_def)
  next
    case (Start i)
    with assms(1) s show ?thesis
      by (auto simp: untouched_def list_all_length nth_list_update at_rest_def)
  qed
  then show "untouched (sys_do s e)"
    "dict_get (table (snd s)) x = Some r \<Longrightarrow> dict_get (table (snd (sys_do s e))) x = Some r" by blast+
qed

lemma untouched_run:
  "untouched s \<Longrightarrow> list_all as_text es \<Longrightarrow> untouched (run sys_do s es) \<and>
     (dict_get (table (snd s)) x = Some r \<longrightarrow> dict_get (table (snd (run sys_do s es))) x = Some r)"
proof (induction es arbitrary: s)
  case (Cons e es)
  with untouched_step [of s e] Cons.IH [of "sys_do s e"] show ?case by auto
qed simp

text \<open>
  C18: As long as JSON columns arrive as text, nothing ever happens to a task, however many schedulers
  and workers there are and whatever else goes wrong: reading the payload of a pending row raises, so
  every process stays where it rests, no queue ever holds a message, no event is published, nothing is
  executed, and every row that was created stays exactly as it was inserted.
\<close>

theorem no_task_is_ever_dispatched:
  assumes "list_all as_text (es @ later)" "run sys_do (deployment k n) es = s" "run sys_do s later = (cs, p)"
  shows "executions p = [] \<and> bus_log p = [] \<and> (\<forall>key. queue p key = []) \<and> list_all at_rest cs \<and>
     (\<forall>x r. dict_get (table (snd s)) x = Some r \<longrightarrow> dict_get (table p) x = Some r)"
proof -
  have "untouched (deployment k n)"
    by (auto simp: untouched_def deployment_def empty_pipeline_def queue_def dict_get_default_def at_rest_def list_all_iff)
  with assms(1,2) have "untouched s" using untouched_run [of "deployment k n" es] by auto
  with untouched_run [of s later] assms(1,3) show ?thesis by (auto simp: untouched_def)
qed

theorem no_task_is_ever_dispatched_witness:
  "let env = (sample_pipe_env (\<lambda>_. False) declared_columns)\<lparr>jsonb_text := True\<rparr> in
   executions (snd (run sys_do (run sys_do (deployment 2 1) [New env (sample_job ''echo'')])
     [Act env 0, Act env 1, Act env 2])) = []"
proof -
  let ?env = "(sample_pipe_env (\<lambda>_. False) declared_columns)\<lparr>jsonb_text := True\<rparr>"
  obtain cs p where "run sys_do (run sys_do (deployment 2 1) [New ?env (sample_job ''echo'')])
     [Act ?env 0, Act ?env 1, Act ?env 2] = (cs, p)" by fastforce
  from no_task_is_ever_dispatched [OF _ refl this] this show ?thesis
    unfolding Let_def by (simp del: sys_do.simps foldl_Cons)
qed

end
