(* ===== verification/Runtime_API.thy ===== *)
theory Runtime_API
  imports Configuration Catalogues Events
begin

text \<open>
  The entry points of the runtime: \<open>runtime/lifecycle.py\<close>, \<open>runtime/bootstrap.py\<close>,
  \<open>runtime/cli.py\<close>, the HTTP API of \<open>runtime/api\<close> with its routers and its CORS origins, and the
  Celery application of \<open>tasks/app.py\<close> with its queues and routes. The web framework is modelled by
  what it documents: the first route that matches the method and the path answers, an
  \<open>HTTPException\<close> becomes its status with its detail. A path is the list of its segments.
\<close>

section \<open>runtime/lifecycle.py, runtime/bootstrap.py\<close>

record LifecycleStage =
  stage_name :: string
  on_startup :: "string list"
  on_shutdown :: "string list"

type_synonym Lifecycle = "LifecycleStage list"

definition add_stage :: "LifecycleStage \<Rightarrow> Lifecycle \<Rightarrow> Lifecycle" where
  "add_stage st l = l @ [st]"

definition lifecycle_startup :: "Lifecycle \<Rightarrow> exn + unit" where
  "lifecycle_startup l = Inl (PyExn ''NotImplementedError'' ''runtime.bootstrap will provide the orchestrator'')"

definition lifecycle_shutdown :: "Lifecycle \<Rightarrow> exn + unit" where
  "lifecycle_shutdown l = Inl (PyExn ''NotImplementedError'' ''runtime.bootstrap will provide the orchestrator'')"

definition build_registry :: "RuntimeSettings \<Rightarrow> 'i bindings" where
  "build_registry settings = []"

definition build_lifecycle :: Lifecycle where
  "build_lifecycle = []"

lemma stages_in_order: "foldl (\<lambda>l st. add_stage st l) [] sts = sts"
proof -
  have "foldl (\<lambda>l st. add_stage st l) l sts = l @ sts" for l
    by (induction sts arbitrary: l) (simp_all add: add_stage_def)
  then show ?thesis by simp
qed

section \<open>runtime/cli.py\<close>

definition help_text :: string where
  "help_text =
     ''aine - AI-Native Engineering Platform'' @ [CHR 0x0A, CHR 0x0A] @
     ''Usage:'' @ [CHR 0x0A] @
     ''  aine --help          Show this message.'' @ [CHR 0x0A, CHR 0x0A] @
     ''(scaffolding - subcommands are intentionally not implemented yet)'' @ [CHR 0x0A]"

text \<open>The exit code, the lines on standard output and those on standard error.\<close>

definition cli_main :: "string list \<Rightarrow> int \<times> string list \<times> string list" where
  "cli_main args =
     (case args of
        [] \<Rightarrow> (0, [help_text], [])
      | a # rest \<Rightarrow>
          if a \<in> {''-h'', ''--help''} then (0, [help_text], [])
          else (2, [], [''unknown command: '' @ a, help_text]))"

lemma cli_exit_code: "fst (cli_main args) = 0 \<longleftrightarrow> args = [] \<or> hd args = ''-h'' \<or> hd args = ''--help''"
  by (auto simp: cli_main_def split: list.split)

section \<open>runtime/api/middleware.py\<close>

text \<open>\<open>s.split(",")\<close>; the first argument is the current piece, reversed.\<close>

fun split_comma :: "string \<Rightarrow> string \<Rightarrow> string list" where
  "split_comma cur [] = [rev cur]"
| "split_comma cur (c # s) = (if c = CHR '','' then rev cur # split_comma [] s else split_comma (c # cur) s)"

definition cors_origin_list :: "string \<Rightarrow> string list" where
  "cors_origin_list s = map py_strip (filter (\<lambda>o1. py_strip o1 \<noteq> []) (split_comma [] s))"

datatype middleware = CORSMiddleware "string list" bool "string list" "string list"

definition install_middleware :: "RuntimeSettings \<Rightarrow> middleware list" where
  "install_middleware settings =
     (let origins = cors_origin_list (cors_origins (set_api settings)) in
      if origins \<noteq> [] then [CORSMiddleware origins True [''*''] [''*'']] else [])"

lemma split_comma_pieces: "p \<in> set (split_comma cur s) \<Longrightarrow> CHR '','' \<notin> set cur \<Longrightarrow> CHR '','' \<notin> set p"
  by (induction cur s rule: split_comma.induct) (auto split: if_splits)

lemma set_py_strip: "set (py_strip s) \<subseteq> set s"
  unfolding py_strip_def by (auto dest!: set_dropWhileD)

lemma py_strip_idem: "py_strip (py_strip s) = py_strip s"
proof -
  have edge: "dropWhile P (rev (dropWhile P (rev (dropWhile P xs)))) = rev (dropWhile P (rev (dropWhile P xs)))"
    for P :: "char \<Rightarrow> bool" and xs
  proof -
    let ?ys = "dropWhile P xs"
    show ?thesis
    proof (cases "rev (dropWhile P (rev ?ys))")
      case (Cons y ys)
      have "\<exists>zs. ?ys = rev (dropWhile P (rev ?ys)) @ zs"
        by (metis rev_append rev_rev_ident takeWhile_dropWhile_id)
      with Cons obtain zs where "?ys = y # zs" by auto
      then have "\<not> P y" by (metis hd_dropWhile list.sel(1) list.simps(3))
      with Cons show ?thesis by simp
    next
      case Nil
      show ?thesis by (simp only: Nil dropWhile.simps)
    qed
  qed
  show ?thesis unfolding py_strip_def by (simp add: edge)
qed

lemma cors_origins_clean:
  assumes "o1 \<in> set (cors_origin_list s)"
  shows "o1 \<noteq> []" "CHR '','' \<notin> set o1" "py_strip o1 = o1"
proof -
  from assms obtain p where p: "p \<in> set (split_comma [] s)" "o1 = py_strip p" "py_strip p \<noteq> []"
    by (auto simp: cors_origin_list_def)
  with split_comma_pieces [OF p(1)] set_py_strip [of p]
  show "o1 \<noteq> []" "CHR '','' \<notin> set o1" "py_strip o1 = o1" by (auto simp: py_strip_idem)
qed

section \<open>runtime/api/routers\<close>

datatype seg = Lit string | Param

record request =
  rq_method :: string
  rq_path :: "string list"
  rq_body :: "pyval option"

type_synonym response = "int \<times> pyval"

record api_route =
  rt_method :: string
  rt_path :: "seg list"
  rt_handler :: "request \<Rightarrow> response"

definition http_error :: "int \<Rightarrow> string \<Rightarrow> response" where
  "http_error code detail = (code, PDict [(''detail'', PStr detail)])"

definition health_response :: "string \<Rightarrow> response" where
  "health_response st = (200, PDict [(''status'', PStr st), (''version'', PStr ''0.1.0'')])"

definition health_routes :: "api_route list" where
  "health_routes =
     [\<lparr>rt_method = ''GET'', rt_path = [Lit ''health''], rt_handler = (\<lambda>_. health_response ''ok'')\<rparr>,
      \<lparr>rt_method = ''GET'', rt_path = [Lit ''ready''], rt_handler = (\<lambda>_. health_response ''ready'')\<rparr>]"

text \<open>
  The validation library's reading of the body of \<open>POST /v1/workflows\<close>: fields it does not know are
  dropped, and a missing or ill-typed one is refused with status 422. The shape of its detail is
  the library's.
\<close>

definition str_or_none :: "pyval option \<Rightarrow> bool" where
  "str_or_none v = (case v of None \<Rightarrow> True | Some PNone \<Rightarrow> True | Some (PStr s) \<Rightarrow> True | _ \<Rightarrow> False)"

definition StartWorkflowRequest_ok :: "pyval option \<Rightarrow> bool" where
  "StartWorkflowRequest_ok body =
     (case body of
        Some (PDict d) \<Rightarrow>
          (case dict_get d ''definition'' of Some (PStr s) \<Rightarrow> True | _ \<Rightarrow> False) \<and>
          str_or_none (dict_get d ''version'') \<and> str_or_none (dict_get d ''correlation_id'') \<and>
          (case dict_get d ''inputs'' of None \<Rightarrow> True | Some (PDict i) \<Rightarrow> True | _ \<Rightarrow> False)
      | _ \<Rightarrow> False)"

definition start_workflow :: "request \<Rightarrow> response" where
  "start_workflow rq =
     (if StartWorkflowRequest_ok (rq_body rq) then http_error 501 ''workflow engine not wired yet''
      else http_error 422 ''validation error'')"

definition workflow_routes :: "api_route list" where
  "workflow_routes =
     [\<lparr>rt_method = ''POST'', rt_path = [Lit ''workflows''], rt_handler = start_workflow\<rparr>,
      \<lparr>rt_method = ''GET'', rt_path = [Lit ''workflows'', Param],
       rt_handler = (\<lambda>_. http_error 501 ''workflow engine not wired yet'')\<rparr>,
      \<lparr>rt_method = ''POST'', rt_path = [Lit ''workflows'', Param, Lit ''cancel''],
       rt_handler = (\<lambda>_. http_error 501 ''workflow engine not wired yet'')\<rparr>]"

definition agent_routes :: "api_route list" where
  "agent_routes =
     [\<lparr>rt_method = ''GET'', rt_path = [Lit ''agents''], rt_handler = (\<lambda>_. (200, PList []))\<rparr>,
      \<lparr>rt_method = ''GET'', rt_path = [Lit ''agents'', Param],
       rt_handler = (\<lambda>_. http_error 404 ''no agents registered yet'')\<rparr>]"

definition event_descriptor :: "event_class \<Rightarrow> pyval" where
  "event_descriptor c =
     PDict [(''event_type'', PStr (event_type c)), (''event_version'', PInt (event_version c)),
            (''topic'', PStr (topic_value (event_topic c)))]"

definition list_event_types :: "(string, event_class) dict \<Rightarrow> request \<Rightarrow> response" where
  "list_event_types reg rq = (200, PList (map event_descriptor (dict_values reg)))"

definition event_routes :: "(string, event_class) dict \<Rightarrow> api_route list" where
  "event_routes reg =
     [\<lparr>rt_method = ''GET'', rt_path = [Lit ''events'', Lit ''types''], rt_handler = list_event_types reg\<rparr>,
      \<lparr>rt_method = ''GET'', rt_path = [Lit ''events'', Lit ''by-correlation'', Param],
       rt_handler = (\<lambda>_. http_error 501 ''event store not wired yet'')\<rparr>]"

section \<open>runtime/api/app.py\<close>

definition with_prefix :: "string \<Rightarrow> api_route list \<Rightarrow> api_route list" where
  "with_prefix p = map (\<lambda>r. r\<lparr>rt_path := Lit p # rt_path r\<rparr>)"

record app =
  docs_url :: "string option"
  app_middleware :: "middleware list"
  app_routes :: "api_route list"

definition create_app :: "RuntimeSettings \<Rightarrow> (string, event_class) dict \<Rightarrow> app" where
  "create_app settings reg =
     \<lparr>docs_url = (if deploy_env settings \<noteq> ''prod'' then Some ''/docs'' else None),
      app_middleware = install_middleware settings,
      app_routes = health_routes @ with_prefix ''v1'' workflow_routes @ with_prefix ''v1'' agent_routes @
        with_prefix ''v1'' (event_routes reg)\<rparr>"

text \<open>
  \<open>_lifespan\<close>: what the application holds while it serves. The stages are not started, so nothing
  is raised, and nothing is done when it stops.
\<close>

record 'i app_state =
  st_settings :: RuntimeSettings
  st_registry :: "'i bindings"
  st_lifecycle :: Lifecycle

definition lifespan ::
  "RuntimeSettings \<Rightarrow> RuntimeSettings option \<Rightarrow> 'i app_state \<times> RuntimeSettings option" where
  "lifespan load cache =
     (case get_settings load cache of (settings, cache') \<Rightarrow>
        (\<lparr>st_settings = settings, st_registry = build_registry settings, st_lifecycle = build_lifecycle\<rparr>,
         cache'))"

text \<open>
  The application serves with the settings it was created with, whatever the environment says when
  it starts; and it serves without any component.
\<close>

lemma lifespan_serves:
  "st_settings (fst (lifespan now (snd (get_settings load None)))) = load"
  "resolve_component (st_registry (fst (lifespan now cache))) n = resolve_component [] n"
  by (simp_all add: lifespan_def get_settings_def build_registry_def split: option.split)

fun path_matches :: "seg list \<Rightarrow> string list \<Rightarrow> bool" where
  "path_matches [] [] \<longleftrightarrow> True"
| "path_matches (Lit l # ps) (s # ss) \<longleftrightarrow> l = s \<and> path_matches ps ss"
| "path_matches (Param # ps) (s # ss) \<longleftrightarrow> s \<noteq> [] \<and> path_matches ps ss"
| "path_matches _ _ \<longleftrightarrow> False"

definition answer :: "api_route list \<Rightarrow> request \<Rightarrow> response" where
  "answer rs rq =
     (case List.find (\<lambda>r. rt_method r = rq_method rq \<and> path_matches (rt_path r) (rq_path rq)) rs of
        Some r \<Rightarrow> rt_handler r rq
      | None \<Rightarrow>
          if \<exists>r \<in> set rs. path_matches (rt_path r) (rq_path rq) then http_error 405 ''Method Not Allowed''
          else http_error 404 ''Not Found'')"

lemmas api_routes_defs =
  create_app_def with_prefix_def health_routes_def workflow_routes_def agent_routes_def event_routes_def

section \<open>What the API answers\<close>

lemma path_matches_lists [simp]:
  "path_matches [] ss \<longleftrightarrow> ss = []"
  "path_matches (Lit l # ps) ss \<longleftrightarrow> (\<exists>ss'. ss = l # ss' \<and> path_matches ps ss')"
  "path_matches (Param # ps) ss \<longleftrightarrow> (\<exists>s ss'. ss = s # ss' \<and> s \<noteq> [] \<and> path_matches ps ss')"
  by (cases ss; auto)+

text \<open>The classes the package \<open>events\<close> imports, in the order their decorators run.\<close>

definition package_event_classes :: "event_class list" where
  "package_event_classes =
     agent_event_classes @ codegen_event_classes @ review_event_classes @ repair_event_classes @
     testing_event_classes @ workflow_event_classes"

lemma package_prefix:
  "all_event_classes = package_event_classes @ architecture_event_classes @ chaining_event_classes @
     healing_event_classes @ provider_event_classes @ worker_event_classes"
  by (simp add: package_event_classes_def all_event_classes_def)

lemma register_appends:
  "distinct (map event_key cs) \<Longrightarrow> \<forall>c \<in> set cs. \<not> dict_has reg (event_key c) \<Longrightarrow>
     register_events cs reg = Inr (reg @ map (\<lambda>c. (event_key c, c)) cs)"
proof (induction cs arbitrary: reg)
  case (Cons c cs)
  have "\<forall>d \<in> set cs. \<not> dict_has (dict_set (event_key c) c reg) (event_key d)"
  proof
    fix d assume d: "d \<in> set cs"
    with Cons.prems(1) have "event_key d \<noteq> event_key c"
      by (metis distinct.simps(2) imageI list.map(2) list.set_map)
    with d Cons.prems(2) show "\<not> dict_has (dict_set (event_key c) c reg) (event_key d)"
      by (simp only: dict_has_set) simp
  qed
  with Cons.IH [of "dict_set (event_key c) c reg"] Cons.prems show ?case
    by (simp add: register_event_def register_event_key_def dict_set_absent)
qed simp

lemma descriptor_inj: "event_key c \<noteq> event_key d \<Longrightarrow> event_descriptor c \<noteq> event_descriptor d"
  by (auto simp: event_descriptor_def event_key_def)

lemma package_registry:
  "register_events package_event_classes [] = Inr (map (\<lambda>c. (event_key c, c)) package_event_classes)"
  using register_appends [of package_event_classes "[]"] event_keys_distinct
  by (simp add: package_prefix)

text \<open>Which events belong to the modules the package imports.\<close>

fun listed_event :: "domain_event \<Rightarrow> bool" where
  "listed_event (Architecture_Event e) = False"
| "listed_event (Chaining_Event e) = False"
| "listed_event (Healing_Event e) = False"
| "listed_event (Provider_Event e) = False"
| "listed_event (Worker_Event e) = False"
| "listed_event _ = True"

lemma listed_iff: "domain_event_class e \<in> set package_event_classes \<longleftrightarrow> listed_event e"
  by (cases e; rename_tac x; case_tac x)
    (simp_all add: package_event_classes_def event_classes_defs mk_class_def)

text \<open>
  The API process imports the events package and nothing that imports the other event
  modules. \<open>GET /v1/events/types\<close> then answers with the type, version and topic of exactly the
  agent, code generation, review, repair, testing and workflow events, once each; no event of a
  provider, a worker, the architect, chaining or self-healing is in the catalogue.
\<close>

theorem event_types_listed:
  "\<exists>reg. register_events package_event_classes [] = Inr reg \<and>
     answer (app_routes (create_app settings reg))
       \<lparr>rq_method = ''GET'', rq_path = [''v1'', ''events'', ''types''], rq_body = b\<rparr> =
       (200, PList (map event_descriptor package_event_classes)) \<and>
     distinct (map event_descriptor package_event_classes) \<and>
     (\<forall>e. event_descriptor (domain_event_class e) \<in> set (map event_descriptor package_event_classes) \<longleftrightarrow>
        listed_event e)"
proof -
  let ?reg = "map (\<lambda>c. (event_key c, c)) package_event_classes"
  have keys: "inj_on event_key (set all_event_classes)"
    using event_keys_distinct by (simp add: distinct_map)
  have dist: "distinct (map event_key package_event_classes)"
    using event_keys_distinct by (simp add: package_prefix)
  have "distinct (map event_descriptor package_event_classes)"
    using dist descriptor_inj unfolding distinct_conv_nth by auto
  moreover have "event_descriptor (domain_event_class e) \<in> event_descriptor ` set package_event_classes \<longleftrightarrow>
      domain_event_class e \<in> set package_event_classes" for e
  proof
    assume "event_descriptor (domain_event_class e) \<in> event_descriptor ` set package_event_classes"
    then obtain c where c: "c \<in> set package_event_classes" "event_descriptor c = event_descriptor (domain_event_class e)"
      by auto
    with descriptor_inj have "event_key c = event_key (domain_event_class e)" by metis
    with keys c(1) event_class_registered [of e] have "c = domain_event_class e"
      by (auto simp: package_prefix inj_on_def)
    with c(1) show "domain_event_class e \<in> set package_event_classes" by simp
  qed blast
  moreover have "answer (app_routes (create_app settings ?reg))
       \<lparr>rq_method = ''GET'', rq_path = [''v1'', ''events'', ''types''], rq_body = b\<rparr> =
       (200, PList (map event_descriptor package_event_classes))"
    by (simp add: answer_def api_routes_defs list_event_types_def comp_def)
  ultimately show ?thesis using package_registry by (auto simp: listed_iff)
qed

text \<open>
  Whatever the settings, the method, the path and the body are, the API answers with one of
  five statuses, and it succeeds for exactly four requests: the two probes, which look at no
  component, the empty list of agents, and the catalogue of events. Workflows cannot be started,
  read or cancelled.
\<close>

theorem api_answers:
  "let code = fst (answer (app_routes (create_app settings reg)) rq) in
     code \<in> {200, 404, 405, 422, 501} \<and>
     (code = 200 \<longleftrightarrow> rq_method rq = ''GET'' \<and>
        rq_path rq \<in> {[''health''], [''ready''], [''v1'', ''agents''], [''v1'', ''events'', ''types'']}) \<and>
     (code = 422 \<longleftrightarrow> rq_method rq = ''POST'' \<and> rq_path rq = [''v1'', ''workflows''] \<and>
        \<not> StartWorkflowRequest_ok (rq_body rq))"
  by (auto simp: answer_def api_routes_defs Let_def http_error_def health_response_def
      list_event_types_def start_workflow_def)

section \<open>tasks/queues.py, tasks/routing.py, tasks/app.py\<close>

datatype QueueName = Q_DEFAULT | Q_CODEGEN | Q_REVIEW | Q_TESTING | Q_REPAIR | Q_INGEST | Q_SCHEDULER

fun queue_name_value :: "QueueName \<Rightarrow> string" where
  "queue_name_value Q_DEFAULT = ''default''"
| "queue_name_value Q_CODEGEN = ''codegen''"
| "queue_name_value Q_REVIEW = ''review''"
| "queue_name_value Q_TESTING = ''testing''"
| "queue_name_value Q_REPAIR = ''repair''"
| "queue_name_value Q_INGEST = ''ingest''"
| "queue_name_value Q_SCHEDULER = ''scheduler''"

definition declare_queues :: "QueueName list" where
  "declare_queues = [Q_DEFAULT, Q_CODEGEN, Q_REVIEW, Q_TESTING, Q_REPAIR, Q_INGEST, Q_SCHEDULER]"

definition default_routes :: "(string, (string, string) dict) dict" where
  "default_routes =
     [(''codegen.*'', [(''queue'', queue_name_value Q_CODEGEN)]),
      (''review.*'', [(''queue'', queue_name_value Q_REVIEW)]),
      (''testing.*'', [(''queue'', queue_name_value Q_TESTING)]),
      (''repair.*'', [(''queue'', queue_name_value Q_REPAIR)]),
      (''ingest.*'', [(''queue'', queue_name_value Q_INGEST)]),
      (''scheduler.*'', [(''queue'', queue_name_value Q_SCHEDULER)])]"

record celery_app =
  ca_name :: string
  ca_broker :: string
  ca_backend :: string
  ca_default_queue :: string
  ca_routes :: "(string, (string, string) dict) dict"
  ca_queues :: "(string, string) dict list"
  ca_acks_late :: bool
  ca_reject_on_worker_lost :: bool
  ca_track_started :: bool
  ca_prefetch_multiplier :: int
  ca_retry_on_startup :: bool

definition create_celery_app :: "RuntimeSettings \<Rightarrow> RuntimeSettings option \<Rightarrow> celery_app" where
  "create_celery_app cached given =
     (let settings = (case given of Some s \<Rightarrow> s | None \<Rightarrow> cached) in
      \<lparr>ca_name = ''aine'', ca_broker = broker_url (set_celery settings),
       ca_backend = result_backend (set_celery settings),
       ca_default_queue = task_default_queue (set_celery settings), ca_routes = default_routes,
       ca_queues = map (\<lambda>q. [(''name'', queue_name_value q)]) declare_queues,
       ca_acks_late = True, ca_reject_on_worker_lost = True, ca_track_started = True,
       ca_prefetch_multiplier = 1, ca_retry_on_startup = True\<rparr>)"

text \<open>
  The documented reading of a route: a pattern \<open>prefix.*\<close> matches the names that start with
  \<open>prefix.\<close>, the first pattern that matches decides, and otherwise the default queue.
\<close>

definition glob_matches :: "string \<Rightarrow> string \<Rightarrow> bool" where
  "glob_matches pat name = (let p = butlast pat in take (length p) name = p)"

definition queue_of :: "celery_app \<Rightarrow> string \<Rightarrow> string" where
  "queue_of a name =
     (case List.find (\<lambda>(pat, r). glob_matches pat name) (ca_routes a) of
        Some (pat, r) \<Rightarrow> dict_get_default r ''queue'' (ca_default_queue a)
      | None \<Rightarrow> ca_default_queue a)"

text \<open>Every task goes to a declared queue, if the default queue of the settings is one.\<close>

lemma queue_declared:
  assumes "task_default_queue (set_celery settings) \<in> set (map queue_name_value declare_queues)"
  shows "queue_of (create_celery_app cached (Some settings)) name \<in> set (map queue_name_value declare_queues)"
  using assms
  by (auto simp: queue_of_def create_celery_app_def default_routes_def declare_queues_def Let_def
      dict_get_default_def split: option.splits if_splits)

end
