(* ===== verification/Scripts.thy ===== *)
theory Scripts
  imports Task_Pipeline
begin

text \<open>
  \<open>scripts/create_test_task.py\<close>, and what becomes of the task it creates: the whole way from the
  command line through the scheduler and the worker to the stored result.
\<close>

section \<open>scripts/create_test_task.py\<close>

text \<open>The command line without the name of the script.\<close>

definition nth_arg :: "nat \<Rightarrow> string \<Rightarrow> string list \<Rightarrow> string" where
  "nth_arg i d args = (if i < length args then args ! i else d)"

definition script_task :: "task_env \<Rightarrow> nat \<Rightarrow> string list \<Rightarrow> Task" where
  "script_task env n args =
     (default_task env n)\<lparr>task_type := nth_arg 0 ''echo'' args,
        payload := [(''message'', PStr (nth_arg 1 ''hello from hookclose'' args)),
                    (''source'', PStr ''create_test_task.py'')],
        task_provider := ''opencode'', max_attempts := 3\<rparr>"

text \<open>
  The notification goes to a channel of its own, which nobody reads and which is not part of
  \<open>bus_log\<close>; it is returned with the task.
\<close>

definition create_test_task ::
  "pipe_env \<Rightarrow> task_env \<Rightarrow> nat \<Rightarrow> string list \<Rightarrow> (pipeline, Task \<times> string \<times> (string, pyval) dict) op" where
  "create_test_task env tenv n args =
     op_bind (repo_create env (script_task tenv n args)) (\<lambda>t.
     interact env (\<lambda>p. (Inr (t, ''tasks:pending'', [(''task_id'', PStr (task_id t))]), p)))"

section \<open>From the command line to the result\<close>

lemma script_task_simps [simp]:
  "task_id (script_task tenv n args) = uuid tenv n" "task_provider (script_task tenv n args) = ''opencode''"
  "max_attempts (script_task tenv n args) = 3" "task_status (script_task tenv n args) = PENDING"
  "task_type (script_task tenv n args) = nth_arg 0 ''echo'' args"
  "payload (script_task tenv n args) =
     [(''message'', PStr (nth_arg 1 ''hello from hookclose'' args)), (''source'', PStr ''create_test_task.py'')]"
  "workflow_id (script_task tenv n args) = None"
  by (simp_all add: script_task_def default_task_def)

lemma create_test_task_calm:
  assumes "calm env" "\<not> dict_has (table p) (uuid tenv n)"
    and "create_test_task env tenv n args p = (Inr out, p1)"
  shows "\<exists>now. table p1 = table p @ [(uuid tenv n, inserted_row now (script_task tenv n args))] \<and>
     queues p1 = queues p \<and> executions p1 = executions p"
  using assms
  by (auto simp: create_test_task_def repo_create_def interact_def op_bind_def calm_def Let_def dict_set_absent)

lemma create_test_task_core:
  "same_core (snd (repo_create env (script_task tenv n args) p)) (snd (create_test_task env tenv n args p))"
  by (cases "repo_create env (script_task tenv n args) p"; cases "fst (repo_create env (script_task tenv n args) p)")
    (auto simp: create_test_task_def interact_def Let_def)

text \<open>The row of the new task is read back as the task to dispatch.\<close>

lemma script_task_read:
  assumes "calm env"
  shows "\<exists>t. row_to_task env (inserted_row now (script_task tenv n args)) = Inr t \<and>
     task_id t = uuid tenv n \<and> message_of t ''opencode'' =
       \<lparr>msg_id = uuid tenv n, msg_type = nth_arg 0 ''echo'' args,
        msg_payload = payload (script_task tenv n args), msg_provider = ''opencode'', msg_max_attempts = 3\<rparr> \<and>
     task_provider t = ''opencode''"
  using assms
  by (simp add: row_to_task_def inserted_row_def task_of_status_def column_dict_def calm_def message_of_def)

text \<open>The only pending row is the one the scheduler reads.\<close>

lemma poll_single:
  assumes "calm env" "\<forall>r \<in> set (dict_values (table p)). row_status r \<noteq> ''PENDING''"
    and "table p1 = table p @ [(i, r)]" "row_status r = ''PENDING''" "row_to_task env r = Inr t"
  shows "poll_round env p1 = snd (dispatch env t (p1\<lparr>pl_moment := pl_moment p1 + 1\<rparr>))"
proof -
  have "filter (\<lambda>r. row_status r = ''PENDING'') (dict_values (table p)) = []"
    using assms(2) by (simp add: filter_empty_conv)
  then have "pending_rows 10 (p1\<lparr>pl_moment := k\<rparr>) = [r]" for k
    using assms(3,4) by (simp add: pending_rows_def)
  with assms(1,5) show ?thesis
    by (cases "dispatch env t (p1\<lparr>pl_moment := pl_moment p1 + 1\<rparr>)")
      (auto simp: poll_round_def get_pending_def interact_def op_bind_def calm_def split: sum.split)
qed

text \<open>
  On a deployment without faults, whose driver decodes JSON columns (which it does not do by default),
  whose tasks are all past pending and whose worker queue is empty, the task the script creates with its default type is brought to its result by one round of
  the scheduler and one of the worker: it is executed once, stored as completed with its message
  echoed, and in no queue.
\<close>

theorem test_task_completes:
  assumes "calm env" "pipeline_wf p" "\<forall>r \<in> set (dict_values (table p)). row_status r \<noteq> ''PENDING''"
    and "queue p task_queue = []" "\<not> dict_has (table p) (uuid tenv n)"
    and "create_test_task env tenv n args p = (Inr out, p1)"
    and "nth_arg 0 ''echo'' args = ''echo''" "msg = nth_arg 1 ''hello from hookclose'' args"
  shows "let q = consume_round env (poll_round env p1) in
     executions q = executions p @ [uuid tenv n] \<and> (\<forall>k. uuid tenv n \<notin> msg_id ` set (queue q k)) \<and>
     (\<exists>r. dict_get (table q) (uuid tenv n) = Some r \<and> row_status r = ''COMPLETED'' \<and>
        row_result r = Some [(''echo'', PStr msg), (''output'', PStr (''processed: '' @ msg))])"
proof -
  let ?i = "uuid tenv n" and ?p2 = "poll_round env p1"
  obtain now where p1: "table p1 = table p @ [(?i, inserted_row now (script_task tenv n args))]"
    "queues p1 = queues p" "executions p1 = executions p"
    using create_test_task_calm [OF assms(1,5,6)] by blast
  obtain t where t: "row_to_task env (inserted_row now (script_task tenv n args)) = Inr t" "task_id t = ?i"
    "message_of t ''opencode'' =
       \<lparr>msg_id = ?i, msg_type = ''echo'', msg_payload = payload (script_task tenv n args),
        msg_provider = ''opencode'', msg_max_attempts = 3\<rparr>" "task_provider t = ''opencode''"
    using script_task_read [OF assms(1)] assms(7) by metis
  have "dict_get (table p) ?i = None" using assms(5) by (simp add: dict_get_None_iff)
  then have "dict_get (table (p1\<lparr>pl_moment := pl_moment p1 + 1\<rparr>)) (task_id t) =
      Some (inserted_row now (script_task tenv n args))"
    by (simp add: p1(1) t(2) map_add_def)
  from dispatch_calm [OF assms(1) this] obtain r2 where
    p2: "queue ?p2 task_queue = [message_of t ''opencode'']" "executions ?p2 = executions p"
      "dict_get (table ?p2) ?i = Some r2"
    using poll_single [OF assms(1,3) p1(1) _ t(1)] p1 t(2,4) assms(4)
    by (auto simp: Let_def inserted_row_def queue_def)
  have ex: "execute_task (message_of t ''opencode'') =
      Inr (Some [(''echo'', PStr msg), (''output'', PStr (''processed: '' @ msg))], None)"
    by (simp add: execute_task_def payload_get_def dict_get_default_def t(3) assms(8))
  have f: "\<not> faulty env k" for k using assms(1) by (simp add: calm_def)
  have r2: "dict_get (table ?p2) (msg_id (message_of t ''opencode'')) = Some r2" using p2(3) t(2) by simp
  note q = consume_succeeding [OF f p2(1) ex r2]
  have "pipeline_wf p1"
    using repo_create_wf [OF assms(2)] same_core_wf [OF create_test_task_core] assms(6) by (metis snd_conv)
  then have "pipeline_wf (consume_round env ?p2)" by (intro consume_round_wf poll_round_wf)
  with q t(2) p2(2) show ?thesis
    by (fastforce simp: Let_def pipeline_wf_def queued_def row_has_status_def)
qed

theorem test_task_completes_witness:
  "let env = sample_pipe_env (\<lambda>_. False) declared_columns; tenv = \<lparr>uuid = (\<lambda>n. ''job''), utc_now = int\<rparr>;
       p1 = snd (create_test_task env tenv 0 [''echo'', ''hi''] empty_pipeline)
   in executions (consume_round env (poll_round env p1)) = [''job'']"
proof -
  let ?env = "sample_pipe_env (\<lambda>_. False) declared_columns" and ?tenv = "\<lparr>uuid = (\<lambda>n. ''job''), utc_now = int\<rparr>"
  have env: "calm ?env" by (simp add: sample_pipe_env_def calm_def)
  obtain out p1 where c: "create_test_task ?env ?tenv 0 [''echo'', ''hi''] empty_pipeline = (Inr out, p1)"
    by (auto simp: create_test_task_def repo_create_def interact_def op_bind_def sample_pipe_env_def
        empty_pipeline_def Let_def)
  have "executions (consume_round ?env (poll_round ?env p1)) = executions empty_pipeline @ [uuid ?tenv 0]"
    using test_task_completes [OF env empty_pipeline_wf _ _ _ c _ refl]
    by (simp add: nth_arg_def empty_pipeline_def Let_def queue_def dict_get_default_def)
  with c show ?thesis by (simp add: Let_def) (simp add: empty_pipeline_def)
qed

end
