(* ===== verification/State_File.thy ===== *)
theory State_File
  imports Runtime_State Json
begin

text \<open>
  The text of \<open>SYSTEM_STATE.json\<close>: the serializer of \<open>RuntimeStateStore.save\<close> and the validation of
  \<open>load\<close> (\<open>runtime/state.py\<close>), put into the store of \<open>Runtime_State\<close>. Parameters are the validation
  library's JSON reader and its reading of an integer field; of the reader only is used that it
  reads what \<open>json.dumps\<close> writes, of the integers that an integer is one.
\<close>

section \<open>model_dump and the file's text\<close>

fun phase_name :: "RuntimePhase \<Rightarrow> string" where
  "phase_name BOOTSTRAPPING = ''BOOTSTRAPPING''"
| "phase_name RUNTIME_CORE = ''RUNTIME_CORE''"
| "phase_name PROVIDERS = ''PROVIDERS''"
| "phase_name ROUTING = ''ROUTING''"
| "phase_name WORKERS = ''WORKERS''"
| "phase_name CHAINING = ''CHAINING''"
| "phase_name SELF_HEALING = ''SELF_HEALING''"
| "phase_name CI_CD = ''CI_CD''"
| "phase_name STABLE = ''STABLE''"

definition all_phases :: "RuntimePhase list" where
  "all_phases =
     [BOOTSTRAPPING, RUNTIME_CORE, PROVIDERS, ROUTING, WORKERS, CHAINING, SELF_HEALING, CI_CD, STABLE]"

definition state_dump :: "RuntimeState \<Rightarrow> pyval" where
  "state_dump s = PDict
     [(''current_phase'', PInt (current_phase s)), (''current_prompt'', PInt (current_prompt s)),
      (''completed_prompts'', PList (map PInt (completed_prompts s))),
      (''failed_prompts'', PList (map PInt (failed_prompts s))),
      (''architecture_version'', PStr (architecture_version s)),
      (''runtime_state'', PStr (phase_name (runtime_phase s))),
      (''updated_at'', (case state_updated_at s of None \<Rightarrow> PNone | Some t \<Rightarrow> PStr t))]"

definition state_text :: "RuntimeState \<Rightarrow> string" where
  "state_text s = json_dumps_indented (state_dump s) @ [CHR 0x0A]"

section \<open>model_validate_json\<close>

record state_reader =
  read_json :: "string \<Rightarrow> pyval option"
  read_int :: "pyval \<Rightarrow> int option"

definition invalid :: "exn" where
  "invalid = PyExn ''ValidationError'' ''validation error for RuntimeState''"

definition state_fields :: "string list" where
  "state_fields =
     [''current_phase'', ''current_prompt'', ''completed_prompts'', ''failed_prompts'',
      ''architecture_version'', ''runtime_state'', ''updated_at'']"

text \<open>A field that is missing has its default.\<close>

definition field :: "(pyval \<Rightarrow> 'a option) \<Rightarrow> 'a \<Rightarrow> string \<Rightarrow> (string, pyval) dict \<Rightarrow> exn + 'a" where
  "field rd d k m =
     (case dict_get m k of None \<Rightarrow> Inr d
      | Some v \<Rightarrow> (case rd v of None \<Rightarrow> Inl invalid | Some x \<Rightarrow> Inr x))"

definition read_all :: "(pyval \<Rightarrow> 'a option) \<Rightarrow> pyval list \<Rightarrow> 'a list option" where
  "read_all rd vs = (if \<exists>v \<in> set vs. rd v = None then None else Some (map (\<lambda>v. the (rd v)) vs))"

fun read_list :: "(pyval \<Rightarrow> 'a option) \<Rightarrow> pyval \<Rightarrow> 'a list option" where
  "read_list rd (PList vs) = read_all rd vs"
| "read_list rd _ = None"

fun read_str :: "pyval \<Rightarrow> string option" where
  "read_str (PStr s) = Some s"
| "read_str _ = None"

fun read_opt_str :: "pyval \<Rightarrow> string option option" where
  "read_opt_str PNone = Some None"
| "read_opt_str (PStr s) = Some (Some s)"
| "read_opt_str _ = None"

definition read_phase :: "pyval \<Rightarrow> RuntimePhase option" where
  "read_phase v =
     (case v of PStr s \<Rightarrow> List.find (\<lambda>ph. phase_name ph = s) all_phases | _ \<Rightarrow> None)"

definition validate_state :: "state_reader \<Rightarrow> (string, pyval) dict \<Rightarrow> exn + RuntimeState" where
  "validate_state rd m =
     (if \<exists>k \<in> set (dict_keys m). k \<notin> set state_fields then Inl invalid else
      try_bind (field (read_int rd) 1 ''current_phase'' m) (\<lambda>ph.
      try_bind (field (read_int rd) 1 ''current_prompt'' m) (\<lambda>pr.
      try_bind (field (read_list (read_int rd)) [] ''completed_prompts'' m) (\<lambda>cs.
      try_bind (field (read_list (read_int rd)) [] ''failed_prompts'' m) (\<lambda>fs.
      try_bind (field read_str ''v1'' ''architecture_version'' m) (\<lambda>av.
      try_bind (field read_phase BOOTSTRAPPING ''runtime_state'' m) (\<lambda>rs.
      try_bind (field read_opt_str None ''updated_at'' m) (\<lambda>up.
      Inr \<lparr>current_phase = ph, current_prompt = pr, completed_prompts = cs, failed_prompts = fs,
           architecture_version = av, runtime_phase = rs, state_updated_at = up\<rparr>))))))))"

definition read_state :: "state_reader \<Rightarrow> string \<Rightarrow> exn + RuntimeState" where
  "read_state rd raw =
     (case read_json rd raw of Some (PDict m) \<Rightarrow> validate_state rd m | _ \<Rightarrow> Inl invalid)"

definition state_json :: "state_reader \<Rightarrow> state_codec" where
  "state_json rd = \<lparr>encode_state = state_text, decode_state = read_state rd\<rparr>"

section \<open>The round trip\<close>

text \<open>What is relied on of the validation library.\<close>

definition reader_ok :: "state_reader \<Rightarrow> bool" where
  "reader_ok rd \<longleftrightarrow>
     (\<forall>v. json_plain v \<longrightarrow> read_json rd (json_dumps_indented v @ [CHR 0x0A]) = Some (sort_keys v)) \<and>
     (\<forall>i. read_int rd (PInt i) = Some i)"

lemma read_phase_name: "read_phase (PStr (phase_name ph)) = Some ph"
  by (cases ph) (simp_all add: read_phase_def all_phases_def)

lemma read_all_ints: "\<forall>i. f (PInt i) = Some i \<Longrightarrow> read_all f (map PInt is) = Some is"
  by (induction "is") (auto simp: read_all_def comp_def)

lemma state_dump_plain: "json_plain (state_dump s)"
  by (simp add: state_dump_def dict_ok_def list_all_iff split: option.split)

lemma sorted_state_dump:
  "sort_keys (state_dump s) = PDict
     [(''architecture_version'', PStr (architecture_version s)),
      (''completed_prompts'', PList (map PInt (completed_prompts s))),
      (''current_phase'', PInt (current_phase s)), (''current_prompt'', PInt (current_prompt s)),
      (''failed_prompts'', PList (map PInt (failed_prompts s))),
      (''runtime_state'', PStr (phase_name (runtime_phase s))),
      (''updated_at'', (case state_updated_at s of None \<Rightarrow> PNone | Some t \<Rightarrow> PStr t))]"
  by (simp add: state_dump_def comp_def split: option.split)

lemma read_state_text:
  assumes "reader_ok rd"
  shows "read_state rd (state_text s) = Inr s"
proof -
  have ints: "\<forall>i. read_int rd (PInt i) = Some i" using assms by (simp add: reader_ok_def)
  have "read_json rd (state_text s) = Some (sort_keys (state_dump s))"
    using assms state_dump_plain by (simp add: reader_ok_def state_text_def)
  then show ?thesis
    using ints
    by (simp add: read_state_def sorted_state_dump validate_state_def field_def state_fields_def
        read_phase_name read_all_ints split: option.split)
qed

text \<open>The reader built from the decoder of \<open>Json\<close> is one.\<close>

definition strict_reader :: state_reader where
  "strict_reader = \<lparr>read_json = json_loads, read_int = (\<lambda>v. case v of PInt i \<Rightarrow> Some i | _ \<Rightarrow> None)\<rparr>"

lemma strict_reader_ok: "reader_ok strict_reader"
  using json_loads_indented [of _ "[CHR 0x0A]"] by (simp add: strict_reader_def reader_ok_def)

text \<open>
  C28: The state file survives a restart: whatever the state and the system calls do, a save that
  raises leaves every file as it was (but for the temporary file, if its removal raises as well) and
  the next load as before, and after one that returns loading the file gives the state that was saved
  with its time stamp - through the indented JSON text with sorted keys.
\<close>

theorem saved_state_is_loaded:
  assumes "reader_ok rd" "dict_get d (temp_name env) = None" "temp_name env \<noteq> path"
  shows "case save_state env (state_json rd) path s d of
     (Inl e, d') \<Rightarrow>
       dict_get d' = (if unlink_raises env = None then dict_get d else (dict_get d)(temp_name env := dict_get d' (temp_name env))) \<and>
       load_state (state_json rd) path d' = load_state (state_json rd) path d
   | (Inr s', d') \<Rightarrow>
       s' = s\<lparr>state_updated_at := Some (isoformat (save_time env - save_time env mod 1000000))\<rparr> \<and>
       dict_get d' = (dict_get d)(path \<mapsto> state_text s') \<and> load_state (state_json rd) path d' = Inr s'"
proof -
  have "decode_state (state_json rd) (encode_state (state_json rd) (stamped (save_time env) s)) =
      Inr (stamped (save_time env) s)"
    using read_state_text [OF assms(1)] by (simp add: state_json_def)
  note save_is_atomic [OF assms(2,3) this]
  moreover have "encode_state (state_json rd) = state_text" by (simp add: state_json_def)
  ultimately show ?thesis by (simp only:)
qed

theorem saved_state_is_loaded_witness:
  "\<exists>s d. save_state \<lparr>mkdir_raises = None, mkstemp_raises = None, write_raises = None,
        replace_raises = None, unlink_raises = None, temp_name = ''tmp'', save_time = 0\<rparr> (state_json strict_reader) ''state''
        (mark_failed 3 (mark_completed 2 default_state)) [] = (Inr s, d) \<and>
      failed_prompts s = [3] \<and> load_state (state_json strict_reader) ''state'' d = Inr s"
proof -
  let ?env = "\<lparr>mkdir_raises = None, mkstemp_raises = None, write_raises = None,
      replace_raises = None, unlink_raises = None, temp_name = ''tmp'', save_time = 0\<rparr>"
  let ?s = "mark_failed 3 (mark_completed 2 default_state)"
  obtain s d where d: "save_state ?env (state_json strict_reader) ''state'' ?s [] = (Inr s, d)"
    by (simp add: save_state_def Let_def)
  have "failed_prompts ?s = [3]"
    by (simp add: mark_failed_def mark_completed_def default_state_def sorted_with_def)
  with saved_state_is_loaded [OF strict_reader_ok, of "[]" ?env "''state''" ?s] d show ?thesis by simp
qed

text \<open>A file with a field the model does not know is refused, so it is never overwritten by \<open>update\<close>.\<close>

lemma unknown_field_refused:
  assumes "read_json rd raw = Some (PDict m)" "dict_has m k" "k \<notin> set state_fields"
  shows "read_state rd raw = Inl invalid"
  using assms by (auto simp: read_state_def validate_state_def dict_has_def)

lemma unreadable_file_kept:
  assumes "dict_get d path = Some raw" "read_state rd raw = Inl e"
  shows "update_state env (state_json rd) path f d = (Inl e, d)"
  using assms by (simp add: update_state_def load_state_def state_json_def)

end
