(* ===== verification/Stored_Reports.thy ===== *)
theory Stored_Reports
  imports OpenClaw Json
begin

text \<open>
  The report files of \<open>workers/openclaw.py\<close>, with the text the standard library gives them: what
  \<open>_persist_report\<close> stores is read back as the report.
\<close>

text \<open>The worker with the standard library's serializer.\<close>

definition writes_json :: "worker_conf \<Rightarrow> bool" where
  "writes_json cf \<longleftrightarrow> worker_conf.json_dumps cf = json_dumps_indented"

definition artifact_text :: "worker \<Rightarrow> string \<Rightarrow> string option" where
  "artifact_text w uri =
     (case w_artifacts w of
        Some (MemoryStore d) \<Rightarrow> dict_get d (drop (length ''mem://'') uri)
      | _ \<Rightarrow> None)"

lemma report_plain: "json_plain (report_dict r)"
  by (auto simp: report_dict_def step_dict_def dict_ok_def list_all_iff dump_opt_def split: option.split)

text \<open>
  The report a worker with an in-memory store persists for an attempt is stored under the
  address it returns, and its JSON text reads back as the report of that attempt: its task, branch,
  number, outcome, failed step and every recorded step.
\<close>

theorem stored_report_reads_back:
  assumes "writes_json cf" "w_artifacts w = Some (MemoryStore d)"
    and "persist_report cf t branch ok k ss failed w = (Inr arts, w')"
  shows "\<exists>uri text. arts = [uri] \<and> artifact_text w' uri = Some text \<and>
    json_loads text = Some (sort_keys (report_dict
      \<lparr>rep_task_id = task_id t, rep_worker = worker_name, rep_branch = branch, rep_success = ok,
       rep_attempts = k, rep_steps = ss, rep_artifacts = [], rep_error = None, rep_failed_step = failed\<rparr>))"
  using assms json_loads_indented [OF report_plain, of "[]"]
  by (auto simp: persist_report_def artifact_put_def artifact_text_def writes_json_def Let_def)

theorem stored_report_reads_back_witness:
  "let cf = (sample_conf LocalRunner)\<lparr>json_dumps := json_dumps_indented\<rparr>;
       w = sample_worker\<lparr>w_artifacts := Some (MemoryStore [])\<rparr>
   in \<exists>w' text. persist_report cf OpenClaw.test_task ''b'' True 1 [] None w = (Inr [''mem://job/report-attempt-1.json''], w') \<and>
        artifact_text w' ''mem://job/report-attempt-1.json'' = Some text \<and> json_loads text \<noteq> None"
proof -
  let ?cf = "(sample_conf LocalRunner)\<lparr>json_dumps := json_dumps_indented\<rparr>"
  let ?w = "sample_worker\<lparr>w_artifacts := Some (MemoryStore [])\<rparr>"
  have cf: "writes_json ?cf" by (simp add: writes_json_def)
  obtain w' where w': "persist_report ?cf OpenClaw.test_task ''b'' True 1 [] None ?w =
      (Inr [''mem://job/report-attempt-1.json''], w')"
    by (simp add: persist_report_def artifact_put_def OpenClaw.test_task_def int_str_def nat_digits.simps Let_def)
  from stored_report_reads_back [OF cf _ w', of "[]"] w' show ?thesis by (simp add: Let_def) blast
qed

end
