(* ===== verification/Contracts.thy ===== *)
theory Contracts
  imports Configuration
begin

text \<open>
  The tables of \<open>memory/models.py\<close>, and the data that the ports of \<open>contracts/\<close>, \<open>scheduler/\<close> and
  \<open>observability/\<close> exchange, with the defaults of their classes. The ports themselves are abstract: no code implements memory, version
  control, the code executor, schedules or telemetry yet.
\<close>

section \<open>scheduler/cron.py, scheduler/triggers.py\<close>

record CronExpression =
  cron_expression :: string
  cron_timezone :: string

definition new_cron :: "string \<Rightarrow> CronExpression" where
  "new_cron e = \<lparr>cron_expression = e, cron_timezone = ''UTC''\<rparr>"

definition cron_str :: "CronExpression \<Rightarrow> string" where
  "cron_str c = cron_expression c @ '' ('' @ cron_timezone c @ '')''"

datatype Trigger =
    CronTrigger CronExpression
  | IntervalTrigger (interval_us: int) (jitter_us: "int option")
  | OneShotTrigger time
  | EventTrigger (trigger_topic: string) (trigger_event_type: string) (trigger_event_version: "int option")

text \<open>A cron expression has no parenthesis and a timezone no space, so the text tells them apart.\<close>

lemma cron_str_inj:
  assumes "cron_str c = cron_str d"
    and "CHR ''('' \<notin> set (cron_expression c)" "CHR ''('' \<notin> set (cron_expression d)"
  shows "c = d"
proof -
  have split: "takeWhile (\<lambda>ch. ch \<noteq> CHR ''('') (cron_str e) = cron_expression e @ '' '' \<and>
      dropWhile (\<lambda>ch. ch \<noteq> CHR ''('') (cron_str e) = ''('' @ cron_timezone e @ '')''"
    if "CHR ''('' \<notin> set (cron_expression e)" for e
  proof -
    have "takeWhile (\<lambda>ch. ch \<noteq> CHR ''('') (cron_expression e) = cron_expression e"
      using that by (auto simp: takeWhile_eq_all_conv)
    with that show ?thesis
      by (auto simp: cron_str_def takeWhile_append dropWhile_append)
  qed
  from split [OF assms(2)] split [OF assms(3)] assms(1)
  have "cron_expression c @ '' '' = cron_expression d @ '' ''"
    "''('' @ cron_timezone c @ '')'' = ''('' @ cron_timezone d @ '')''" by metis+
  then show ?thesis by simp
qed

section \<open>contracts/memory.py\<close>

record Episode =
  episode_id :: string
  ep_workflow_id :: string
  ep_actor :: string
  occurred_at_unix_ms :: int
  ep_kind :: string
  ep_payload :: "(string, pyval) dict"

record SemanticRecord =
  sr_record_id :: string
  sr_namespace :: string
  sr_text :: string
  sr_embedding :: "rat list"
  sr_metadata :: "(string, pyval) dict"

record SemanticHit =
  hit_record_id :: string
  hit_score :: rat
  hit_text :: string
  hit_metadata :: "(string, pyval) dict"

section \<open>memory/models.py\<close>

text \<open>The tables as the mapped classes declare them: columns and the additional indexes.\<close>

datatype column_type = String_Col nat | Text_Col | BigInteger_Col | JSON_Col | JSONB_Col | DateTime_Col

record column =
  col_name :: string
  col_type :: column_type
  col_primary :: bool
  col_index :: bool
  col_nullable :: bool

definition plain_column :: "string \<Rightarrow> column_type \<Rightarrow> column" where
  "plain_column n t =
     \<lparr>col_name = n, col_type = t, col_primary = False, col_index = False, col_nullable = False\<rparr>"

definition key_column :: "string \<Rightarrow> column_type \<Rightarrow> column" where
  "key_column n t = (plain_column n t)\<lparr>col_primary := True\<rparr>"

definition indexed_column :: "string \<Rightarrow> column_type \<Rightarrow> column" where
  "indexed_column n t = (plain_column n t)\<lparr>col_index := True\<rparr>"

definition nullable_column :: "string \<Rightarrow> column_type \<Rightarrow> column" where
  "nullable_column n t = (plain_column n t)\<lparr>col_nullable := True\<rparr>"

record table_model =
  tbl_name :: string
  tbl_columns :: "column list"
  tbl_indexes :: "(string \<times> string list) list"

definition EpisodeModel :: table_model where
  "EpisodeModel =
     \<lparr>tbl_name = ''episodes'',
      tbl_columns =
        [key_column ''episode_id'' (String_Col 32), indexed_column ''workflow_id'' (String_Col 64),
         plain_column ''actor'' (String_Col 128), indexed_column ''occurred_at_unix_ms'' BigInteger_Col,
         plain_column ''kind'' (String_Col 128), plain_column ''payload'' JSONB_Col],
      tbl_indexes = [(''ix_episodes_workflow_time'', [''workflow_id'', ''occurred_at_unix_ms''])]\<rparr>"

definition WorkflowSnapshotModel :: table_model where
  "WorkflowSnapshotModel =
     \<lparr>tbl_name = ''workflow_snapshots'',
      tbl_columns =
        [key_column ''workflow_id'' (String_Col 64), indexed_column ''definition'' (String_Col 128),
         plain_column ''definition_version'' (String_Col 32), indexed_column ''correlation_id'' (String_Col 64),
         indexed_column ''runtime_state'' (String_Col 32), plain_column ''application_state'' (String_Col 64),
         plain_column ''inputs'' JSONB_Col, nullable_column ''outputs'' JSONB_Col,
         nullable_column ''error'' JSONB_Col, plain_column ''created_at'' DateTime_Col,
         plain_column ''updated_at'' DateTime_Col],
      tbl_indexes = []\<rparr>"

definition SemanticRecordModel :: table_model where
  "SemanticRecordModel =
     \<lparr>tbl_name = ''semantic_records'',
      tbl_columns =
        [key_column ''record_id'' (String_Col 64), indexed_column ''namespace'' (String_Col 128),
         plain_column ''text'' Text_Col, plain_column ''record_metadata'' JSON_Col],
      tbl_indexes = [(''ix_semantic_records_ns'', [''namespace''])]\<rparr>"

text \<open>The names of a table's indexes: the documented default for an indexed column, and the given ones.\<close>

definition index_names :: "table_model \<Rightarrow> string list" where
  "index_names t =
     map (\<lambda>c. ''ix_'' @ tbl_name t @ ''_'' @ col_name c) (filter col_index (tbl_columns t)) @
     map fst (tbl_indexes t)"

lemmas table_models =
  EpisodeModel_def WorkflowSnapshotModel_def SemanticRecordModel_def index_names_def
  plain_column_def key_column_def indexed_column_def nullable_column_def

text \<open>
  The tables can be created together: index names do not clash, every table has one key, and the
  additional indexes are over columns it has. Every state of a workflow fits its column.
\<close>

lemma tables_consistent:
  "distinct (concat (map index_names [EpisodeModel, WorkflowSnapshotModel, SemanticRecordModel]))"
  "list_all (\<lambda>t. length (filter col_primary (tbl_columns t)) = 1 \<and> distinct (map col_name (tbl_columns t)) \<and>
     list_all (\<lambda>i. set (snd i) \<subseteq> set (map col_name (tbl_columns t))) (tbl_indexes t))
     [EpisodeModel, WorkflowSnapshotModel, SemanticRecordModel]"
  by (simp_all add: table_models)

lemma workflow_state_fits:
  "\<exists>c \<in> set (tbl_columns WorkflowSnapshotModel). col_name c = ''runtime_state'' \<and>
     (\<exists>n. col_type c = String_Col n \<and> length (workflow_state_value st) \<le> n)"
  by (cases st) (simp_all add: table_models)

section \<open>contracts/vcs.py\<close>

record RepoRef =
  repo_provider :: string
  repo_owner :: string
  repo_name :: string
  default_branch :: string

record PullRequestRef =
  pr_repo :: RepoRef
  pr_number :: int
  head_sha :: string
  base_branch :: string
  head_branch :: string

record FileDiff =
  diff_path :: string
  diff_status :: string
  additions :: int
  deletions :: int
  diff_patch :: "string option"

section \<open>contracts/agent.py, contracts/workflow.py, contracts/task_runner.py, contracts/code_executor.py\<close>

record AgentRunContext =
  ctx_run_id :: string
  ctx_workflow_id :: string
  ctx_correlation_id :: string
  ctx_tenant_id :: "string option"
  ctx_actor :: string
  deadline_unix_ms :: "int option"
  ctx_metadata :: "(string, pyval) dict"

record WorkflowHandle =
  wh_workflow_id :: string
  wh_definition :: string
  wh_version :: string
  wh_state :: WorkflowState
  wh_correlation_id :: string

record TaskHandle =
  th_task_id :: string
  th_queue :: string
  submitted_at :: time

record ExecutionRequest =
  ex_language :: string
  ex_entrypoint :: "string list"
  ex_sources :: "(string, string) dict"
  ex_env :: "(string, string) dict"
  ex_timeout_seconds :: int

definition new_execution_request :: "string \<Rightarrow> string list \<Rightarrow> (string, string) dict \<Rightarrow> ExecutionRequest" where
  "new_execution_request lang entry srcs =
     \<lparr>ex_language = lang, ex_entrypoint = entry, ex_sources = srcs, ex_env = [], ex_timeout_seconds = 60\<rparr>"

record CodeExecutionReport =
  cr_success :: bool
  cr_exit_code :: int
  cr_stdout :: string
  cr_stderr :: string
  cr_duration_ms :: int
  diagnostics :: "(string, string) dict list"

section \<open>workflows/base.py\<close>

record WorkflowInstance =
  wi_workflow_id :: string
  wi_definition :: string
  wi_definition_version :: string
  wi_correlation_id :: string
  wi_runtime_state :: WorkflowState
  wi_application_state :: string
  wi_created_at :: time
  wi_updated_at :: time
  wi_inputs :: "(string, pyval) dict"
  wi_context :: "(string, pyval) dict"
  wi_outputs :: "(string, pyval) dict option"
  wi_error :: "(string, pyval) dict option"

section \<open>observability\<close>

datatype HealthStatus = HS_OK | HS_DEGRADED | HS_DOWN

fun health_status_value :: "HealthStatus \<Rightarrow> string" where
  "health_status_value HS_OK = ''ok''"
| "health_status_value HS_DEGRADED = ''degraded''"
| "health_status_value HS_DOWN = ''down''"

record HealthReport =
  hr_component :: string
  hr_status :: HealthStatus
  hr_detail :: string
  hr_attributes :: "(string, string) dict"

definition new_health_report :: "string \<Rightarrow> HealthStatus \<Rightarrow> HealthReport" where
  "new_health_report c s = \<lparr>hr_component = c, hr_status = s, hr_detail = [], hr_attributes = []\<rparr>"

datatype MetricKind = COUNTER | HISTOGRAM | GAUGE | UP_DOWN_COUNTER

fun metric_kind_value :: "MetricKind \<Rightarrow> string" where
  "metric_kind_value COUNTER = ''counter''"
| "metric_kind_value HISTOGRAM = ''histogram''"
| "metric_kind_value GAUGE = ''gauge''"
| "metric_kind_value UP_DOWN_COUNTER = ''up_down_counter''"

record MetricSpec =
  metric_name :: string
  metric_kind :: MetricKind
  metric_description :: string
  metric_unit :: string

definition new_metric :: "string \<Rightarrow> MetricKind \<Rightarrow> MetricSpec" where
  "new_metric n k = \<lparr>metric_name = n, metric_kind = k, metric_description = [], metric_unit = []\<rparr>"

record AuditEntry =
  au_actor :: string
  au_action :: string
  au_resource :: string
  au_occurred_at :: time
  au_correlation_id :: string
  au_outcome :: string
  au_attributes :: "(string, pyval) dict"

datatype SpanKind = SK_INTERNAL | SK_SERVER | SK_CLIENT | SK_PRODUCER | SK_CONSUMER

fun span_kind_value :: "SpanKind \<Rightarrow> string" where
  "span_kind_value SK_INTERNAL = ''internal''"
| "span_kind_value SK_SERVER = ''server''"
| "span_kind_value SK_CLIENT = ''client''"
| "span_kind_value SK_PRODUCER = ''producer''"
| "span_kind_value SK_CONSUMER = ''consumer''"

lemma observability_values_inj:
  "health_status_value a = health_status_value b \<longleftrightarrow> a = b"
  "metric_kind_value k = metric_kind_value l \<longleftrightarrow> k = l"
  "span_kind_value s = span_kind_value t \<longleftrightarrow> s = t"
  by ((cases a; cases b; simp), (cases k; cases l; simp), (cases s; cases t; simp))

end
