(* ===== verification/Wired_Runtime.thy ===== *)
theory Wired_Runtime
  imports Composition OpenAI_Adapter
begin

text \<open>
  The assembled runtime with its vendors: the adapters that \<open>runtime/composition.py\<close> builds from the
  keys, put behind the registered providers. The requests then leave through the clients of the
  adapters, each with the model its configuration names.
\<close>

text \<open>The adapter behind a provider. The local fallback has none.\<close>

definition provider_adapter :: "ProvidersConfig \<Rightarrow> string \<Rightarrow> openai_adapter option" where
  "provider_adapter cfg nm =
     (if nm = ''openrouter'' then
        map_option (\<lambda>key. from_api_key key (openrouter_model cfg) (Some (openrouter_base_url cfg)) 60
            (Some [(''HTTP-Referer'', referer cfg), (''X-Title'', ''HookClose'')]))
          (non_empty (openrouter_api_key cfg))
      else if nm = ''openai'' then
        map_option (\<lambda>key. from_api_key key (openai_model cfg) None 60 None) (non_empty (openai_api_key cfg))
      else None)"

text \<open>\<open>send a n\<close> is what the client of adapter \<open>a\<close> does at interaction \<open>n\<close>.\<close>

definition wired_vendor ::
  "ProvidersConfig \<Rightarrow> (openai_adapter \<Rightarrow> nat \<Rightarrow> chat_client) \<Rightarrow> string \<Rightarrow> LLMRequest \<Rightarrow> nat \<Rightarrow> exn + LLMResponse" where
  "wired_vendor cfg send nm req n =
     (case provider_adapter cfg nm of
        Some a \<Rightarrow> openai_complete (oa_default_model a) (send a n) req
      | None \<Rightarrow> Inl (PyExn ''AttributeError'' ''no adapter''))"

definition wired_env ::
  "ProvidersConfig \<Rightarrow> (nat \<Rightarrow> time) \<Rightarrow> (openai_adapter \<Rightarrow> nat \<Rightarrow> chat_client) \<Rightarrow> environment" where
  "wired_env cfg now send = \<lparr>clock = now, vendor = wired_vendor cfg send\<rparr>"

lemma check_fresh:
  assumes "\<forall>nm \<in> set nms. \<exists>p. dict_get reg nm = Some p \<and> health p = new_health \<and> daily_token_budget (profile p) = None"
  shows "\<exists>n'. check_available env nms reg n = (nms, reg, n')"
  using assms
proof (induction nms arbitrary: n)
  case (Cons nm nms)
  then obtain p where p: "dict_get reg nm = Some p" "health p = new_health" "daily_token_budget (profile p) = None"
    by auto
  obtain n' where "check_available env nms reg (n + 1) = (nms, reg, n')" using Cons by fastforce
  moreover have "is_available env n p = (True, p, n + 1)"
    using p(2) by (simp add: is_available_simp refresh_def new_health_def)
  ultimately show ?case
    using p by (simp add: dict_set_same has_budget_def remaining_budget_def)
qed simp

lemma configured_order:
  assumes "has_key (openrouter_api_key cfg)" "has_key (openai_api_key cfg)" "c \<in> general_caps"
  shows "\<exists>rest. map provider_name (for_capability (configured cfg) c) = ''openrouter'' # ''openai'' # rest"
  using assms by (auto simp: general_caps_def configured_def new_provider_def composition_profiles
      for_capability_def ordered_def supports_def order_key_def less_eq_prod_def less_prod_def)

lemma configured_candidates:
  assumes "has_key (openrouter_api_key cfg)" "has_key (openai_api_key cfg)" "c \<in> general_caps"
    and "mgr_registry m = configured cfg"
  shows "\<exists>rest n'. candidates env c None m = (''openrouter'' # ''openai'' # rest,
     m\<lparr>mgr_registry := configured cfg, moment := n'\<rparr>)"
proof -
  let ?nms = "map provider_name (for_capability (configured cfg) c)"
  have "\<forall>nm \<in> set ?nms. \<exists>p. dict_get (configured cfg) nm = Some p \<and> health p = new_health \<and>
      daily_token_budget (profile p) = None"
    by (auto simp: set_for_capability configured_def new_provider_def composition_profiles)
  then obtain n' where "check_available env ?nms (configured cfg) (moment m) = (?nms, configured cfg, n')"
    using check_fresh by blast
  with configured_order [OF assms(1-3)] assms(4) show ?thesis
    by (auto simp: candidates_def ordered_names_None simp del: check_available.simps)
qed

text \<open>Two attempts at a fresh provider: the account is empty, and an answer.\<close>

lemma attempt_exhausted:
  assumes "vendor env (provider_name p) req (moment m + 1) = Inl (map_error e)"
    and "backend p = AdapterBackend" "health p = new_health" "throttled e" "quota_error e"
  shows "\<exists>p'. attempt env req nm p m = (Inl (Exn ProviderCreditExhaustedError (sdk_text e)), p',
       m\<lparr>mgr_registry := dict_set nm p' (mgr_registry m), moment := moment m + 3\<rparr>) \<and>
     profile p' = profile p \<and> status p' = OFFLINE"
  using assms by (simp add: attempt_def complete_def invoke_def complete_at_def is_available_at_def refresh_def
      new_health_def map_error_def throttled_def quota_error_def wrap_exn_def record_failure_def Let_def)

lemma attempt_answered:
  assumes "vendor env (provider_name p) req (moment m + 1) = Inr resp"
    and "backend p = AdapterBackend" "health p = new_health"
  shows "\<exists>p'. attempt env req nm p m = (Inr resp, p',
       m\<lparr>mgr_registry := dict_set nm p' (mgr_registry m), moment := moment m + 3\<rparr>) \<and>
     profile p' = profile p \<and> status p' = AVAILABLE"
  using assms by (simp add: attempt_def complete_def invoke_def complete_at_def is_available_at_def refresh_def
      new_health_def wrap_exn_def record_success_def Let_def)

text \<open>
  C29: A runtime configured with both keys, whose OpenRouter account is out of credit: a request is
  sent to OpenRouter's client with OpenRouter's model, the refusal is understood, and the request is
  sent once more, to the OpenAI client with OpenAI's model. The caller gets that answer after two
  attempts; OpenRouter is offline, in the registry and in the store.
\<close>

theorem exhausted_openrouter_fails_over:
  assumes "build_runtime cfg bus store = Inr rt" "openrouter_api_key cfg = Some k1" "openai_api_key cfg = Some k2"
    and "k1 \<noteq> []" "k2 \<noteq> []" "c \<in> general_caps"
    and "provider_adapter cfg ''openrouter'' = Some a1" "provider_adapter cfg ''openai'' = Some a2"
    and "\<And>n. send a1 n (build_kwargs (openrouter_model cfg) req) = Inl e" "throttled e" "quota_error e"
    and "\<And>n. send a2 n (build_kwargs (openai_model cfg) req) = Inr resp" "choices resp = ch # chs"
  shows "\<exists>res m' p h. manager_complete (wired_env cfg now send) req c None (rt_manager rt) = (Inr res, m') \<and>
     inv_provider res = ''openai'' \<and> failed_over_from res = [''openrouter''] \<and> inv_attempts res = 2 \<and>
     inv_content res = or_text (choice_content ch) [] \<and>
     dict_get (mgr_registry m') ''openrouter'' = Some p \<and> status p = OFFLINE \<and>
     store_load (mgr_store m') ''openrouter'' = Some h \<and> health_status h = OFFLINE"
proof -
  let ?env = "wired_env cfg now send" and ?m = "rt_manager rt"
  have reg: "mgr_registry ?m = configured cfg"
    using assms(1) by (auto simp: build_runtime_def build_registry_configured)
  have keys: "has_key (openrouter_api_key cfg)" "has_key (openai_api_key cfg)"
    using assms(2-5) by (simp_all add: has_key_def non_empty_def)
  let ?p1 = "new_provider openrouter_profile AdapterBackend" and ?p2 = "new_provider openai_profile AdapterBackend"
  have gets: "dict_get (configured cfg) ''openrouter'' = Some ?p1" "dict_get (configured cfg) ''openai'' = Some ?p2"
    using keys by (simp_all add: configured_def)
  have names: "provider_name ?p1 = ''openrouter''" "provider_name ?p2 = ''openai''"
    by (simp_all add: new_provider_def composition_profiles)
  have models: "oa_default_model a1 = openrouter_model cfg" "oa_default_model a2 = openai_model cfg"
    using assms(7,8) by (auto simp: provider_adapter_def from_api_key_def)
  let ?ans = "\<lambda>n. wired_vendor cfg send ''openai'' req n"
  have v1: "vendor ?env ''openrouter'' req n = Inl (map_error e)" for n
    using assms(7,9) models by (simp add: wired_env_def wired_vendor_def openai_complete_def)
  obtain r where v2: "vendor ?env ''openai'' req n = Inr r" and r: "resp_content r = or_text (choice_content ch) []" for n
    using assms(8,12,13) models by (simp add: wired_env_def wired_vendor_def openai_complete_def)
  obtain rest n' where cand: "candidates ?env c None ?m =
      (''openrouter'' # ''openai'' # rest, ?m\<lparr>mgr_registry := configured cfg, moment := n'\<rparr>)"
    using configured_candidates [OF keys assms(6) reg] by blast
  let ?m1 = "emit (ProviderSelected ''openrouter'' (capability_value c) (int 1))
      (?m\<lparr>mgr_registry := configured cfg, moment := n'\<rparr>)"
  obtain q1 where a1: "attempt ?env req ''openrouter'' ?p1 ?m1 = (Inl (Exn ProviderCreditExhaustedError (sdk_text e)), q1,
      ?m1\<lparr>mgr_registry := dict_set ''openrouter'' q1 (mgr_registry ?m1), moment := moment ?m1 + 3\<rparr>)"
    "profile q1 = openrouter_profile" "status q1 = OFFLINE"
    using attempt_exhausted [of ?env ?p1 req ?m1 e "''openrouter''"] v1 names assms(10,11)
    by (auto simp: new_provider_def)
  let ?m2 = "emit (ProviderSelected ''openai'' (capability_value c) (int 2))
      (on_failure q1 c ProviderCreditExhaustedError (sdk_text e)
        (?m1\<lparr>mgr_registry := dict_set ''openrouter'' q1 (mgr_registry ?m1), moment := moment ?m1 + 3\<rparr>))"
  obtain q2 where a2: "attempt ?env req ''openai'' ?p2 ?m2 = (Inr r, q2,
      ?m2\<lparr>mgr_registry := dict_set ''openai'' q2 (mgr_registry ?m2), moment := moment ?m2 + 3\<rparr>)"
    "profile q2 = openai_profile"
    using attempt_answered [of ?env ?p2 req ?m2 r "''openai''"] v2 names by (auto simp: new_provider_def)
  have q: "provider_name q1 = ''openrouter''" "provider_name q2 = ''openai''"
    using a1(2) a2(2) by (simp_all add: composition_profiles)
  have reg2: "dict_get (mgr_registry ?m2) ''openai'' = Some ?p2" by (simp add: gets)
  show ?thesis
    using a1 a2 q gets reg2 r
    by (simp add: manager_complete_def cand names numeral_2_eq_2 store_load_def store_save_def snapshot_def)
qed

definition both_keys :: ProvidersConfig where
  "both_keys = default_config\<lparr>openrouter_api_key := Some ''k1'', openai_api_key := Some ''k2''\<rparr>"

definition no_credit :: sdk_error where
  "no_credit = \<lparr>sdk_type = ''RateLimitError'', sdk_text = ''insufficient_quota'', status_code = Some 429\<rparr>"

definition fine_response :: sdk_response where
  "fine_response =
     \<lparr>choices = [\<lparr>choice_content = Some ''ok'', choice_finish = None\<rparr>], sdk_model = None,
      sdk_usage_field = None\<rparr>"

text \<open>Only the OpenRouter adapter has a base address of its own.\<close>

definition poor_router :: "openai_adapter \<Rightarrow> nat \<Rightarrow> chat_client" where
  "poor_router a n kw = (if oa_base_url a = None then Inr fine_response else Inl no_credit)"

theorem exhausted_openrouter_fails_over_witness:
  "\<exists>rt res m'. build_runtime both_keys None [] = Inr rt \<and>
     manager_complete (wired_env both_keys int poor_router) hello_request REVIEW None (rt_manager rt) = (Inr res, m') \<and>
     inv_provider res = ''openai'' \<and> inv_content res = ''ok''"
proof -
  obtain rt where rt: "build_runtime both_keys None [] = Inr rt"
    by (simp add: build_runtime_def build_registry_configured)
  obtain a1 a2 where a: "provider_adapter both_keys ''openrouter'' = Some a1"
    "provider_adapter both_keys ''openai'' = Some a2" "oa_base_url a1 \<noteq> None" "oa_base_url a2 = None"
    by (simp add: provider_adapter_def both_keys_def default_config_def non_empty_def from_api_key_def)
  have "throttled no_credit" "quota_error no_credit"
    by (simp_all add: throttled_def quota_error_def no_credit_def lower_char_def; code_simp)+
  with exhausted_openrouter_fails_over [OF rt _ _ _ _ _ a(1,2), of "''k1''" "''k2''" REVIEW poor_router
      hello_request no_credit fine_response _ "[]" int] a rt show ?thesis
    by (auto simp: general_caps_def or_text_def poor_router_def both_keys_def fine_response_def)
qed

end
