(* ===== verification/Manager_Calls.thy ===== *)
theory Manager_Calls
  imports Provider_Manager
begin

text \<open>
  The calls of a provider manager, await by await. \<open>Provider_Manager\<close> models \<open>complete\<close> as one operation;
  here it is cut at its awaits (\<open>providers/manager.py\<close>, \<open>providers/base.py\<close>): the publication of an
  event, the call of the vendor and the saving of a health record. What lies between two awaits is one
  step. Shown: an undisturbed call is \<open>manager_complete\<close>.
\<close>

section \<open>The steps of a call\<close>

text \<open>The variables of the loop: all candidates, the attempt, the providers failed over from, this
  provider, and the candidates left.\<close>

record progress =
  pr_chosen :: "string list"
  pr_attempt :: nat
  pr_failed :: "string list"
  pr_current :: string
  pr_left :: "string list"

text \<open>
  Where a call waits: before it is started; for the bus that publishes the selection; for the vendor;
  for the store and the bus after an error; for the store after a response. \<open>C_Cancelled\<close>: the task
  that awaits the call was cancelled.
\<close>

datatype call =
    C_Start
  | C_Ask progress
  | C_Wait progress
  | C_Saved progress error_class string
  | C_Told progress error_class
  | C_Credit progress error_class
  | C_Next progress
  | C_Kept progress LLMResponse
  | C_Done "string list" "exn + ProviderInvocation"
  | C_Cancelled

fun next_candidate ::
  "Capability \<Rightarrow> string list \<Rightarrow> nat \<Rightarrow> string list \<Rightarrow> string list \<Rightarrow> manager \<Rightarrow> call \<times> manager" where
  "next_candidate c cs k failed [] m =
     (C_Done cs (Inl (exhausted_error (length cs) c)),
      emit (AllProvidersExhausted (capability_value c) failed) m)"
| "next_candidate c cs k failed (nm # nms) m =
     (case dict_get (mgr_registry m) nm of
        None \<Rightarrow> next_candidate c cs k failed nms m
      | Some p \<Rightarrow>
          (C_Ask \<lparr>pr_chosen = cs, pr_attempt = k, pr_failed = failed, pr_current = nm, pr_left = nms\<rparr>,
           emit (ProviderSelected (provider_name p) (capability_value c) (int k)) m))"

text \<open>The provider of this attempt as it is now: calls share the objects of the registry.\<close>

definition live :: "manager \<Rightarrow> progress \<Rightarrow> provider" where
  "live m pr = the (dict_get (mgr_registry m) (pr_current pr))"

definition put_live :: "progress \<Rightarrow> provider \<Rightarrow> manager \<Rightarrow> manager" where
  "put_live pr p m = m\<lparr>mgr_registry := dict_set (pr_current pr) p (mgr_registry m)\<rparr>"

definition go_on :: "Capability \<Rightarrow> progress \<Rightarrow> manager \<Rightarrow> call \<times> manager" where
  "go_on c pr m =
     next_candidate c (pr_chosen pr) (pr_attempt pr + 1) (pr_failed pr @ [provider_name (live m pr)])
       (pr_left pr) m"

text \<open>The end of \<open>_on_failure\<close>; without an event the loop goes on at once.\<close>

definition tell_cooldown :: "Capability \<Rightarrow> progress \<Rightarrow> error_class \<Rightarrow> manager \<Rightarrow> call \<times> manager" where
  "tell_cooldown c pr cls m =
     (let p = live m pr in
      if status p \<in> {COOLDOWN, RATE_LIMITED, OFFLINE, FAILED}
      then (C_Next pr, emit (ProviderCooldownEntered (provider_name p) (status_value (status p))
                               (map_option isoformat (cooldown_until (health p))) (err_code cls)) m)
      else go_on c pr m)"

text \<open>Asking: the check of \<open>BaseProvider.complete\<close>, and the count of the request.\<close>

definition ask_step :: "environment \<Rightarrow> progress \<Rightarrow> manager \<Rightarrow> call \<times> manager" where
  "ask_step env pr m =
     (case is_available_at (clock env (moment m)) (live m pr) of (ok, p) \<Rightarrow>
        if ok then
          (C_Wait pr,
           put_live pr (p\<lparr>health := (health p)\<lparr>total_requests := total_requests (health p) + 1\<rparr>\<rparr>)
             (m\<lparr>moment := moment m + 1\<rparr>))
        else
          (case unavailable_error p of
             Exn cls msg \<Rightarrow> (C_Saved pr cls msg, save_health p (put_live pr p (m\<lparr>moment := moment m + 3\<rparr>)))
           | e \<Rightarrow> (C_Done (pr_chosen pr) (Inl e), m)))"

text \<open>The vendor's answer: the outcome is recorded and handed to the store.\<close>

definition answer_step :: "environment \<Rightarrow> LLMRequest \<Rightarrow> progress \<Rightarrow> manager \<Rightarrow> call \<times> manager" where
  "answer_step env req pr m =
     (let p = live m pr; now = clock env (moment m + 1); m1 = m\<lparr>moment := moment m + 2\<rparr> in
      case invoke env (moment m) p req of
        Inr r \<Rightarrow>
          (let p' = record_success now r p in (C_Kept pr r, save_health p' (put_live pr p' m1)))
      | Inl (Exn cls msg) \<Rightarrow>
          if issubclass cls ProviderError
          then (let p' = record_failure now cls msg p in
                (C_Saved pr cls msg, save_health p' (put_live pr p' m1)))
          else (C_Done (pr_chosen pr) (Inl (Exn cls msg)), m1)
      | Inl (PyExn n msg) \<Rightarrow> (C_Done (pr_chosen pr) (Inl (PyExn n msg)), m1))"

fun call_step ::
  "environment \<Rightarrow> LLMRequest \<Rightarrow> Capability \<Rightarrow> string list option \<Rightarrow> call \<Rightarrow> manager \<Rightarrow> call \<times> manager" where
  "call_step env req c order C_Start m =
     (case candidates env c order m of (cs, m1) \<Rightarrow>
        if cs = [] then
          (C_Done [] (Inl (none_available_error c)), emit (AllProvidersExhausted (capability_value c) []) m1)
        else next_candidate c cs 1 [] cs m1)"
| "call_step env req c order (C_Ask pr) m = ask_step env pr m"
| "call_step env req c order (C_Wait pr) m = answer_step env req pr m"
| "call_step env req c order (C_Saved pr cls msg) m =
     (C_Told pr cls,
      emit (ProviderFailedOver (provider_name (live m pr)) (capability_value c) msg (err_code cls)) m)"
| "call_step env req c order (C_Told pr cls) m =
     (if issubclass cls ProviderCreditExhaustedError
      then (C_Credit pr cls, emit (ProviderCreditExhausted (provider_name (live m pr))) m)
      else tell_cooldown c pr cls m)"
| "call_step env req c order (C_Credit pr cls) m = tell_cooldown c pr cls m"
| "call_step env req c order (C_Next pr) m = go_on c pr m"
| "call_step env req c order (C_Kept pr r) m =
     (C_Done (pr_chosen pr)
        (Inr \<lparr>inv_provider = provider_name (live m pr), inv_content = resp_content r,
              inv_total_tokens = total_tokens (usage r), inv_attempts = pr_attempt pr,
              failed_over_from = pr_failed pr\<rparr>),
      emit (ProviderInvocationSucceeded (provider_name (live m pr)) (capability_value c)
              (total_tokens (usage r))) m)"
| "call_step env req c order pc m = (pc, m)"

section \<open>An undisturbed call\<close>

definition alone ::
  "environment \<Rightarrow> LLMRequest \<Rightarrow> Capability \<Rightarrow> string list option \<Rightarrow> nat \<Rightarrow> call \<times> manager \<Rightarrow> call \<times> manager" where
  "alone env req c order n = (case_prod (call_step env req c order)) ^^ n"

lemma alone_simps [simp]:
  "alone env req c order 0 s = s"
  "alone env req c order (Suc n) (pc, m) = alone env req c order n (call_step env req c order pc m)"
  by (simp_all add: alone_def funpow_swap1 del: funpow.simps(2)) (simp add: funpow_Suc_right del: funpow.simps(2))

definition ends ::
  "environment \<Rightarrow> LLMRequest \<Rightarrow> Capability \<Rightarrow> string list option \<Rightarrow> call \<times> manager \<Rightarrow> call \<times> manager \<Rightarrow> bool" where
  "ends env req c order s t \<longleftrightarrow> (\<exists>n. alone env req c order n s = t)"

lemma ends_refl: "ends env req c order s s"
  unfolding ends_def by (metis alone_simps(1))

lemma ends_step: "ends env req c order (call_step env req c order pc m) t \<Longrightarrow> ends env req c order (pc, m) t"
  unfolding ends_def by (metis alone_simps(2))

lemma live_simps [simp]:
  "live (emit e m) pr = live m pr" "live (save_health p m) pr = live m pr"
  "live (put_live pr p m) pr = p" "live (m\<lparr>moment := n\<rparr>) pr = live m pr"
  by (simp_all add: live_def put_live_def)

lemma put_live_simps [simp]:
  "mgr_registry (put_live pr p m) = dict_set (pr_current pr) p (mgr_registry m)"
  "mgr_store (put_live pr p m) = mgr_store m" "mgr_bus (put_live pr p m) = mgr_bus m"
  "moment (put_live pr p m) = moment m"
  by (simp_all add: put_live_def)

lemma ends_tell:
  assumes "ends env req c order (go_on c pr (if status (live m pr) \<in> {COOLDOWN, RATE_LIMITED, OFFLINE, FAILED}
      then emit (ProviderCooldownEntered (provider_name (live m pr)) (status_value (status (live m pr)))
             (map_option isoformat (cooldown_until (health (live m pr)))) (err_code cls)) m
      else m)) t"
  shows "ends env req c order (tell_cooldown c pr cls m) t"
  using assms by (auto simp: tell_cooldown_def Let_def intro!: ends_step)

lemma ends_failure:
  assumes "live m pr = p"
    and "ends env req c order (next_candidate c (pr_chosen pr) (pr_attempt pr + 1)
      (pr_failed pr @ [provider_name p]) (pr_left pr) (on_failure p c cls msg m)) t"
  shows "ends env req c order (C_Saved pr cls msg, save_health p m) t"
  using assms by (auto intro!: ends_step ends_tell simp: on_failure_def Let_def go_on_def)

text \<open>Where a call is after its provider's turn, from the result of the turn.\<close>

fun after_turn :: "progress \<Rightarrow> exn + LLMResponse \<Rightarrow> provider \<Rightarrow> manager \<Rightarrow> call \<times> manager" where
  "after_turn pr (Inr r) p m = (C_Kept pr r, save_health p m)"
| "after_turn pr (Inl e) p m =
     (case e of
        Exn cls msg \<Rightarrow>
          if issubclass cls ProviderError then (C_Saved pr cls msg, save_health p m)
          else (C_Done (pr_chosen pr) (Inl e), m)
      | PyExn n msg \<Rightarrow> (C_Done (pr_chosen pr) (Inl e), m))"

lemma attempt_live:
  "attempt env req (pr_current pr) p m =
     (case complete_at (clock env (moment m)) (invoke env (moment m + 1) p req) (clock env (moment m + 2)) p of
        (r, p') \<Rightarrow> (r, p', put_live pr p' (m\<lparr>moment := moment m + 3\<rparr>)))"
  by (simp add: attempt_def complete_def put_live_def split: prod.split)

lemma invoke_after_check:
  "is_available_at t p = (ok, p1) \<Longrightarrow> invoke env n (p1\<lparr>health := h\<rparr>) req = invoke env n p req"
  by (auto simp: invoke_def is_available_at_def refresh_def Let_def split: if_splits backend.split)

lemma put_live_again: "put_live pr q (put_live pr p m) = put_live pr q m"
  by (simp add: put_live_def)

lemma answered_turn:
  assumes "is_available_at (clock env (moment m)) p = (True, p1)" "live m pr = p"
    and "attempt env req (pr_current pr) p m = (res, p', m')"
  shows "case_prod (call_step env req c order) (call_step env req c order (C_Ask pr) m) = after_turn pr res p' m'"
proof -
  define p2 where "p2 = p1\<lparr>health := (health p1)\<lparr>total_requests := total_requests (health p1) + 1\<rparr>\<rparr>"
  define out where "out = invoke env (moment m + 1) p req"
  define now where "now = clock env (moment m + 2)"
  define m2 where "m2 = put_live pr p2 (m\<lparr>moment := moment m + 1\<rparr>)"
  let ?m3 = "m\<lparr>moment := moment m + 3\<rparr>"
  have ask: "ask_step env pr m = (C_Wait pr, m2)"
    using assms(1,2) by (simp add: ask_step_def p2_def m2_def)
  have m2: "m2\<lparr>moment := n\<rparr> = put_live pr p2 (m\<lparr>moment := n\<rparr>)" "live m2 pr = p2" "moment m2 = moment m + 1" for n
    by (simp_all add: m2_def put_live_def live_def)
  have inv: "invoke env (moment m + 1) p2 req = out"
    unfolding out_def p2_def by (rule invoke_after_check [OF assms(1)])
  have ans: "answer_step env req pr m2 =
     (case out of
        Inr r \<Rightarrow> after_turn pr (Inr r) (record_success now r p2) (put_live pr (record_success now r p2) ?m3)
      | Inl (Exn cls msg) \<Rightarrow>
          (let p3 = (if issubclass cls ProviderError then record_failure now cls msg p2 else p2)
           in after_turn pr (Inl (Exn cls msg)) p3 (put_live pr p3 ?m3))
      | Inl e \<Rightarrow> after_turn pr (Inl e) p2 (put_live pr p2 ?m3))"
    using inv
    by (cases out) (auto simp: answer_step_def m2 put_live_again now_def Let_def numeral_3_eq_3
        simp del: issubclass_ProviderError split: exn.split)
  have att: "attempt env req (pr_current pr) p m =
     (case complete_at (clock env (moment m)) out now p of (r, p') \<Rightarrow> (r, p', put_live pr p' ?m3))"
    unfolding attempt_live out_def now_def ..
  show ?thesis
    using assms(3) unfolding att
    by (cases out) (auto simp: ask ans complete_at_def assms(1) p2_def [symmetric] Let_def
        simp del: issubclass_ProviderError after_turn.simps split: exn.splits if_splits)
qed

lemma ends_turn:
  assumes "live m pr = p" "attempt env req (pr_current pr) p m = (res, p', m')"
    and "ends env req c order (after_turn pr res p' m') t"
  shows "ends env req c order (C_Ask pr, m) t"
proof -
  obtain ok p1 where av: "is_available_at (clock env (moment m)) p = (ok, p1)" by fastforce
  show ?thesis
  proof (cases ok)
    case True
    obtain pc m1 where ask: "call_step env req c order (C_Ask pr) m = (pc, m1)" by fastforce
    with answered_turn [of env m p p1 pr req res p' m' c order] av True assms
    have "ends env req c order (call_step env req c order pc m1) t" by simp
    then show ?thesis by (intro ends_step) (simp only: ask ends_step)
  next
    case False
    obtain msg where msg: "unavailable_error p1 = Exn ProviderUnavailable msg" by (simp add: unavailable_error_def)
    with False av assms have "after_turn pr res p' m' = call_step env req c order (C_Ask pr) m"
      by (auto simp: attempt_live complete_at_def ask_step_def)
    with assms(3) show ?thesis by (auto intro: ends_step)
  qed
qed

lemma ends_try:
  "ends env req c order (next_candidate c cs k failed nms m)
     (apfst (C_Done cs) (try_candidates env req c (length cs) k failed nms m))"
proof (induction nms arbitrary: k failed m)
  case Nil
  then show ?case by (auto intro: ends_refl)
next
  case (Cons nm nms)
  show ?case
  proof (cases "dict_get (mgr_registry m) nm")
    case None
    with Cons show ?thesis by simp
  next
    case (Some p)
    let ?pr = "\<lparr>pr_chosen = cs, pr_attempt = k, pr_failed = failed, pr_current = nm, pr_left = nms\<rparr>"
    let ?m = "emit (ProviderSelected (provider_name p) (capability_value c) (int k)) m"
    obtain res p' m' where att: "attempt env req nm p ?m = (res, p', m')" by (metis prod_cases3)
    have live: "live ?m ?pr = p" "live m' ?pr = p'"
      using Some att by (auto simp: live_def attempt_def split: prod.splits)
    let ?t = "apfst (C_Done cs) (try_candidates env req c (length cs) k failed (nm # nms) m)"
    have "ends env req c order (after_turn ?pr res p' m') ?t"
    proof (cases res)
      case (Inr r)
      with Some att live show ?thesis by (auto simp: Let_def intro!: ends_step ends_refl)
    next
      case (Inl e)
      with Some att ends_failure [OF live(2), of env req c order] Cons.IH show ?thesis
        by (cases e) (auto simp: Let_def ends_refl simp del: issubclass_ProviderError)
    qed
    then have "ends env req c order (C_Ask ?pr, ?m) ?t"
      using ends_turn [OF live(1), of env req res p' m' c order ?t] att by simp
    with Some show ?thesis by simp
  qed
qed

text \<open>
  A call that nobody interrupts ends after finitely many steps, and its steps together are
  exactly \<open>manager_complete\<close>: the same result or error, the same events, health, store and clock
  readings, whatever the vendors answer.
\<close>

theorem undisturbed_call:
  "\<exists>n cs. alone env req c order n (C_Start, m) =
     (C_Done cs (fst (manager_complete env req c order m)), snd (manager_complete env req c order m))"
proof -
  obtain cs m1 where cand: "candidates env c order m = (cs, m1)" by fastforce
  have "ends env req c order (call_step env req c order C_Start m)
      (apfst (C_Done cs) (manager_complete env req c order m))"
    using ends_try [of env req c order cs 1 "[]" cs m1]
    by (auto simp: cand manager_complete_def ends_refl simp del: try_candidates.simps next_candidate.simps)
  from ends_step [OF this] show ?thesis
    unfolding ends_def by (metis apfst_conv surjective_pairing)
qed

end
