(* ===== verification/Overlapping_Calls.thy ===== *)
theory Overlapping_Calls
  imports Manager_Calls
begin

text \<open>
  Any number of calls of one provider manager over the same providers and the same store: their steps
  interleave in any order, and a call may be cancelled where it waits. The invariant of such a system,
  and what holds in every history: what a call answers, when a provider is asked, that the health
  records and the store stay sound, that every call ends - and what a late answer does to a provider
  that has failed meanwhile.
\<close>

section \<open>Calls that overlap\<close>

record caller =
  cl_req :: LLMRequest
  cl_cap :: Capability
  cl_order :: "string list option"
  cl_call :: call

text \<open>A new call, the next step of a call in an environment of its own, or the end of its task.\<close>

datatype call_event =
  Begin LLMRequest Capability "string list option" | Go environment nat | Abort nat

definition caller_step :: "environment \<Rightarrow> caller \<Rightarrow> manager \<Rightarrow> caller \<times> manager" where
  "caller_step env cl m =
     apfst (\<lambda>pc. cl\<lparr>cl_call := pc\<rparr>) (call_step env (cl_req cl) (cl_cap cl) (cl_order cl) (cl_call cl) m)"

fun calls_do :: "caller list \<times> manager \<Rightarrow> call_event \<Rightarrow> caller list \<times> manager" where
  "calls_do (cls, m) (Begin req c order) =
     (cls @ [\<lparr>cl_req = req, cl_cap = c, cl_order = order, cl_call = C_Start\<rparr>], m)"
| "calls_do (cls, m) (Go env i) =
     (if i < length cls
      then (case caller_step env (cls ! i) m of (cl, m') \<Rightarrow> (cls[i := cl], m')) else (cls, m))"
| "calls_do (cls, m) (Abort i) =
     (if i < length cls \<and> (\<forall>cs r. cl_call (cls ! i) \<noteq> C_Done cs r)
      then (cls[i := (cls ! i)\<lparr>cl_call := C_Cancelled\<rparr>], m) else (cls, m))"

section \<open>What a step does to the providers\<close>

text \<open>No step adds, drops or replaces a provider.\<close>

definition keeps :: "registry \<Rightarrow> registry \<Rightarrow> bool" where
  "keeps reg reg' \<longleftrightarrow>
     dict_keys reg' = dict_keys reg \<and>
     (\<forall>nm p. dict_get reg nm = Some p \<longrightarrow>
        (\<exists>p'. dict_get reg' nm = Some p' \<and> profile p' = profile p \<and> backend p' = backend p))"

lemma keeps_refl [simp, intro]: "keeps reg reg"
  by (simp add: keeps_def)

lemma keeps_get: "keeps reg reg' \<Longrightarrow> dict_get reg nm = Some p \<Longrightarrow>
     \<exists>p'. dict_get reg' nm = Some p' \<and> profile p' = profile p"
  unfolding keeps_def by blast

lemma evolves_keeps: "evolves S reg reg' \<Longrightarrow> keeps reg reg'"
  unfolding evolves_def keeps_def by blast

lemma keeps_set:
  "dict_get reg nm = Some p \<Longrightarrow> profile p' = profile p \<Longrightarrow> backend p' = backend p \<Longrightarrow>
     keeps reg (dict_set nm p' reg)"
  by (auto simp: keeps_def dict_keys_set_present dict_has_get)

text \<open>The provider whose vendor the call waits for.\<close>

fun waits :: "call \<Rightarrow> string option" where
  "waits (C_Wait pr) = Some (pr_current pr)"
| "waits _ = None"

lemma next_candidate_core [simp]:
  "mgr_registry (snd (next_candidate c cs k failed nms m)) = mgr_registry m"
  "mgr_store (snd (next_candidate c cs k failed nms m)) = mgr_store m"
  "moment (snd (next_candidate c cs k failed nms m)) = moment m"
  by (induction nms) (auto split: option.split)

lemma waits_next [simp]: "waits (fst (next_candidate c cs k failed nms m)) = None"
  by (induction nms) (auto split: option.split)

lemma go_on_core [simp]:
  "mgr_registry (snd (go_on c pr m)) = mgr_registry m" "mgr_store (snd (go_on c pr m)) = mgr_store m"
  "waits (fst (go_on c pr m)) = None"
  by (simp_all add: go_on_def)

lemma tell_cooldown_core [simp]:
  "mgr_registry (snd (tell_cooldown c pr cls m)) = mgr_registry m"
  "mgr_store (snd (tell_cooldown c pr cls m)) = mgr_store m"
  "waits (fst (tell_cooldown c pr cls m)) = None"
  by (auto simp: tell_cooldown_def Let_def)

text \<open>The counters that only the vendor's answers change.\<close>

definition counters :: "provider \<Rightarrow> int \<times> int \<times> time option" where
  "counters p = (tokens_used (health p), total_failures (health p), last_used_at (health p))"

text \<open>
  From \<open>p\<close> to \<open>q\<close> while a call goes from \<open>pc\<close> to \<open>pc'\<close>: a request is only counted for a provider
  that is available, and by the call that then waits for it; every failure is paid for by a call that
  stops waiting; and when the counters change, the new health is in the store \<open>st'\<close>.
\<close>

definition fair_change ::
  "string \<Rightarrow> call \<Rightarrow> state_store \<Rightarrow> provider \<Rightarrow> call \<Rightarrow> state_store \<Rightarrow> provider \<Rightarrow> bool" where
  "fair_change nm pc st p pc' st' q \<longleftrightarrow>
     profile q = profile p \<and> backend q = backend p \<and> provider_wf q \<and>
     total_failures (health q) + of_bool (waits pc' = Some nm) + total_requests (health p) \<le>
       total_failures (health p) + of_bool (waits pc = Some nm) + total_requests (health q) \<and>
     (total_requests (health q) \<noteq> total_requests (health p) \<longrightarrow>
        status q = AVAILABLE \<and> waits pc' = Some nm \<and> total_requests (health q) = total_requests (health p) + 1) \<and>
     (store_load st' nm = Some (health q) \<or> store_load st' nm = store_load st nm \<and> counters q = counters p)"

lemma refreshed_counts [simp]:
  "counters (snd (refresh now p)) = counters p"
  "total_requests (health (snd (refresh now p))) = total_requests (health p)"
  "total_failures (health (snd (refresh now p))) = total_failures (health p)"
  by (simp_all add: refresh_def counters_def)

lemma check_available_refreshes:
  "check_available env nms reg n = (cs, reg', n') \<Longrightarrow> dict_get reg nm = Some p \<Longrightarrow> provider_wf p \<Longrightarrow>
     \<exists>q. dict_get reg' nm = Some q \<and> profile q = profile p \<and> backend q = backend p \<and> provider_wf q \<and>
       counters q = counters p \<and> total_requests (health q) = total_requests (health p)"
proof (induction nms arbitrary: reg n cs n' p)
  case (Cons a nms)
  show ?case
  proof (cases "dict_get reg a")
    case None
    with Cons show ?thesis by simp
  next
    case (Some p1)
    let ?q = "snd (refresh (clock env n) p1)"
    from Cons.prems(1) Some obtain rest where
      rest: "check_available env nms (dict_set a ?q reg) (n + 1) = (rest, reg', n')"
      by (auto simp: is_available_simp split: prod.splits)
    let ?p = "if nm = a then ?q else p"
    have "dict_get (dict_set a ?q reg) nm = Some ?p" "provider_wf ?p"
      using Cons.prems Some by (auto simp: provider_wf_refresh)
    from Cons.IH [OF rest this] Cons.prems(2) Some show ?thesis by (auto split: if_splits)
  qed
qed auto

lemma fair_refl: "provider_wf p \<Longrightarrow> waits pc' = None \<Longrightarrow> fair_change nm pc st p pc' st p"
  by (simp add: fair_change_def)

lemma start_fair:
  assumes "call_step env req c order C_Start m = (pc', m')" "dict_get (mgr_registry m) nm = Some p" "provider_wf p"
  shows "\<exists>q. dict_get (mgr_registry m') nm = Some q \<and> fair_change nm C_Start (mgr_store m) p pc' (mgr_store m') q"
proof -
  obtain cs m1 where cand: "candidates env c order m = (cs, m1)" by fastforce
  from cand obtain reg n where ca: "check_available env (ordered_names (mgr_registry m) c order)
      (mgr_registry m) (moment m) = (cs, reg, n)" "m1 = m\<lparr>mgr_registry := reg, moment := n\<rparr>"
    by (auto simp: candidates_def split: prod.splits)
  from check_available_refreshes [OF ca(1) assms(2,3)] obtain q where
    q: "dict_get reg nm = Some q" "profile q = profile p" "backend q = backend p" "provider_wf q"
      "counters q = counters p" "total_requests (health q) = total_requests (health p)" by blast
  have m': "mgr_registry m' = reg" "mgr_store m' = mgr_store m" "waits pc' = None"
    using assms(1) cand ca(2) next_candidate_core(1,2) [of c cs 1 "[]" cs m1] waits_next [of c cs 1 "[]" cs m1]
    by (auto split: if_splits simp del: next_candidate_core waits_next)
  from q m' show ?thesis by (auto simp: fair_change_def counters_def)
qed

lemma ask_fair:
  assumes "ask_step env pr m = (pc', m')" "dict_get (mgr_registry m) nm = Some p" "provider_wf p"
    and "dict_get (mgr_registry m) (pr_current pr) = Some p0" "provider_name p0 = pr_current pr"
  shows "\<exists>q. dict_get (mgr_registry m') nm = Some q \<and> fair_change nm (C_Ask pr) (mgr_store m) p pc' (mgr_store m') q"
proof -
  have live: "live m pr = p0" using assms(4) by (simp add: live_def)
  let ?p1 = "snd (refresh (clock env (moment m)) p0)"
  have p1: "provider_wf p0 \<Longrightarrow> provider_wf ?p1" "provider_name ?p1 = pr_current pr"
    using assms(5) by (simp_all add: provider_wf_refresh)
  show ?thesis
  proof (cases "nm = pr_current pr")
    case True
    with assms p1 show ?thesis
      by (auto simp: ask_step_def live is_available_at_def Let_def fair_change_def counters_def unavailable_error_def
          provider_store.get_put_same provider_wf_def refresh_def split: if_splits)
  next
    case False
    with assms p1 show ?thesis
      by (auto simp: ask_step_def live is_available_at_def Let_def fair_change_def unavailable_error_def
          provider_store.get_put_other split: if_splits)
  qed
qed

lemma provider_wf_failure:
  "provider_wf p \<Longrightarrow> total_failures (health p) < total_requests (health p) \<Longrightarrow> provider_wf (record_failure now cls msg p)"
  by (auto simp: provider_wf_def record_failure_def Let_def)

lemma provider_wf_success: "provider_wf p \<Longrightarrow> provider_wf (record_success now r p)"
  by (auto simp: provider_wf_def record_success_def)

lemma record_counts [simp]:
  "total_requests (health (record_failure now cls msg p)) = total_requests (health p)"
  "total_failures (health (record_failure now cls msg p)) = total_failures (health p) + 1"
  "total_requests (health (record_success now r p)) = total_requests (health p)"
  "total_failures (health (record_success now r p)) = total_failures (health p)"
  by (simp_all add: record_failure_def record_success_def Let_def)

lemma answer_fair:
  assumes "answer_step env req pr m = (pc', m')" "dict_get (mgr_registry m) nm = Some p" "provider_wf p"
    and "nm = pr_current pr \<Longrightarrow> total_failures (health p) < total_requests (health p)"
    and "dict_get (mgr_registry m) (pr_current pr) = Some p0" "provider_name p0 = pr_current pr"
  shows "\<exists>q. dict_get (mgr_registry m') nm = Some q \<and> fair_change nm (C_Wait pr) (mgr_store m) p pc' (mgr_store m') q"
proof -
  have live: "live m pr = p0" using assms(5) by (simp add: live_def)
  show ?thesis
  proof (cases "nm = pr_current pr")
    case True
    with assms(2,5) have p0: "p0 = p" by simp
    with True assms show ?thesis
      by (auto simp: answer_step_def live Let_def fair_change_def counters_def provider_wf_failure provider_wf_success
          provider_store.get_put_same split: if_splits sum.splits exn.splits)
  next
    case False
    with assms show ?thesis
      by (auto simp: answer_step_def live Let_def fair_change_def
          provider_store.get_put_other split: if_splits sum.splits exn.splits)
  qed
qed

section \<open>What a call knows of its way\<close>

definition progress_ok :: "progress \<Rightarrow> bool" where
  "progress_ok pr \<longleftrightarrow>
     pr_chosen pr = pr_failed pr @ pr_current pr # pr_left pr \<and> pr_attempt pr = Suc (length (pr_failed pr))"

definition result_ok :: "Capability \<Rightarrow> string list \<Rightarrow> exn + ProviderInvocation \<Rightarrow> bool" where
  "result_ok c cs r \<longleftrightarrow>
     (case r of
        Inr res \<Rightarrow> (\<exists>post. cs = failed_over_from res @ inv_provider res # post) \<and>
          inv_attempts res = Suc (length (failed_over_from res))
      | Inl e \<Rightarrow> e = (if cs = [] then none_available_error c else exhausted_error (length cs) c) \<or>
          \<not> isinstance_exn e ProviderError)"

fun chosen_of :: "call \<Rightarrow> string list" where
  "chosen_of (C_Ask pr) = pr_chosen pr"
| "chosen_of (C_Wait pr) = pr_chosen pr"
| "chosen_of (C_Saved pr cls msg) = pr_chosen pr"
| "chosen_of (C_Told pr cls) = pr_chosen pr"
| "chosen_of (C_Credit pr cls) = pr_chosen pr"
| "chosen_of (C_Next pr) = pr_chosen pr"
| "chosen_of (C_Kept pr r) = pr_chosen pr"
| "chosen_of (C_Done cs r) = cs"
| "chosen_of _ = []"

fun call_ok :: "Capability \<Rightarrow> call \<Rightarrow> bool" where
  "call_ok c (C_Ask pr) \<longleftrightarrow> progress_ok pr"
| "call_ok c (C_Wait pr) \<longleftrightarrow> progress_ok pr"
| "call_ok c (C_Saved pr cls msg) \<longleftrightarrow> progress_ok pr"
| "call_ok c (C_Told pr cls) \<longleftrightarrow> progress_ok pr"
| "call_ok c (C_Credit pr cls) \<longleftrightarrow> progress_ok pr"
| "call_ok c (C_Next pr) \<longleftrightarrow> progress_ok pr"
| "call_ok c (C_Kept pr r) \<longleftrightarrow> progress_ok pr"
| "call_ok c (C_Done cs r) \<longleftrightarrow> result_ok c cs r"
| "call_ok c _ \<longleftrightarrow> True"

definition caller_ok :: "registry \<Rightarrow> caller \<Rightarrow> bool" where
  "caller_ok reg cl \<longleftrightarrow>
     call_ok (cl_cap cl) (cl_call cl) \<and>
     (\<forall>nm \<in> set (chosen_of (cl_call cl)). \<exists>p. dict_get reg nm = Some p \<and> supports (profile p) (cl_cap cl)) \<and>
     (order_ok (cl_order cl) \<longrightarrow> distinct (chosen_of (cl_call cl)))"

lemma caller_ok_keeps: "keeps reg reg' \<Longrightarrow> caller_ok reg cl \<Longrightarrow> caller_ok reg' cl"
  unfolding caller_ok_def by (metis keeps_get)

lemma next_candidate_ok:
  assumes "\<forall>nm \<in> set nms. dict_has (mgr_registry m) nm" "cs = failed @ nms" "k = Suc (length failed)" "cs \<noteq> []"
  shows "call_ok c (fst (next_candidate c cs k failed nms m)) \<and> chosen_of (fst (next_candidate c cs k failed nms m)) = cs"
  using assms by (cases nms) (auto simp: result_ok_def progress_ok_def dict_has_get)

lemma go_on_ok:
  assumes "progress_ok pr" "\<forall>nm \<in> set (pr_chosen pr). dict_has (mgr_registry m) nm" "registry_wf (mgr_registry m)"
  shows "call_ok c (fst (go_on c pr m)) \<and> chosen_of (fst (go_on c pr m)) = pr_chosen pr"
proof -
  from assms(1,2) obtain p where "dict_get (mgr_registry m) (pr_current pr) = Some p"
    by (auto simp: progress_ok_def dict_has_get)
  with registry_wf_get [OF assms(3)] have "provider_name (live m pr) = pr_current pr" by (auto simp: live_def)
  with assms(1,2) show ?thesis
    unfolding go_on_def by (intro next_candidate_ok) (auto simp: progress_ok_def)
qed

lemma call_step_ok:
  assumes "registry_wf (mgr_registry m)" "call_ok c pc"
    and "\<forall>nm \<in> set (chosen_of pc). dict_has (mgr_registry m) nm" "pc \<noteq> C_Start"
  shows "call_ok c (fst (call_step env req c order pc m)) \<and> chosen_of (fst (call_step env req c order pc m)) = chosen_of pc"
proof -
  have name: "provider_name (live m pr) = pr_current pr" if "progress_ok pr" "\<forall>nm \<in> set (pr_chosen pr). dict_has (mgr_registry m) nm" for pr
    using that registry_wf_get [OF assms(1)] by (auto simp: live_def progress_ok_def dict_has_get)
  show ?thesis
    using assms(2-4)
    by (cases pc) (auto simp: go_on_ok assms(1) tell_cooldown_def ask_step_def answer_step_def Let_def name
        result_ok_def progress_ok_def unavailable_error_def split: prod.split sum.split exn.split)
qed

lemma start_ok:
  assumes "registry_wf (mgr_registry m)"
  shows "call_ok c (fst (call_step env req c order C_Start m))"
    "chosen_of (fst (call_step env req c order C_Start m)) = fst (candidates env c order m)"
proof -
  obtain cs m1 where cand: "candidates env c order m = (cs, m1)" by fastforce
  show "call_ok c (fst (call_step env req c order C_Start m))"
    "chosen_of (fst (call_step env req c order C_Start m)) = fst (candidates env c order m)"
    using next_candidate_ok [of cs m1 cs "[]" 1 c] candidates_has [OF cand assms]
    by (auto simp: cand result_ok_def simp del: next_candidate.simps)
qed

lemma candidates_chosen:
  assumes "registry_wf (mgr_registry m)"
  shows "nm \<in> set (fst (candidates env c order m)) \<Longrightarrow> \<exists>p. dict_get (mgr_registry m) nm = Some p \<and> supports (profile p) c"
    and "order_ok order \<Longrightarrow> distinct (fst (candidates env c order m))"
    and "length (fst (candidates env c order m)) \<le> (case order of None \<Rightarrow> length (mgr_registry m) | Some ns \<Rightarrow> length ns)"
proof -
  obtain cs m1 where cand: "candidates env c order m = (cs, m1)" by fastforce
  note cs = candidates_names [OF cand]
  show "nm \<in> set (fst (candidates env c order m)) \<Longrightarrow> \<exists>p. dict_get (mgr_registry m) nm = Some p \<and> supports (profile p) c"
    using cs check_available_subset ordered_names_in [OF assms] by (fastforce simp: cand)
  show "order_ok order \<Longrightarrow> distinct (fst (candidates env c order m))"
    by (rule candidates_distinct [OF assms])
  have shorter: "length (fst (check_available env nms reg n)) \<le> length nms" for nms reg n
  proof (induction nms arbitrary: reg n)
    case (Cons a nms)
    show ?case
    proof (cases "dict_get reg a")
      case None
      then show ?thesis using Cons [of reg n] by simp
    next
      case (Some p)
      then show ?thesis
        using Cons [of "dict_set a (snd (refresh (clock env n) p)) reg" "n + 1"]
        by (auto simp: is_available_simp split: prod.splits)
    qed
  qed simp
  have named: "length (ordered_names (mgr_registry m) c order) \<le> (case order of None \<Rightarrow> length (mgr_registry m) | Some ns \<Rightarrow> length ns)"
  proof (cases order)
    case None
    have "length (for_capability (mgr_registry m) c) \<le> length (mgr_registry m)"
      by (simp add: for_capability_def ordered_def)
    with None show ?thesis by (simp add: ordered_names_None [OF assms])
  qed (simp add: ordered_names_def)
  show "length (fst (candidates env c order m)) \<le> (case order of None \<Rightarrow> length (mgr_registry m) | Some ns \<Rightarrow> length ns)"
    unfolding cand fst_conv cs by (rule order_trans [OF shorter named])
qed

section \<open>The invariant of all calls\<close>

definition waiting :: "string \<Rightarrow> caller list \<Rightarrow> nat" where
  "waiting nm cls = length (filter (\<lambda>cl. waits (cl_call cl) = Some nm) cls)"

lemma waiting_update:
  "i < length cls \<Longrightarrow> waiting nm (cls[i := cl]) + of_bool (waits (cl_call (cls ! i)) = Some nm) =
     waiting nm cls + of_bool (waits (cl_call cl) = Some nm)"
  unfolding waiting_def by (rule length_filter_update)

lemma waiting_member: "i < length cls \<Longrightarrow> waits (cl_call (cls ! i)) = Some nm \<Longrightarrow> 0 < waiting nm cls"
  unfolding waiting_def by (auto simp: filter_empty_conv)

text \<open>What the store says of a provider's counters is what the provider says.\<close>

definition stored_counters :: "state_store \<Rightarrow> string \<Rightarrow> int \<times> int \<times> time option" where
  "stored_counters st nm =
     (case store_load st nm of
        None \<Rightarrow> (0, 0, None)
      | Some h \<Rightarrow> (tokens_used h, total_failures h, last_used_at h))"

definition provider_ok :: "caller list \<times> manager \<Rightarrow> string \<Rightarrow> provider \<Rightarrow> bool" where
  "provider_ok s nm p \<longleftrightarrow>
     provider_wf p \<and> total_failures (health p) + int (waiting nm (fst s)) \<le> total_requests (health p) \<and>
     stored_counters (mgr_store (snd s)) nm = counters p"

definition calls_ok :: "caller list \<times> manager \<Rightarrow> bool" where
  "calls_ok s \<longleftrightarrow>
     registry_wf (mgr_registry (snd s)) \<and> (\<forall>cl \<in> set (fst s). caller_ok (mgr_registry (snd s)) cl) \<and>
     (\<forall>nm p. dict_get (mgr_registry (snd s)) nm = Some p \<longrightarrow> provider_ok s nm p)"

lemma fair_stored:
  "fair_change nm pc st p pc' st' q \<Longrightarrow> stored_counters st nm = counters p \<Longrightarrow> stored_counters st' nm = counters q"
  by (auto simp: fair_change_def stored_counters_def counters_def)

lemma call_step_fair:
  assumes ok: "calls_ok (cls, m)" and i: "i < length cls"
    and get: "dict_get (mgr_registry m) nm = Some p"
    and step: "call_step env req (cl_cap (cls ! i)) order (cl_call (cls ! i)) m = (pc', m')"
  shows "\<exists>q. dict_get (mgr_registry m') nm = Some q \<and>
     fair_change nm (cl_call (cls ! i)) (mgr_store m) p pc' (mgr_store m') q"
proof -
  let ?pc = "cl_call (cls ! i)"
  have wf: "registry_wf (mgr_registry m)" "provider_wf p"
    and paid: "total_failures (health p) + int (waiting nm cls) \<le> total_requests (health p)"
    using ok get by (auto simp: calls_ok_def provider_ok_def)
  have cl: "caller_ok (mgr_registry m) (cls ! i)" using ok i by (simp add: calls_ok_def)
  have cur: "\<exists>p0. dict_get (mgr_registry m) (pr_current pr) = Some p0 \<and> provider_name p0 = pr_current pr"
    if "?pc = C_Ask pr \<or> ?pc = C_Wait pr" for pr
    using that cl registry_wf_get [OF wf(1)] by (auto simp: caller_ok_def progress_ok_def)
  have quiet: "\<exists>q. dict_get (mgr_registry m') nm = Some q \<and> fair_change nm ?pc (mgr_store m) p pc' (mgr_store m') q"
    if "mgr_registry m' = mgr_registry m" "mgr_store m' = mgr_store m" "waits pc' = None"
    using that get wf(2) by (auto intro: fair_refl)
  show ?thesis
  proof (cases ?pc)
    case C_Start
    with start_fair step get wf(2) show ?thesis by simp
  next
    case (C_Ask pr)
    with cur ask_fair step get wf(2) show ?thesis by fastforce
  next
    case (C_Wait pr)
    have "total_failures (health p) < total_requests (health p)" if "nm = pr_current pr"
      using waiting_member [OF i, of nm] C_Wait that paid by simp
    with C_Wait cur answer_fair step get wf(2) show ?thesis by fastforce
  next
    case (C_Told pr cls')
    show ?thesis
      using step C_Told tell_cooldown_core [of "cl_cap (cls ! i)" pr cls' m]
      by (intro quiet) (auto split: if_splits simp del: tell_cooldown_core)
  next
    case (C_Credit pr cls')
    show ?thesis
      using step C_Credit tell_cooldown_core [of "cl_cap (cls ! i)" pr cls' m]
      by (intro quiet) (auto simp del: tell_cooldown_core)
  next
    case (C_Next pr)
    show ?thesis
      using step C_Next go_on_core [of "cl_cap (cls ! i)" pr m]
      by (intro quiet) (auto simp del: go_on_core)
  next
    case (C_Done cs r)
    then have "pc' = C_Done cs r" "m' = m" using step by simp_all
    with get wf(2) show ?thesis by (simp add: fair_refl)
  qed (use step get wf(2) in \<open>auto simp: fair_refl\<close>)
qed

lemma call_step_keeps:
  assumes "registry_wf (mgr_registry m)" "caller_ok (mgr_registry m) cl"
    and "call_step env req (cl_cap cl) order (cl_call cl) m = (pc', m')"
  shows "keeps (mgr_registry m) (mgr_registry m')"
proof -
  have live: "dict_get (mgr_registry m) (pr_current pr) = Some (live m pr)"
    if "cl_call cl = C_Ask pr \<or> cl_call cl = C_Wait pr" for pr
    using that assms(2) by (auto simp: caller_ok_def progress_ok_def live_def)
  show ?thesis
  proof (cases "cl_call cl")
    case C_Start
    obtain cs m1 where cand: "candidates env (cl_cap cl) order m = (cs, m1)" by fastforce
    have "mgr_registry m' = mgr_registry m1"
      using assms(3) C_Start cand next_candidate_core(1) [of "cl_cap cl" cs 1 "[]" cs m1]
      by (auto split: if_splits simp del: next_candidate_core)
    with candidates_evolves [OF cand] show ?thesis by (auto intro: evolves_keeps)
  next
    case (C_Ask pr)
    with assms(3) live [of pr] show ?thesis
      by (auto simp: ask_step_def is_available_at_def Let_def unavailable_error_def split: if_splits intro!: keeps_set)
  next
    case (C_Wait pr)
    with assms(3) live [of pr] show ?thesis
      by (auto simp: answer_step_def Let_def split: if_splits sum.splits exn.splits intro!: keeps_set)
  next
    case (C_Told pr cls')
    with assms(3) tell_cooldown_core(1) [of "cl_cap cl" pr cls' m] show ?thesis
      by (auto split: if_splits simp del: tell_cooldown_core)
  next
    case (C_Credit pr cls')
    with assms(3) tell_cooldown_core(1) [of "cl_cap cl" pr cls' m] show ?thesis by (auto simp del: tell_cooldown_core)
  next
    case (C_Next pr)
    with assms(3) go_on_core(1) [of "cl_cap cl" pr m] show ?thesis by (auto simp del: go_on_core)
  qed (use assms(3) in auto)
qed

lemma keeps_wf: "keeps reg reg' \<Longrightarrow> registry_wf reg \<Longrightarrow> registry_wf reg'"
proof -
  assume k: "keeps reg reg'" and wf: "registry_wf reg"
  then have ok: "dict_ok reg'" by (simp add: keeps_def registry_wf_def dict_ok_def)
  have "provider_name p = a" if "(a, p) \<in> set reg'" for a p
  proof -
    from that ok have get: "dict_get reg' a = Some p" by (simp add: dict_get_in)
    then have "dict_has reg' a" by (auto simp: dict_has_get)
    with k have "dict_has reg a" by (simp add: keeps_def dict_has_def)
    then obtain q where q: "dict_get reg a = Some q" by (auto simp: dict_has_get)
    with k get have "profile p = profile q" unfolding keeps_def by fastforce
    with registry_wf_get [OF wf q] show ?thesis by simp
  qed
  with ok show ?thesis by (auto simp: registry_wf_def)
qed

lemma keeps_back: "keeps reg reg' \<Longrightarrow> dict_get reg' nm = Some q \<Longrightarrow> \<exists>p. dict_get reg nm = Some p"
  by (metis dict_has_def dict_has_get keeps_def)

lemma caller_step_ok:
  assumes "registry_wf (mgr_registry m)" "caller_ok (mgr_registry m) cl" "caller_step env cl m = (cl', m')"
  shows "caller_ok (mgr_registry m') cl'"
proof -
  obtain pc' where st: "call_step env (cl_req cl) (cl_cap cl) (cl_order cl) (cl_call cl) m = (pc', m')"
    and cl': "cl' = cl\<lparr>cl_call := pc'\<rparr>"
    using assms(3) by (cases "call_step env (cl_req cl) (cl_cap cl) (cl_order cl) (cl_call cl) m") (auto simp: caller_step_def)
  have "caller_ok (mgr_registry m) cl'"
  proof (cases "cl_call cl = C_Start")
    case True
    with st have "call_ok (cl_cap cl) pc'" "chosen_of pc' = fst (candidates env (cl_cap cl) (cl_order cl) m)"
      using start_ok [OF assms(1)] by (metis fst_conv)+
    with cl' candidates_chosen(1,2) [OF assms(1)] show ?thesis by (auto simp: caller_ok_def)
  next
    case False
    have "\<forall>nm \<in> set (chosen_of (cl_call cl)). dict_has (mgr_registry m) nm"
      using assms(2) by (auto simp: caller_ok_def dict_has_get)
    from call_step_ok [OF assms(1) _ this False, of "cl_cap cl" env "cl_req cl" "cl_order cl"] assms(2) st cl'
    show ?thesis by (simp add: caller_ok_def)
  qed
  with call_step_keeps [OF assms(1,2) st] show ?thesis by (rule caller_ok_keeps)
qed

interpretation calls: invariant_system calls_do calls_ok
proof unfold_locales
  fix s e
  assume ok: "calls_ok s"
  obtain cls m where s: "s = (cls, m)" by (cases s)
  show "calls_ok (calls_do s e)"
  proof (cases e)
    case (Begin req c order)
    with ok s show ?thesis
      by (auto simp: calls_ok_def caller_ok_def provider_ok_def waiting_def)
  next
    case (Go env i)
    show ?thesis
    proof (cases "i < length cls")
      case i: True
      obtain cl' m' where step: "caller_step env (cls ! i) m = (cl', m')" by fastforce
      then obtain pc' where st: "call_step env (cl_req (cls ! i)) (cl_cap (cls ! i)) (cl_order (cls ! i)) (cl_call (cls ! i)) m = (pc', m')"
        and cl': "cl_call cl' = pc'"
        by (cases "call_step env (cl_req (cls ! i)) (cl_cap (cls ! i)) (cl_order (cls ! i)) (cl_call (cls ! i)) m") (auto simp: caller_step_def)
      have wf: "registry_wf (mgr_registry m)" and cli: "caller_ok (mgr_registry m) (cls ! i)"
        using ok s i by (simp_all add: calls_ok_def)
      note keep = call_step_keeps [OF wf cli st]
      have "caller_ok (mgr_registry m') cl" if "cl \<in> set (cls[i := cl'])" for cl
        using that set_update_subset_insert [of cls i cl'] caller_step_ok [OF wf cli step]
          caller_ok_keeps [OF keep] ok s by (auto simp: calls_ok_def)
      moreover have "provider_ok (cls[i := cl'], m') nm q" if "dict_get (mgr_registry m') nm = Some q" for nm q
      proof -
        from keeps_back [OF keep that] obtain p where p: "dict_get (mgr_registry m) nm = Some p" ..
        from call_step_fair [OF _ i p st] ok s that have
          fair: "fair_change nm (cl_call (cls ! i)) (mgr_store m) p pc' (mgr_store m') q" by auto
        from ok s p have "provider_ok (cls, m) nm p" by (simp add: calls_ok_def)
        with fair fair_stored [OF fair] waiting_update [OF i, of nm cl'] cl' show ?thesis
          unfolding provider_ok_def fair_change_def by (simp add: of_bool_def split: if_splits)
      qed
      ultimately show ?thesis
        using Go i s step keeps_wf [OF keep wf] by (simp add: calls_ok_def)
    qed (use Go ok s in simp)
  next
    case (Abort i)
    show ?thesis
    proof (cases "i < length cls \<and> (\<forall>cs r. cl_call (cls ! i) \<noteq> C_Done cs r)")
      case True
      let ?cl = "(cls ! i)\<lparr>cl_call := C_Cancelled\<rparr>"
      have "waiting nm (cls[i := ?cl]) \<le> waiting nm cls" for nm
        using waiting_update [of i cls nm ?cl] True by (auto simp: of_bool_def split: if_splits)
      then have "provider_ok (cls[i := ?cl], m) nm p" if "provider_ok (cls, m) nm p" for nm p
        using that by (simp add: provider_ok_def) (meson add_left_mono of_nat_mono order_trans)
      moreover have "caller_ok (mgr_registry m) cl" if "cl \<in> set (cls[i := ?cl])" for cl
        using that set_update_subset_insert [of cls i ?cl] ok s by (auto simp: calls_ok_def caller_ok_def)
      ultimately show ?thesis using ok s Abort True by (simp add: calls_ok_def)
    next
      case False
      with Abort s ok show ?thesis by auto
    qed
  qed
qed

section \<open>What holds in every history of calls\<close>

text \<open>A manager as it is built: no provider was asked yet, and nothing is stored.\<close>

definition fresh_manager :: "manager \<Rightarrow> bool" where
  "fresh_manager m \<longleftrightarrow>
     registry_wf (mgr_registry m) \<and> mgr_store m = [] \<and>
     (\<forall>p \<in> set (dict_values (mgr_registry m)). health p = new_health \<and> 0 < max_consecutive_failures (profile p))"

lemma fresh_calls_ok: "fresh_manager m \<Longrightarrow> calls_ok ([], m)"
  by (auto simp: fresh_manager_def calls_ok_def provider_ok_def provider_wf_def new_health_def waiting_def
      stored_counters_def counters_def store_load_def dest!: map_of_SomeD)

lemma run_calls_ok: "fresh_manager m \<Longrightarrow> run calls_do ([], m) es = s \<Longrightarrow> calls_ok s"
  using calls.run_inv [OF fresh_calls_ok] by blast

section \<open>The way of a call\<close>

text \<open>
  What a step of a call adds to its history: the candidates it chooses from, when it starts; the turn
  of a provider, when the provider is found unavailable or the vendor answers. All other calls leave
  it alone.
\<close>

type_synonym turn = "string \<times> (exn + LLMResponse) option"

definition choice :: "environment \<Rightarrow> caller \<Rightarrow> manager \<Rightarrow> string list list" where
  "choice env cl m =
     (case cl_call cl of C_Start \<Rightarrow> [fst (candidates env (cl_cap cl) (cl_order cl) m)] | _ \<Rightarrow> [])"

definition turn :: "environment \<Rightarrow> caller \<Rightarrow> manager \<Rightarrow> turn list" where
  "turn env cl m =
     (case cl_call cl of
        C_Ask pr \<Rightarrow>
          (if fst (is_available_at (clock env (moment m)) (live m pr)) then [] else [(pr_current pr, None)])
      | C_Wait pr \<Rightarrow> [(pr_current pr, Some (invoke env (moment m) (live m pr) (cl_req cl)))]
      | _ \<Rightarrow> [])"

fun adds :: "(environment \<Rightarrow> caller \<Rightarrow> manager \<Rightarrow> 'a list) \<Rightarrow> nat \<Rightarrow> caller list \<times> manager \<Rightarrow> call_event \<Rightarrow> 'a list" where
  "adds f i s (Go env j) = (if j = i \<and> i < length (fst s) then f env (fst s ! i) (snd s) else [])"
| "adds f i s _ = []"

fun history ::
  "(environment \<Rightarrow> caller \<Rightarrow> manager \<Rightarrow> 'a list) \<Rightarrow> nat \<Rightarrow> caller list \<times> manager \<Rightarrow> call_event list \<Rightarrow> 'a list" where
  "history f i s [] = []"
| "history f i s (e # es) = adds f i s e @ history f i (calls_do s e) es"

lemma history_append: "history f i s (es @ es') = history f i s es @ history f i (run calls_do s es) es'"
  by (induction es arbitrary: s) auto

text \<open>A turn after which the call goes on: the provider was unavailable, or failed with its own error.\<close>

fun refused :: "turn \<Rightarrow> bool" where
  "refused (nm, None) \<longleftrightarrow> True"
| "refused (nm, Some (Inr r)) \<longleftrightarrow> False"
| "refused (nm, Some (Inl e)) \<longleftrightarrow> isinstance_exn e ProviderError"

fun ending :: "Capability \<Rightarrow> string list \<Rightarrow> turn list \<Rightarrow> exn + ProviderInvocation \<Rightarrow> bool" where
  "ending c cs ts (Inr res) \<longleftrightarrow>
     (\<exists>pre r post. ts = pre @ [(inv_provider res, Some (Inr r))] \<and> list_all refused pre \<and>
        failed_over_from res = map fst pre \<and> cs = map fst ts @ post \<and> inv_attempts res = length ts \<and>
        inv_content res = resp_content r \<and> inv_total_tokens res = total_tokens (usage r))"
| "ending c cs ts (Inl e) \<longleftrightarrow>
     cs = [] \<and> ts = [] \<and> e = none_available_error c \<or>
     cs \<noteq> [] \<and> list_all refused ts \<and> map fst ts = cs \<and> e = exhausted_error (length cs) c \<or>
     (\<exists>pre nm post. ts = pre @ [(nm, Some (Inl e))] \<and> list_all refused pre \<and> cs = map fst ts @ post \<and>
        \<not> isinstance_exn e ProviderError)"

fun journey :: "Capability \<Rightarrow> call \<Rightarrow> string list list \<Rightarrow> turn list \<Rightarrow> bool" where
  "journey c C_Start css ts \<longleftrightarrow> css = [] \<and> ts = []"
| "journey c (C_Ask pr) css ts \<longleftrightarrow> css = [pr_chosen pr] \<and> map fst ts = pr_failed pr \<and> list_all refused ts"
| "journey c (C_Wait pr) css ts \<longleftrightarrow> css = [pr_chosen pr] \<and> map fst ts = pr_failed pr \<and> list_all refused ts"
| "journey c (C_Saved pr cls msg) css ts \<longleftrightarrow>
     css = [pr_chosen pr] \<and> map fst ts = pr_failed pr @ [pr_current pr] \<and> list_all refused ts"
| "journey c (C_Told pr cls) css ts \<longleftrightarrow>
     css = [pr_chosen pr] \<and> map fst ts = pr_failed pr @ [pr_current pr] \<and> list_all refused ts"
| "journey c (C_Credit pr cls) css ts \<longleftrightarrow>
     css = [pr_chosen pr] \<and> map fst ts = pr_failed pr @ [pr_current pr] \<and> list_all refused ts"
| "journey c (C_Next pr) css ts \<longleftrightarrow>
     css = [pr_chosen pr] \<and> map fst ts = pr_failed pr @ [pr_current pr] \<and> list_all refused ts"
| "journey c (C_Kept pr r) css ts \<longleftrightarrow>
     css = [pr_chosen pr] \<and>
     (\<exists>pre. ts = pre @ [(pr_current pr, Some (Inr r))] \<and> map fst pre = pr_failed pr \<and> list_all refused pre)"
| "journey c (C_Done cs r) css ts \<longleftrightarrow> css = [cs] \<and> ending c cs ts r"
| "journey c C_Cancelled css ts \<longleftrightarrow> True"

lemma next_candidate_journey:
  assumes "\<forall>nm \<in> set nms. dict_has (mgr_registry m) nm" "map fst ts = failed" "list_all refused ts"
    and "cs = failed @ nms" "cs \<noteq> []"
  shows "journey c (fst (next_candidate c cs k failed nms m)) [cs] ts"
  using assms by (cases nms) (auto simp: dict_has_get)

lemma go_on_journey:
  assumes "progress_ok pr" "\<forall>nm \<in> set (pr_chosen pr). dict_has (mgr_registry m) nm" "registry_wf (mgr_registry m)"
    and "map fst ts = pr_failed pr @ [pr_current pr]" "list_all refused ts"
  shows "journey c (fst (go_on c pr m)) [pr_chosen pr] ts"
proof -
  from assms(1,2) obtain p where "dict_get (mgr_registry m) (pr_current pr) = Some p"
    by (auto simp: progress_ok_def dict_has_get)
  with registry_wf_get [OF assms(3)] have "provider_name (live m pr) = pr_current pr" by (auto simp: live_def)
  with assms show ?thesis
    unfolding go_on_def by (intro next_candidate_journey) (auto simp: progress_ok_def)
qed

lemma tell_journey:
  assumes "progress_ok pr" "\<forall>nm \<in> set (pr_chosen pr). dict_has (mgr_registry m) nm" "registry_wf (mgr_registry m)"
    and "map fst ts = pr_failed pr @ [pr_current pr]" "list_all refused ts"
  shows "journey c (fst (tell_cooldown c pr cls m)) [pr_chosen pr] ts"
  using go_on_journey [OF assms] assms(4,5) by (simp add: tell_cooldown_def Let_def)

lemma answer_journey:
  assumes "progress_ok pr" "map fst ts = pr_failed pr" "list_all refused ts"
  shows "journey c (fst (answer_step env req pr m)) [pr_chosen pr]
     (ts @ [(pr_current pr, Some (invoke env (moment m) (live m pr) req))])"
proof (cases "invoke env (moment m) (live m pr) req")
  case (Inl e)
  show ?thesis
  proof (cases "isinstance_exn e ProviderError")
    case True
    with Inl assms show ?thesis by (cases e) (auto simp: answer_step_def Let_def)
  next
    case False
    with assms have "\<exists>pre nm post. ts @ [(pr_current pr, Some (Inl e))] = pre @ [(nm, Some (Inl e))] \<and>
        list_all refused pre \<and> pr_chosen pr = map fst (ts @ [(pr_current pr, Some (Inl e))]) @ post"
      by (auto simp: progress_ok_def)
    with False Inl show ?thesis by (cases e) (auto simp: answer_step_def Let_def)
  qed
qed (use assms in \<open>simp add: answer_step_def Let_def\<close>)

lemma start_journey:
  assumes "registry_wf (mgr_registry m)"
  shows "journey c (fst (call_step env req c order C_Start m)) [fst (candidates env c order m)] []"
proof -
  obtain cs m1 where cand: "candidates env c order m = (cs, m1)" by fastforce
  show ?thesis
    using next_candidate_journey [of cs m1 "[]" "[]" cs c 1] candidates_has [OF cand assms]
    by (auto simp: cand simp del: next_candidate.simps)
qed

lemma call_step_journey:
  assumes "registry_wf (mgr_registry m)" "caller_ok (mgr_registry m) cl" "journey (cl_cap cl) (cl_call cl) css ts"
  shows "journey (cl_cap cl) (fst (call_step env (cl_req cl) (cl_cap cl) (cl_order cl) (cl_call cl) m))
     (css @ choice env cl m) (ts @ turn env cl m)"
proof -
  have has: "\<forall>nm \<in> set (chosen_of (cl_call cl)). dict_has (mgr_registry m) nm" and ok: "call_ok (cl_cap cl) (cl_call cl)"
    using assms(2) by (auto simp: caller_ok_def dict_has_get)
  have name: "provider_name (live m pr) = pr_current pr" if "progress_ok pr" "\<forall>nm \<in> set (pr_chosen pr). dict_has (mgr_registry m) nm" for pr
    using that registry_wf_get [OF assms(1)] by (auto simp: live_def progress_ok_def dict_has_get)
  show ?thesis
  proof (cases "cl_call cl")
    case C_Start
    with assms(3) start_journey [OF assms(1), of "cl_cap cl" env "cl_req cl" "cl_order cl"] show ?thesis
      by (simp add: choice_def turn_def del: call_step.simps)
  next
    case (C_Ask pr)
    obtain free p where "is_available_at (clock env (moment m)) (live m pr) = (free, p)" by fastforce
    with C_Ask assms(3) show ?thesis
      by (auto simp: ask_step_def unavailable_error_def choice_def turn_def)
  next
    case (C_Wait pr)
    with assms(3) ok answer_journey [of pr ts "cl_cap cl" env "cl_req cl" m] show ?thesis
      by (simp add: choice_def turn_def)
  next
    case (C_Kept pr r)
    with assms(3) obtain pre where pre: "css = [pr_chosen pr]" "ts = pre @ [(pr_current pr, Some (Inr r))]"
      "map fst pre = pr_failed pr" "list_all refused pre" by auto
    then have "length pre = length (pr_failed pr)" by (metis length_map)
    with C_Kept ok pre have "pr_chosen pr = map fst ts @ pr_left pr" "pr_attempt pr = length ts"
      by (simp_all add: progress_ok_def)
    with pre C_Kept ok has name [of pr] show ?thesis by (simp add: choice_def turn_def)
  next
    case (C_Told pr cls)
    with assms(1,3) ok has tell_journey [of pr m ts "cl_cap cl" cls] show ?thesis
      by (simp add: choice_def turn_def)
  next
    case (C_Credit pr cls)
    with assms(1,3) ok has tell_journey [of pr m ts "cl_cap cl" cls] show ?thesis
      by (simp add: choice_def turn_def)
  next
    case (C_Next pr)
    with assms(1,3) ok has go_on_journey [of pr m ts "cl_cap cl"] show ?thesis
      by (simp add: choice_def turn_def)
  qed (use assms(3) in \<open>simp_all add: choice_def turn_def\<close>)
qed

text \<open>Every call of a history is where the turns of its own history have brought it.\<close>

lemma run_journey:
  assumes "fresh_manager m"
  shows "if i < length (fst (run calls_do ([], m) es))
    then journey (cl_cap (fst (run calls_do ([], m) es) ! i)) (cl_call (fst (run calls_do ([], m) es) ! i))
           (history choice i ([], m) es) (history turn i ([], m) es)
    else history choice i ([], m) es = [] \<and> history turn i ([], m) es = []"
proof (induction es rule: rev_induct)
  case (snoc e es)
  obtain cls m' where s: "run calls_do ([], m) es = (cls, m')" by fastforce
  from run_calls_ok [OF assms s] have ok: "calls_ok (cls, m')" .
  show ?case
  proof (cases e)
    case (Begin req c order)
    with snoc s show ?thesis by (auto simp: history_append nth_append)
  next
    case (Go env j)
    show ?thesis
    proof (cases "j = i \<and> i < length cls")
      case True
      with ok have "registry_wf (mgr_registry m')" "caller_ok (mgr_registry m') (cls ! i)"
        by (auto simp: calls_ok_def)
      from call_step_journey [OF this, of "history choice i ([], m) es" "history turn i ([], m) es" env] True snoc s
      have "journey (cl_cap (cls ! i)) (fst (call_step env (cl_req (cls ! i)) (cl_cap (cls ! i)) (cl_order (cls ! i)) (cl_call (cls ! i)) m'))
          (history choice i ([], m) (es @ [e])) (history turn i ([], m) (es @ [e]))"
        using Go by (simp add: history_append)
      with True s Go show ?thesis
        by (simp add: caller_step_def apfst_def map_prod_def split_beta del: call_step.simps)
    next
      case False
      with snoc s Go show ?thesis
        by (auto simp: history_append caller_step_def simp del: call_step.simps split: prod.splits)
    qed
  next
    case (Abort j)
    with snoc s show ?thesis by (cases "j = i") (auto simp: history_append)
  qed
qed simp

text \<open>
  C4: However calls overlap, are cancelled, and whatever the vendors answer, a call that has ended
  chose its candidates once, when it started, and has then taken them in that very order. If it
  answers, the last turn is that of the provider it names, whose response it carries; every turn before
  was refused - the provider was no longer available, or failed with an error of its own - and these
  are exactly the providers it says it failed over from. If it failed with a provider error, there were
  no candidates, or every one of them refused; any other error was raised by the vendor of its last
  turn, all before having refused. All its candidates have the capability, and none was tried twice
  unless the caller's order names it twice.
\<close>

theorem overlapping_calls_fail_over:
  assumes "fresh_manager m" "run calls_do ([], m) es = (cls, m')" "i < length cls" "cl_call (cls ! i) = C_Done cs r"
    and "ts = history turn i ([], m) es"
  shows "history choice i ([], m) es = [cs] \<and>
     (case r of
        Inr res \<Rightarrow> (\<exists>pre answer post. ts = pre @ [(inv_provider res, Some (Inr answer))] \<and> list_all refused pre \<and>
          failed_over_from res = map fst pre \<and> cs = map fst ts @ post \<and> inv_attempts res = length ts \<and>
          inv_content res = resp_content answer \<and> inv_total_tokens res = total_tokens (usage answer))
      | Inl e \<Rightarrow>
          cs = [] \<and> ts = [] \<and> e = none_available_error (cl_cap (cls ! i)) \<or>
          cs \<noteq> [] \<and> list_all refused ts \<and> map fst ts = cs \<and> e = exhausted_error (length cs) (cl_cap (cls ! i)) \<or>
          (\<exists>pre nm post. ts = pre @ [(nm, Some (Inl e))] \<and> list_all refused pre \<and> cs = map fst ts @ post \<and>
             \<not> isinstance_exn e ProviderError)) \<and>
     (\<forall>nm \<in> set cs. \<exists>p. dict_get (mgr_registry m') nm = Some p \<and> supports (profile p) (cl_cap (cls ! i))) \<and>
     (order_ok (cl_order (cls ! i)) \<longrightarrow> distinct cs)"
proof -
  have "caller_ok (mgr_registry m') (cls ! i)"
    using run_calls_ok [OF assms(1,2)] assms(3) by (simp add: calls_ok_def)
  with assms(4) have "\<forall>nm \<in> set cs. \<exists>p. dict_get (mgr_registry m') nm = Some p \<and> supports (profile p) (cl_cap (cls ! i))"
    "order_ok (cl_order (cls ! i)) \<longrightarrow> distinct cs"
    by (simp_all add: caller_ok_def)
  moreover have "history choice i ([], m) es = [cs]" "ending (cl_cap (cls ! i)) cs ts r"
    using run_journey [OF assms(1), of i es] assms(2-5) by simp_all
  ultimately show ?thesis by (cases r) simp_all
qed

text \<open>
  C5: A request is counted, and sent to a vendor, only while its provider is available at that very
  moment - not merely when the candidates were chosen: a provider that another call has meanwhile
  sent into a cooldown, offline or failed is not asked. Each step sends at most one request, and the
  call that sent it then waits for that provider.
\<close>

theorem asked_only_when_available:
  assumes "fresh_manager m" "run calls_do ([], m) es = (cls, m')"
    and "dict_get (mgr_registry m') nm = Some p"
    and "dict_get (mgr_registry (snd (calls_do (cls, m') e))) nm = Some q"
    and "total_requests (health q) \<noteq> total_requests (health p)"
  shows "status q = AVAILABLE \<and> total_requests (health q) = total_requests (health p) + 1 \<and>
     waiting nm (fst (calls_do (cls, m') e)) = waiting nm cls + 1"
proof (cases e)
  case (Go env i)
  show ?thesis
  proof (cases "i < length cls")
    case i: True
    let ?cl = "cls ! i"
    obtain pc' m2 where st: "call_step env (cl_req ?cl) (cl_cap ?cl) (cl_order ?cl) (cl_call ?cl) m' = (pc', m2)"
      by fastforce
    from call_step_fair [OF run_calls_ok [OF assms(1,2)] i assms(3) st] assms(4) Go i st
    have fair: "fair_change nm (cl_call ?cl) (mgr_store m') p pc' (mgr_store m2) q"
      by (auto simp: caller_step_def)
    then have w: "status q = AVAILABLE" "waits pc' = Some nm" "total_requests (health q) = total_requests (health p) + 1"
      using assms(5) by (auto simp: fair_change_def)
    have "waits (cl_call ?cl) \<noteq> Some nm"
    proof
      assume "waits (cl_call ?cl) = Some nm"
      then obtain pr where "cl_call ?cl = C_Wait pr" by (cases "cl_call ?cl") auto
      with st w(2) show False by (auto simp: answer_step_def Let_def split: sum.splits exn.splits if_splits)
    qed
    with w waiting_update [OF i, of nm "?cl\<lparr>cl_call := pc'\<rparr>"] Go i st show ?thesis
      by (simp add: caller_step_def)
  qed (use Go assms(3-5) in simp)
qed (use assms(3-5) in \<open>auto split: if_splits\<close>)

text \<open>
  C6: The health records stay sound however calls overlap: every failure counted for a provider was
  paid for by a request that is not under way any more, the invariant of the circuit breaker holds,
  and the tokens, failures and last use that the store holds are those of the provider at every
  moment, so no overlapping save ever loses usage.
\<close>

theorem usage_is_accounted:
  assumes "fresh_manager m" "run calls_do ([], m) es = (cls, m')" "dict_get (mgr_registry m') nm = Some p"
  shows "total_failures (health p) + int (waiting nm cls) \<le> total_requests (health p) \<and> provider_wf p \<and>
     stored_counters (mgr_store m') nm = (tokens_used (health p), total_failures (health p), last_used_at (health p))"
  using run_calls_ok [OF assms(1,2)] assms(3) by (simp add: calls_ok_def provider_ok_def counters_def)

section \<open>Every call ends\<close>

text \<open>A bound on the steps a call still makes, if the registry has \<open>n\<close> providers.\<close>

fun remaining :: "nat \<Rightarrow> call \<Rightarrow> nat" where
  "remaining n C_Start = 6 * n + 1"
| "remaining n (C_Ask pr) = 6 * length (pr_left pr) + 6"
| "remaining n (C_Wait pr) = 6 * length (pr_left pr) + 5"
| "remaining n (C_Saved pr cls msg) = 6 * length (pr_left pr) + 4"
| "remaining n (C_Told pr cls) = 6 * length (pr_left pr) + 3"
| "remaining n (C_Credit pr cls) = 6 * length (pr_left pr) + 2"
| "remaining n (C_Next pr) = 6 * length (pr_left pr) + 1"
| "remaining n (C_Kept pr r) = 1"
| "remaining n (C_Done cs r) = 0"
| "remaining n C_Cancelled = 0"

definition names_bound :: "nat \<Rightarrow> string list option \<Rightarrow> nat" where
  "names_bound n order = (case order of None \<Rightarrow> n | Some ns \<Rightarrow> length ns)"

lemma remaining_next: "remaining n (fst (next_candidate c cs k failed nms m)) \<le> 6 * length nms"
  by (induction nms) (auto split: option.split)

lemma remaining_tell: "remaining n (fst (tell_cooldown c pr cls m)) \<le> 6 * length (pr_left pr) + 1"
  using remaining_next [of n c "pr_chosen pr" "pr_attempt pr + 1" "pr_failed pr @ [provider_name (live m pr)]" "pr_left pr" m]
  by (auto simp: tell_cooldown_def Let_def go_on_def)

lemma step_remaining:
  assumes "registry_wf (mgr_registry m)"
  shows "remaining n (fst (call_step env req c order pc m)) \<le>
    remaining (names_bound (length (mgr_registry m)) order) pc - 1"
proof (cases pc)
  case C_Start
  obtain cs m1 where cand: "candidates env c order m = (cs, m1)" by fastforce
  have "length cs \<le> names_bound (length (mgr_registry m)) order"
    using candidates_chosen(3) [OF assms, of env c order] cand by (simp add: names_bound_def)
  with C_Start cand remaining_next [of n c cs 1 "[]" cs m1] show ?thesis by simp
next
  case (C_Ask pr)
  then show ?thesis by (simp add: ask_step_def unavailable_error_def split: prod.split)
next
  case (C_Wait pr)
  then show ?thesis by (simp add: answer_step_def Let_def split: sum.split exn.split)
next
  case (C_Told pr cls)
  then show ?thesis using remaining_tell [of n c pr cls m] by simp
next
  case (C_Credit pr cls)
  then show ?thesis using remaining_tell [of n c pr cls m] by simp
next
  case (C_Next pr)
  then show ?thesis
    using remaining_next [of n c "pr_chosen pr" "pr_attempt pr + 1" "pr_failed pr @ [provider_name (live m pr)]" "pr_left pr" m]
    by (simp add: go_on_def)
qed simp_all

text \<open>How often a call makes a step in a history.\<close>

definition turns :: "nat \<Rightarrow> call_event list \<Rightarrow> nat" where
  "turns i es = length (filter (\<lambda>e. \<exists>env. e = Go env i) es)"

lemma event_remaining:
  assumes "calls_ok (cls, m)" "i < length cls" "calls_do (cls, m) e = (cls', m')"
    and "names_bound (length (mgr_registry m)) (cl_order (cls ! i)) = n"
  shows "i < length cls' \<and> names_bound (length (mgr_registry m')) (cl_order (cls' ! i)) = n \<and>
     remaining n (cl_call (cls' ! i)) \<le> remaining n (cl_call (cls ! i)) - turns i [e]"
proof (cases e)
  case (Begin req c order)
  with assms show ?thesis by (auto simp: nth_append turns_def)
next
  case (Abort j)
  with assms show ?thesis by (auto simp: nth_list_update turns_def split: if_splits)
next
  case (Go env j)
  show ?thesis
  proof (cases "j < length cls")
    case j: True
    let ?cl = "cls ! j"
    obtain pc' where st: "call_step env (cl_req ?cl) (cl_cap ?cl) (cl_order ?cl) (cl_call ?cl) m = (pc', m')"
      and cls': "cls' = cls[j := ?cl\<lparr>cl_call := pc'\<rparr>]"
      using assms(3) Go j
      by (cases "call_step env (cl_req ?cl) (cl_cap ?cl) (cl_order ?cl) (cl_call ?cl) m") (auto simp: caller_step_def)
    have wf: "registry_wf (mgr_registry m)" and cl: "caller_ok (mgr_registry m) ?cl"
      using assms(1) j by (simp_all add: calls_ok_def)
    have "length (mgr_registry m') = length (mgr_registry m)"
      using call_step_keeps [OF wf cl st] by (metis keeps_def length_map)
    moreover have "remaining n pc' \<le> remaining n (cl_call ?cl) - 1" if "j = i"
      using step_remaining [OF wf, of n env "cl_req ?cl" "cl_cap ?cl" "cl_order ?cl" "cl_call ?cl"] st that assms(4) by simp
    ultimately show ?thesis
      using assms(2,4) Go cls' by (auto simp: nth_list_update turns_def)
  qed (use Go assms in \<open>auto simp: turns_def\<close>)
qed

lemma run_remaining:
  assumes "calls_ok s" "i < length (fst s)" "names_bound (length (mgr_registry (snd s))) (cl_order (fst s ! i)) = n"
  shows "i < length (fst (run calls_do s es)) \<and>
     remaining n (cl_call (fst (run calls_do s es) ! i)) \<le> remaining n (cl_call (fst s ! i)) - turns i es"
  using assms
proof (induction es arbitrary: s)
  case (Cons e es)
  obtain cls m where s: "s = (cls, m)" by (cases s)
  obtain cls' m' where e: "calls_do (cls, m) e = (cls', m')" by fastforce
  have ev: "i < length cls'" "names_bound (length (mgr_registry m')) (cl_order (cls' ! i)) = n"
    "remaining n (cl_call (cls' ! i)) \<le> remaining n (cl_call (cls ! i)) - turns i [e]"
    using event_remaining [of cls m i e cls' m' n] Cons.prems s e by auto
  have "calls_ok (cls', m')" using calls.step_inv [OF Cons.prems(1), of e] s e by simp
  from Cons.IH [OF this] ev(1,2) have ih: "i < length (fst (run calls_do (cls', m') es))"
    "remaining n (cl_call (fst (run calls_do (cls', m') es) ! i)) \<le> remaining n (cl_call (cls' ! i)) - turns i es"
    by auto
  have "turns i (e # es) = turns i [e] + turns i es" by (simp add: turns_def)
  with ih ev(3) show ?case using s e by simp
qed (simp add: turns_def)

lemma remaining_0: "remaining n pc = 0 \<longleftrightarrow> (\<exists>cs r. pc = C_Done cs r) \<or> pc = C_Cancelled"
  by (cases pc) auto

lemma remaining_start: "length (chosen_of pc) \<le> n \<Longrightarrow> call_ok c pc \<Longrightarrow> remaining n pc \<le> 6 * n + 1"
  by (cases pc) (auto simp: progress_ok_def)

text \<open>
  C8: Whatever the other calls and the vendors do, a call that has been started ends after at most
  six steps of its own for every provider it may try, and one more: it returns, raises, or was
  cancelled. No call is starved by failovers of the others.
\<close>

theorem every_call_ends:
  assumes "fresh_manager m" "run calls_do ([], m) es = (cls, m1)"
    and "6 * names_bound (length (mgr_registry m1)) order + 1 \<le> turns (length cls) later"
  shows "let pc = cl_call (fst (run calls_do (calls_do (cls, m1) (Begin req c order)) later) ! length cls) in
     pc = C_Cancelled \<or> (\<exists>cs r. pc = C_Done cs r)"
proof -
  let ?s = "calls_do (cls, m1) (Begin req c order)" and ?n = "names_bound (length (mgr_registry m1)) order"
  have "calls_ok ?s" by (rule calls.step_inv [OF run_calls_ok [OF assms(1,2)]])
  from run_remaining [OF this, of "length cls" ?n later]
  have "remaining ?n (cl_call (fst (run calls_do ?s later) ! length cls)) \<le> 6 * ?n + 1 - turns (length cls) later"
    by simp
  with assms(3) have "remaining ?n (cl_call (fst (run calls_do ?s later) ! length cls)) = 0" by linarith
  then show ?thesis unfolding remaining_0 Let_def by blast
qed

text \<open>
  What overlapping calls can do and calls one after the other cannot: a call that was sent before
  its provider failed for good, and that is answered afterwards, makes the provider available again,
  and forgets the failures the others counted. The same holds for a provider that is rate limited or
  out of credit: the deadline is dropped.
\<close>

theorem late_answer_revives_provider:
  assumes "fresh_manager m" "run calls_do ([], m) es = (cls, m1)"
    and "i < length cls" "waits (cl_call (cls ! i)) = Some nm"
    and "dict_get (mgr_registry m1) nm = Some p"
    and "invoke env (moment m1) p (cl_req (cls ! i)) = Inr r"
  shows "\<exists>q. dict_get (mgr_registry (snd (calls_do (cls, m1) (Go env i)))) nm = Some q \<and> status q = AVAILABLE \<and>
     consecutive_failures (health q) = 0 \<and> cooldown_until (health q) = None \<and>
     total_failures (health q) = total_failures (health p)"
proof -
  from assms(4) obtain pr where pr: "cl_call (cls ! i) = C_Wait pr" "pr_current pr = nm"
    by (cases "cl_call (cls ! i)") auto
  with assms(5) have "live m1 pr = p" by (simp add: live_def)
  with assms(3,6) pr show ?thesis
    by (auto simp: caller_step_def answer_step_def Let_def record_success_def)
qed

section \<open>Two calls of one provider\<close>

definition solo_provider :: provider where
  "solo_provider =
     new_provider ((mk_profile ''solo'' {CODE_GENERATION} 1 1000)\<lparr>max_consecutive_failures := 1\<rparr>) CustomBackend"

definition solo_manager :: manager where
  "solo_manager = \<lparr>mgr_registry = [(''solo'', solo_provider)], mgr_store = [], mgr_bus = None, moment = 0\<rparr>"

definition good_env :: environment where
  "good_env = \<lparr>clock = int, vendor = (\<lambda>nm req n. Inr (local_fallback req))\<rparr>"

definition bad_env :: environment where
  "bad_env = \<lparr>clock = int, vendor = (\<lambda>nm req n. Inl (Exn ProviderTimeout ''slow''))\<rparr>"

text \<open>Both calls wait for the vendor, and the second is told of a timeout.\<close>

definition both_wait :: "call_event list" where
  "both_wait =
     [Begin sample_request CODE_GENERATION None, Begin sample_request CODE_GENERATION None,
      Go good_env 0, Go good_env 0, Go good_env 1, Go good_env 1]"

lemma solo_fresh: "fresh_manager solo_manager"
  by (simp add: fresh_manager_def solo_manager_def solo_provider_def new_provider_def mk_profile_def registry_wf_def dict_ok_def)

lemmas solo_eval =
  both_wait_def solo_manager_def solo_provider_def good_env_def bad_env_def new_provider_def mk_profile_def new_health_def
  caller_step_def ask_step_def answer_step_def candidates_def ordered_names_def supporting_def for_capability_def
  ordered_def supports_def is_available_simp is_available_at_def refresh_def has_budget_def remaining_budget_def
  live_def put_live_def invoke_def record_success_def record_failure_def save_health_def store_save_def emit_def
  tell_cooldown_def go_on_def Let_def

lemma both_wait_run:
  "\<exists>cls m p. run calls_do ([], solo_manager) both_wait = (cls, m) \<and> length cls = 2 \<and>
     waits (cl_call (cls ! 0)) = Some ''solo'' \<and> waits (cl_call (cls ! 1)) = Some ''solo'' \<and>
     dict_get (mgr_registry m) ''solo'' = Some p \<and> status p = AVAILABLE"
  by (simp add: solo_eval)

text \<open>The first of the two is answered: one turn, with the answer of the vendor.\<close>

theorem overlapping_calls_fail_over_witness:
  "\<exists>cs res. cl_call (fst (run calls_do ([], solo_manager) (both_wait @ [Go good_env 0, Go good_env 0])) ! 0) =
     C_Done cs (Inr res) \<and>
     history choice 0 ([], solo_manager) (both_wait @ [Go good_env 0, Go good_env 0]) = [cs] \<and>
     inv_attempts res = length (history turn 0 ([], solo_manager) (both_wait @ [Go good_env 0, Go good_env 0])) \<and>
     distinct cs"
proof -
  obtain cls m' cs res where run: "run calls_do ([], solo_manager) (both_wait @ [Go good_env 0, Go good_env 0]) = (cls, m')"
    "length cls = 2" "cl_call (cls ! 0) = C_Done cs (Inr res)" "cl_order (cls ! 0) = None"
    by (simp add: solo_eval)
  from overlapping_calls_fail_over [OF solo_fresh run(1) _ run(3) refl] run show ?thesis by auto
qed

theorem asked_only_when_available_witness:
  "\<exists>cls m p q. run calls_do ([], solo_manager) (take 3 both_wait) = (cls, m) \<and>
     dict_get (mgr_registry m) ''solo'' = Some p \<and>
     dict_get (mgr_registry (snd (calls_do (cls, m) (Go good_env 0)))) ''solo'' = Some q \<and>
     total_requests (health q) \<noteq> total_requests (health p) \<and> status q = AVAILABLE"
proof -
  obtain cls m p q where run: "run calls_do ([], solo_manager) (take 3 both_wait) = (cls, m)"
    "dict_get (mgr_registry m) ''solo'' = Some p"
    "dict_get (mgr_registry (snd (calls_do (cls, m) (Go good_env 0)))) ''solo'' = Some q"
    "total_requests (health q) \<noteq> total_requests (health p)"
    by (simp add: solo_eval)
  from asked_only_when_available [OF solo_fresh run] run show ?thesis by blast
qed

theorem usage_is_accounted_witness:
  "\<exists>cls m p. run calls_do ([], solo_manager) both_wait = (cls, m) \<and> waiting ''solo'' cls = 2 \<and>
     dict_get (mgr_registry m) ''solo'' = Some p \<and> 2 \<le> total_requests (health p)"
proof -
  obtain cls m p where run: "run calls_do ([], solo_manager) both_wait = (cls, m)"
    "dict_get (mgr_registry m) ''solo'' = Some p" "waiting ''solo'' cls = 2" "total_failures (health p) = 0"
    by (simp add: solo_eval waiting_def)
  from usage_is_accounted [OF solo_fresh run(1,2)] run show ?thesis by auto
qed

theorem every_call_ends_witness:
  "\<exists>cls m. run calls_do ([], solo_manager) [] = (cls, m) \<and>
     (let pc = cl_call (fst (run calls_do (calls_do (cls, m) (Begin sample_request CODE_GENERATION None))
          (replicate 7 (Go bad_env 0))) ! 0) in pc = C_Cancelled \<or> (\<exists>cs r. pc = C_Done cs r))"
  using every_call_ends [OF solo_fresh, of "[]" "[]" solo_manager None "replicate 7 (Go bad_env 0)" sample_request CODE_GENERATION]
  by (simp add: names_bound_def turns_def solo_manager_def filter_replicate)

theorem late_answer_revives_provider_witness:
  "\<exists>cls m p q. run calls_do ([], solo_manager) (both_wait @ [Go bad_env 1]) = (cls, m) \<and>
     dict_get (mgr_registry m) ''solo'' = Some p \<and> status p = FAILED \<and>
     dict_get (mgr_registry (snd (calls_do (cls, m) (Go good_env 0)))) ''solo'' = Some q \<and> status q = AVAILABLE"
proof -
  obtain cls m p where run: "run calls_do ([], solo_manager) (both_wait @ [Go bad_env 1]) = (cls, m)"
    "0 < length cls" "waits (cl_call (cls ! 0)) = Some ''solo''" "dict_get (mgr_registry m) ''solo'' = Some p"
    and failed: "status p = FAILED" and custom: "backend p = CustomBackend"
    by (simp add: solo_eval)
  have "invoke good_env (moment m) p (cl_req (cls ! 0)) = Inr (local_fallback (cl_req (cls ! 0)))"
    using custom by (simp add: invoke_def good_env_def)
  from late_answer_revives_provider [OF solo_fresh run this] run failed show ?thesis by blast
qed

end
