(* ===== verification/Healing_Calls.thy ===== *)
theory Healing_Calls
  imports Self_Healing
begin

text \<open>
  Any number of failures handled at once by one self-healing runtime: \<open>handle_failure\<close> of
  \<open>orchestration/self_healing.py\<close>, cut at its awaits. A handling reads the attempts of its signature
  before the first of them and records its own after it, so the bound of the policy holds for
  failures handled one after the other, and is exceeded by as many as overlap. What is awaited may
  raise, and the task that awaits may be cancelled: the handling then ends where it waits.
\<close>

section \<open>The steps of a handling\<close>

text \<open>
  Where a handling waits: before it is started; for the bus that publishes the analysis; for the bus
  that publishes the decision; after the rollback callback; for the bus that publishes the rollback or
  the escalation. \<open>H_Gone\<close>: what it awaited raised, or it was cancelled.
\<close>

datatype handling =
    H_Start
  | H_Analyzed diagnosis
  | H_Decided diagnosis RepairDecision
  | H_RolledBack RepairDecision
  | H_Told RepairDecision
  | H_Done "exn + RepairDecision"
  | H_Gone

record handler =
  hd_env :: healing_env
  hd_task :: string
  hd_output :: string
  hd_ref :: string
  hd_at :: handling

fun handling_step :: "handler \<Rightarrow> handling \<Rightarrow> healing \<Rightarrow> handling \<times> healing" where
  "handling_step hf H_Start h = apfst H_Analyzed (diagnose (hd_env hf) (hd_task hf) (hd_output hf) h)"
| "handling_step hf (H_Analyzed dg) h = apfst (H_Decided dg) (settle (hd_task hf) dg h)"
| "handling_step hf (H_Decided dg d) h =
     (if dec_action d = ROLLBACK then
        (case call_rollback (hd_env hf) (hd_task hf) (hd_ref hf) h of
           (Some e, h1) \<Rightarrow> (H_Done (Inl e), h1)
         | (None, h1) \<Rightarrow> (H_RolledBack d, h1))
      else if dec_action d = ESCALATE
      then (H_Told d, heal_emit (RepairEscalated (hd_task hf) (dec_reason d) (dg_prior dg)) h)
      else (H_Done (Inr d), h))"
| "handling_step hf (H_RolledBack d) h =
     (H_Told d, heal_emit (RolledBack (hd_task hf) (hd_ref hf) (dec_reason d)) h)"
| "handling_step hf (H_Told d) h = (H_Done (Inr d), h)"
| "handling_step hf w h = (w, h)"

section \<open>Handlings that overlap\<close>

datatype handling_event = Receive healing_env string string string | Proceed nat | Break_Off nat

fun handlings_do :: "handler list \<times> healing \<Rightarrow> handling_event \<Rightarrow> handler list \<times> healing" where
  "handlings_do (hs, h) (Receive env task out ref) =
     (hs @ [\<lparr>hd_env = env, hd_task = task, hd_output = out, hd_ref = ref, hd_at = H_Start\<rparr>], h)"
| "handlings_do (hs, h) (Proceed i) =
     (if i < length hs
      then (case handling_step (hs ! i) (hd_at (hs ! i)) h of (w, h') \<Rightarrow> (hs[i := (hs ! i)\<lparr>hd_at := w\<rparr>], h'))
      else (hs, h))"
| "handlings_do (hs, h) (Break_Off i) =
     (if i < length hs \<and> (\<forall>r. hd_at (hs ! i) \<noteq> H_Done r)
      then (hs[i := (hs ! i)\<lparr>hd_at := H_Gone\<rparr>], h) else (hs, h))"

text \<open>
  A handling of signature \<open>k\<close> that has read the attempts and not yet decided, and how many there are
  at most at any moment of a history.
\<close>

definition undecided :: "string \<Rightarrow> handler \<Rightarrow> bool" where
  "undecided k hf \<longleftrightarrow> (\<exists>dg. hd_at hf = H_Analyzed dg \<and> dg_key dg = k)"

definition crowd :: "string \<Rightarrow> handler list \<Rightarrow> nat" where
  "crowd k hs = length (filter (undecided k) hs)"

fun peak :: "string \<Rightarrow> handler list \<times> healing \<Rightarrow> handling_event list \<Rightarrow> nat" where
  "peak k s [] = crowd k (fst s)"
| "peak k s (e # es) = max (crowd k (fst s)) (peak k (handlings_do s e) es)"

text \<open>Those of them that read fewer attempts than the bound, so may still record one.\<close>

definition may_repair :: "RepairPolicy \<Rightarrow> string \<Rightarrow> handler \<Rightarrow> bool" where
  "may_repair pol k hf \<longleftrightarrow>
     (\<exists>dg. hd_at hf = H_Analyzed dg \<and> dg_key dg = k \<and> dg_prior dg < max_repair_attempts pol)"

definition repairers :: "RepairPolicy \<Rightarrow> string \<Rightarrow> handler list \<Rightarrow> nat" where
  "repairers pol k hs = length (filter (may_repair pol k) hs)"

section \<open>One handling alone\<close>

definition handled_alone :: "nat \<Rightarrow> handler \<Rightarrow> handling \<times> healing \<Rightarrow> handling \<times> healing" where
  "handled_alone n hf = (case_prod (handling_step hf)) ^^ n"

lemma handled_alone_simps [simp]:
  "handled_alone 0 hf s = s"
  "handled_alone (Suc n) hf (w, h) = handled_alone n hf (handling_step hf w h)"
  by (simp_all add: handled_alone_def funpow_Suc_right del: funpow.simps(2))

lemma handled_alone_is_handle_failure:
  "handled_alone 5 hf (H_Start, h) =
     apfst H_Done (handle_failure (hd_env hf) (hd_task hf) (hd_output hf) (hd_ref hf) h)"
  by (simp add: numeral_eq_Suc handle_failure_def judge_def split: prod.split option.split)

section \<open>The bound\<close>

lemma diagnose_facts:
  assumes "diagnose env task out h = (dg, h')"
  shows "dg_analysis dg = analyze out" "dg_occurrences dg = occurrences (key_of env out) h + 1"
    "occurrences (key_of env out) h' = occurrences (key_of env out) h + 1"
    "dg_key dg = key_of env out" "dg_prior dg = attempts_for (key_of env out) h"
    "h_policy h' = h_policy h" "attempts_for k h' = attempts_for k h" "h_log h' = h_log h"
proof -
  obtain occ h1 where mem: "memory_record (key_of env out) h = (occ, h1)" by fastforce
  from memory_record_simps [of "key_of env out" h] mem
  have h1: "h_policy h1 = h_policy h" "h_attempts h1 = h_attempts h" "h_log h1 = h_log h" by simp_all
  then have "attempts_for k h1 = attempts_for k h" for k by (simp add: attempts_for_def)
  moreover have "occ = occurrences (key_of env out) h + 1" "occurrences (key_of env out) h1 = occ"
    using memory_record_simps [of "key_of env out" h] mem by (simp_all add: occurrences_def)
  ultimately show "dg_analysis dg = analyze out" "dg_occurrences dg = occurrences (key_of env out) h + 1"
    "occurrences (key_of env out) h' = occurrences (key_of env out) h + 1"
    "dg_key dg = key_of env out" "dg_prior dg = attempts_for (key_of env out) h"
    "h_policy h' = h_policy h" "attempts_for k h' = attempts_for k h" "h_log h' = h_log h"
    using assms mem h1 by (auto simp: diagnose_def key_of_def Let_def occurrences_def)
qed

lemma settle_facts:
  assumes "settle task dg h = (d, h')"
  shows "h_policy h' = h_policy h"
    "attempts_for k h' = attempts_for k h + (if k = dg_key dg \<and> counts_as_attempt (dec_action d) then 1 else 0)"
    "repairs_logged k h' = repairs_logged k h + (if k = dg_key dg \<and> counts_as_attempt (dec_action d) then 1 else 0)"
    "counts_as_attempt (dec_action d) \<Longrightarrow> dg_prior dg < max_repair_attempts (h_policy h)"
    "dec_key d = dg_key dg"
    "(dec_action d, dec_reason d) = decide (h_policy h) (dg_analysis dg) (dg_prior dg) (dg_occurrences dg)"
proof -
  obtain a reason where dec: "decide (h_policy h) (dg_analysis dg) (dg_prior dg) (dg_occurrences dg) = (a, reason)"
    by fastforce
  have d: "dec_action d = a" "dec_reason d = reason" "dec_key d = dg_key dg"
    using assms dec by (auto simp: settle_def Let_def)
  have h': "h_log h' = h_log h @ [(dg_key dg, action_value a)]" "h_policy h' = h_policy h"
    "attempts_for k h' = attempts_for k h + (if k = dg_key dg \<and> counts_as_attempt a then 1 else 0)" for k
    using assms dec by (auto simp: settle_def Let_def)
  show "h_policy h' = h_policy h"
    "attempts_for k h' = attempts_for k h + (if k = dg_key dg \<and> counts_as_attempt (dec_action d) then 1 else 0)"
    using h' d by simp_all
  show "repairs_logged k h' = repairs_logged k h + (if k = dg_key dg \<and> counts_as_attempt (dec_action d) then 1 else 0)"
    using h'(1) logged_attempt [of a] d by (auto simp: repairs_logged_def)
  show "counts_as_attempt (dec_action d) \<Longrightarrow> dg_prior dg < max_repair_attempts (h_policy h)"
    using attempt_below_bound [of "h_policy h" "dg_analysis dg" "dg_prior dg" "dg_occurrences dg"] dec d by simp
  show "dec_key d = dg_key dg"
    "(dec_action d, dec_reason d) = decide (h_policy h) (dg_analysis dg) (dg_prior dg) (dg_occurrences dg)"
    using d dec by simp_all
qed

text \<open>What the steps that neither read nor record leave alone.\<close>

lemma handling_step_quiet:
  assumes "handling_step hf w h = (w', h')" "w \<noteq> H_Start" "\<And>dg. w \<noteq> H_Analyzed dg"
  shows "h_policy h' = h_policy h" "attempts_for k h' = attempts_for k h"
    "repairs_logged k h' = repairs_logged k h" "\<And>dg. w' \<noteq> H_Analyzed dg"
proof -
  obtain q h1 where rb: "call_rollback (hd_env hf) (hd_task hf) (hd_ref hf) h = (q, h1)" by fastforce
  from call_rollback_simps [of "hd_env hf" "hd_task hf" "hd_ref hf" h] rb
  have h1: "h_policy h1 = h_policy h" "h_attempts h1 = h_attempts h" "h_log h1 = h_log h" by simp_all
  have h': "h_policy h' = h_policy h \<and> h_attempts h' = h_attempts h \<and> h_log h' = h_log h \<and>
      (\<forall>dg. w' \<noteq> H_Analyzed dg)"
    using assms rb h1 by (cases w) (auto split: if_splits option.splits)
  then show "h_policy h' = h_policy h" "attempts_for k h' = attempts_for k h"
    "repairs_logged k h' = repairs_logged k h" "\<And>dg. w' \<noteq> H_Analyzed dg"
    by (auto simp: attempts_for_def repairs_logged_def)
qed

text \<open>
  What holds in every history: the policy is the given one, the history counts what it logs, what a
  handling has read is not negative, and a policy that allows no repair gets none.
\<close>

definition handlings_ok :: "RepairPolicy \<Rightarrow> handler list \<times> healing \<Rightarrow> bool" where
  "handlings_ok pol s \<longleftrightarrow>
     h_policy (snd s) = pol \<and>
     (\<forall>k. int (repairs_logged k (snd s)) = attempts_for k (snd s)) \<and>
     (\<forall>hf \<in> set (fst s). \<forall>dg. hd_at hf = H_Analyzed dg \<longrightarrow> 0 \<le> dg_prior dg) \<and>
     (max_repair_attempts pol \<le> 0 \<longrightarrow> (\<forall>k. attempts_for k (snd s) = 0))"

text \<open>
  One step of a handling either does not raise the attempts together with its own claim to one, or
  leaves the attempts as they are, below the bound.
\<close>

lemma handling_step_count:
  assumes "handling_step hf (hd_at hf) h = (w', h')" "h_policy h = pol"
  shows "attempts_for k h' + of_bool (may_repair pol k (hf\<lparr>hd_at := w'\<rparr>)) \<le>
           attempts_for k h + of_bool (may_repair pol k hf) \<or>
         attempts_for k h' = attempts_for k h \<and> attempts_for k h < max_repair_attempts pol"
proof (cases "hd_at hf")
  case H_Start
  with assms(1) obtain dg where "diagnose (hd_env hf) (hd_task hf) (hd_output hf) h = (dg, h')" "w' = H_Analyzed dg"
    by (auto simp: apfst_def map_prod_def split: prod.splits)
  with diagnose_facts [OF this(1)] H_Start show ?thesis by (auto simp: may_repair_def)
next
  case (H_Analyzed dg)
  with assms(1) obtain d where "settle (hd_task hf) dg h = (d, h')" "w' = H_Decided dg d"
    by (auto simp: apfst_def map_prod_def split: prod.splits)
  with settle_facts [OF this(1)] H_Analyzed assms(2) show ?thesis by (auto simp: may_repair_def)
qed (use handling_step_quiet [OF assms(1)] in \<open>auto simp: may_repair_def\<close>)

lemma handling_step_ok:
  assumes "handling_step hf (hd_at hf) h = (w', h')"
    and "h_policy h = pol" "\<forall>k. int (repairs_logged k h) = attempts_for k h"
    and "\<forall>dg. hd_at hf = H_Analyzed dg \<longrightarrow> 0 \<le> dg_prior dg"
    and "max_repair_attempts pol \<le> 0 \<longrightarrow> (\<forall>k. attempts_for k h = 0)"
  shows "h_policy h' = pol \<and> (\<forall>k. int (repairs_logged k h') = attempts_for k h') \<and>
     (\<forall>dg. w' = H_Analyzed dg \<longrightarrow> 0 \<le> dg_prior dg) \<and>
     (max_repair_attempts pol \<le> 0 \<longrightarrow> (\<forall>k. attempts_for k h' = 0))"
proof (cases "hd_at hf")
  case H_Start
  with assms(1) obtain dg where dg: "diagnose (hd_env hf) (hd_task hf) (hd_output hf) h = (dg, h')" "w' = H_Analyzed dg"
    by (auto simp: apfst_def map_prod_def split: prod.splits)
  have "0 \<le> attempts_for (key_of (hd_env hf) (hd_output hf)) h" using assms(3) by (metis of_nat_0_le_iff)
  with diagnose_facts [OF dg(1)] dg(2) assms(2,3,5) show ?thesis by (simp add: repairs_logged_def)
next
  case (H_Analyzed dg)
  with assms(1) obtain d where "settle (hd_task hf) dg h = (d, h')" "w' = H_Decided dg d"
    by (auto simp: apfst_def map_prod_def split: prod.splits)
  with settle_facts [OF this(1)] H_Analyzed assms(2-5) show ?thesis by fastforce
qed (use handling_step_quiet [OF assms(1)] assms(2,3,5) in auto)

interpretation handlings: invariant_system handlings_do "handlings_ok pol" for pol
proof
  fix s e
  assume ok: "handlings_ok pol s"
  obtain hs h where s: "s = (hs, h)" by fastforce
  show "handlings_ok pol (handlings_do s e)"
  proof (cases e)
    case (Proceed i)
    show ?thesis
    proof (cases "i < length hs")
      case True
      obtain w' h' where step: "handling_step (hs ! i) (hd_at (hs ! i)) h = (w', h')" by fastforce
      have "\<forall>dg. hd_at (hs ! i) = H_Analyzed dg \<longrightarrow> 0 \<le> dg_prior dg"
        using ok nth_mem [OF True] unfolding s handlings_ok_def by auto
      with handling_step_ok [OF step, of pol] ok have h': "h_policy h' = pol"
        "\<forall>k. int (repairs_logged k h') = attempts_for k h'"
        "\<forall>dg. w' = H_Analyzed dg \<longrightarrow> 0 \<le> dg_prior dg"
        "max_repair_attempts pol \<le> 0 \<longrightarrow> (\<forall>k. attempts_for k h' = 0)"
        by (simp_all add: s handlings_ok_def)
      have "handlings_do s e = (hs[i := (hs ! i)\<lparr>hd_at := w'\<rparr>], h')"
        using True step by (simp add: s Proceed)
      with h' ok show ?thesis
        by (auto simp: s handlings_ok_def dest!: set_update_subset_insert [THEN subsetD])
    qed (use ok in \<open>simp add: s Proceed\<close>)
  next
    case (Break_Off i)
    with ok show ?thesis
      by (auto simp: s handlings_ok_def dest!: set_update_subset_insert [THEN subsetD])
  qed (use ok in \<open>auto simp: s handlings_ok_def\<close>)
qed

lemma handlings_ok_new [simp]: "handlings_ok pol ([], new_healing pol bus)"
  by (simp add: handlings_ok_def new_healing_def attempts_for_def repairs_logged_def dict_get_default_def)

lemma repairers_crowd: "repairers pol k hs \<le> crowd k hs"
  by (induction hs) (auto simp: repairers_def crowd_def may_repair_def undecided_def)

lemma repairers_step:
  assumes ok: "handlings_ok pol s"
    and below: "attempts_for k (snd s) + int (repairers pol k (fst s)) \<le> max_repair_attempts pol + int b"
    and crowd: "crowd k (fst (handlings_do s e)) \<le> Suc b"
  shows "attempts_for k (snd (handlings_do s e)) + int (repairers pol k (fst (handlings_do s e))) \<le>
     max_repair_attempts pol + int b"
proof -
  obtain hs h where s: "s = (hs, h)" by fastforce
  show ?thesis
  proof (cases e)
    case (Receive env task out ref)
    with below show ?thesis by (simp add: s repairers_def may_repair_def)
  next
    case (Proceed i)
    show ?thesis
    proof (cases "i < length hs")
      case True
      let ?hf = "hs ! i"
      obtain w' h' where step: "handling_step ?hf (hd_at ?hf) h = (w', h')" by fastforce
      have e: "handlings_do s e = (hs[i := ?hf\<lparr>hd_at := w'\<rparr>], h')" using True step by (simp add: s Proceed)
      have "repairers pol k (hs[i := ?hf\<lparr>hd_at := w'\<rparr>]) + of_bool (may_repair pol k ?hf) =
          repairers pol k hs + of_bool (may_repair pol k (?hf\<lparr>hd_at := w'\<rparr>))"
        unfolding repairers_def by (rule length_filter_update [OF True])
      moreover have "int (repairers pol k (hs[i := ?hf\<lparr>hd_at := w'\<rparr>])) \<le> int b + 1"
        using repairers_crowd [of pol k "hs[i := ?hf\<lparr>hd_at := w'\<rparr>]"] crowd by (simp add: e)
      moreover have "h_policy h = pol" using ok by (simp add: s handlings_ok_def)
      from handling_step_count [OF step this, of k] have
        "attempts_for k h' + of_bool (may_repair pol k (?hf\<lparr>hd_at := w'\<rparr>)) \<le>
           attempts_for k h + of_bool (may_repair pol k ?hf) \<or>
         attempts_for k h' = attempts_for k h \<and> attempts_for k h < max_repair_attempts pol" .
      ultimately show ?thesis
        using below unfolding e by (auto simp: s of_bool_def split: if_splits)
    qed (use below in \<open>simp add: s Proceed\<close>)
  next
    case (Break_Off i)
    show ?thesis
    proof (cases "i < length hs")
      case True
      have "repairers pol k (hs[i := (hs ! i)\<lparr>hd_at := H_Gone\<rparr>]) \<le> repairers pol k hs"
        using length_filter_update [OF True, of "may_repair pol k" "(hs ! i)\<lparr>hd_at := H_Gone\<rparr>"]
        unfolding repairers_def by (simp add: may_repair_def)
      with below show ?thesis by (auto simp: s Break_Off)
    qed (use below in \<open>simp add: s Break_Off\<close>)
  qed
qed

lemma repairers_run:
  assumes "handlings_ok pol s" "peak k s es \<le> Suc b"
    and "attempts_for k (snd s) + int (repairers pol k (fst s)) \<le> max_repair_attempts pol + int b"
  shows "attempts_for k (snd (run handlings_do s es)) \<le> max_repair_attempts pol + int b"
  using assms
proof (induction es arbitrary: s)
  case (Cons e es)
  have "crowd k (fst (handlings_do s e)) \<le> peak k (handlings_do s e) es" by (cases es) auto
  with Cons.prems(2) have "crowd k (fst (handlings_do s e)) \<le> Suc b" by simp
  with Cons.prems repairers_step [of pol s k b e] handlings.step_inv [of pol s e] Cons.IH [of "handlings_do s e"]
  show ?case by simp
qed simp

section \<open>Properties\<close>







text \<open>
  C37: However the failures handled by one runtime overlap, break off or are cancelled, the log never
  holds more repair actions for a signature than the policy's bound and one for each further handling
  of that signature that was, at one moment, between reading the attempts and recording its own: with
  at most one handling at a time the bound itself holds. A policy that allows none gets none, and the
  history counts exactly what is logged.
\<close>

theorem repairs_are_bounded:
  "int (repairs_logged k (snd (run handlings_do ([], new_healing pol bus) es))) \<le>
     (if 0 < max_repair_attempts pol
      then max_repair_attempts pol + int (peak k ([], new_healing pol bus) es - 1) else 0) \<and>
   int (repairs_logged k (snd (run handlings_do ([], new_healing pol bus) es))) =
     attempts_for k (snd (run handlings_do ([], new_healing pol bus) es))"
proof -
  let ?s = "([], new_healing pol bus)" and ?b = "peak k ([], new_healing pol bus) es - 1"
  have "attempts_for k (snd ?s) = 0" "repairers pol k (fst ?s) = 0"
    by (simp_all add: new_healing_def attempts_for_def dict_get_default_def repairers_def)
  then have "attempts_for k (snd (run handlings_do ?s es)) \<le> max_repair_attempts pol + int ?b"
    if "0 < max_repair_attempts pol"
    using that by (intro repairers_run [of pol]) simp_all
  moreover have "handlings_ok pol (run handlings_do ?s es)"
    by (rule handlings.run_inv) simp
  ultimately show ?thesis by (auto simp: handlings_ok_def)
qed



end
