(* ===== verification/Database_Schema.thy ===== *)
theory Database_Schema
  imports Event_Listener Services
begin

text \<open>
  The tables of the database: \<open>scripts/init_db.py\<close> with the statements it sends, the statements of
  \<open>infra/postgres/init.sql\<close> it repeats in part, and how the statements of \<open>tasks/repository.py\<close> and of
  the listener fit the tables. A database is the tables it has, in the order they were created.
\<close>

section \<open>The statements\<close>

text \<open>A default is a literal or the call of a function of the server.\<close>

record sql_column =
  sc_name :: string
  sc_type :: string
  sc_primary :: bool
  sc_not_null :: bool
  sc_default :: "string option"
  sc_references :: "string option"

definition bare_column :: "string \<Rightarrow> string \<Rightarrow> sql_column" where
  "bare_column n t =
     \<lparr>sc_name = n, sc_type = t, sc_primary = False, sc_not_null = False, sc_default = None, sc_references = None\<rparr>"

definition required :: "string \<Rightarrow> string \<Rightarrow> sql_column" where
  "required n t = (bare_column n t)\<lparr>sc_not_null := True\<rparr>"

definition defaulted :: "string \<Rightarrow> string \<Rightarrow> string \<Rightarrow> sql_column" where
  "defaulted n t d = (required n t)\<lparr>sc_default := Some d\<rparr>"

definition uuid_key :: sql_column where
  "uuid_key = (bare_column ''id'' ''UUID'')\<lparr>sc_primary := True, sc_not_null := True, sc_default := Some ''gen_random_uuid()''\<rparr>"

definition workflow_reference :: sql_column where
  "workflow_reference = (bare_column ''workflow_id'' ''UUID'')\<lparr>sc_references := Some ''workflows''\<rparr>"

definition workflows_table :: "sql_column list" where
  "workflows_table =
     [uuid_key, defaulted ''status'' ''TEXT'' ''pending'', bare_column ''provider'' ''TEXT'',
      defaulted ''definition'' ''JSONB'' ''{}'', defaulted ''state'' ''JSONB'' ''{}'',
      defaulted ''created_at'' ''TIMESTAMPTZ'' ''now()'', defaulted ''updated_at'' ''TIMESTAMPTZ'' ''now()'']"

definition tasks_table :: "sql_column list" where
  "tasks_table =
     [uuid_key, workflow_reference, defaulted ''status'' ''TEXT'' ''pending'', required ''task_type'' ''TEXT'',
      defaulted ''payload'' ''JSONB'' ''{}'', bare_column ''result'' ''JSONB'', bare_column ''provider'' ''TEXT'',
      defaulted ''attempts'' ''INT'' ''0'', defaulted ''max_attempts'' ''INT'' ''3'',
      defaulted ''created_at'' ''TIMESTAMPTZ'' ''now()'', defaulted ''updated_at'' ''TIMESTAMPTZ'' ''now()'']"

definition events_table :: "sql_column \<Rightarrow> sql_column list" where
  "events_table col =
     [uuid_key, col, required ''event_type'' ''TEXT'', defaulted ''payload'' ''JSONB'' ''{}'',
      defaulted ''created_at'' ''TIMESTAMPTZ'' ''now()'']"

type_synonym database = "(string, sql_column list) dict"

text \<open>\<open>SQL\<close> of the script, and the tables of \<open>init.sql\<close>: they differ in one column.\<close>

definition init_db_tables :: "(string \<times> sql_column list) list" where
  "init_db_tables =
     [(''workflows'', workflows_table), (''tasks'', tasks_table),
      (''events'', events_table (bare_column ''workflow_id'' ''UUID''))]"

definition init_sql_tables :: "(string \<times> sql_column list) list" where
  "init_sql_tables =
     [(''workflows'', workflows_table), (''tasks'', tasks_table), (''events'', events_table workflow_reference)]"

text \<open>\<open>CREATE TABLE IF NOT EXISTS\<close>\<close>

definition create_table :: "string \<times> sql_column list \<Rightarrow> database \<Rightarrow> database" where
  "create_table t db = dict_setdefault (fst t) (snd t) db"

text \<open>
  \<open>main\<close> of the script: what connecting and the statements raise, if they do, is given. The
  statements are one transaction; the connection is closed only after they succeeded.
\<close>

record script_run =
  connecting_raises :: "exn option"
  executing_raises :: "exn option"

definition init_db_main ::
  "script_run \<Rightarrow> environ \<Rightarrow> database \<Rightarrow> (exn + string) \<times> database \<times> string option" where
  "init_db_main env vars db =
     (case connecting_raises env of
        Some e \<Rightarrow> (Inl e, db, None)
      | None \<Rightarrow>
          (case executing_raises env of
             Some e \<Rightarrow> (Inl e, db, Some (PG_DSN vars))
           | None \<Rightarrow> (Inr ''database initialized'', fold create_table init_db_tables db, None)))"

text \<open>The two ways a deployment creates its tables.\<close>

datatype initialiser = Init_Sql | Init_Db

fun initialise :: "database \<Rightarrow> initialiser \<Rightarrow> database" where
  "initialise db Init_Sql = fold create_table init_sql_tables db"
| "initialise db Init_Db = fold create_table init_db_tables db"

definition columns_of :: "database \<Rightarrow> string \<Rightarrow> string list" where
  "columns_of db t = (case dict_get db t of None \<Rightarrow> [] | Some cols \<Rightarrow> map sc_name cols)"

definition references_of :: "database \<Rightarrow> string \<Rightarrow> string \<Rightarrow> string option" where
  "references_of db t c =
     (case dict_get db t of
        None \<Rightarrow> None
      | Some cols \<Rightarrow> Option.bind (List.find (\<lambda>col. sc_name col = c) cols) sc_references)"

section \<open>What the scripts leave\<close>

lemmas table_defs =
  workflows_table_def tasks_table_def events_table_def uuid_key_def workflow_reference_def defaulted_def
  required_def bare_column_def

lemma create_tables_present:
  "\<forall>t \<in> set ts. dict_has db (fst t) \<Longrightarrow> fold create_table ts db = db"
  by (induction ts) (auto simp: create_table_def dict_setdefault_def)

lemma initialise_empty:
  "initialise [] Init_Sql = init_sql_tables" "initialise [] Init_Db = init_db_tables"
  by (simp_all add: init_sql_tables_def init_db_tables_def create_table_def dict_setdefault_def dict_has_def)

text \<open>Whichever script ran first, the other and every repetition change nothing.\<close>

lemma initialise_again: "run initialise (initialise [] s) ss = initialise [] s"
proof (induction ss)
  case (Cons s' ss)
  have "\<forall>t \<in> set init_sql_tables \<union> set init_db_tables. dict_has (initialise [] s) (fst t)"
    by (cases s) (simp_all add: initialise_empty init_sql_tables_def init_db_tables_def dict_has_def
        del: initialise.simps)
  then have "initialise (initialise [] s) s' = initialise [] s"
    by (cases s') (simp_all add: create_tables_present)
  with Cons show ?case by simp
qed simp

lemma initialised_tables:
  "columns_of (initialise [] s) ''tasks'' = declared_columns"
  "references_of (initialise [] s) ''tasks'' ''workflow_id'' = Some ''workflows''"
  "references_of (initialise [] s) ''events'' ''workflow_id'' = (if s = Init_Sql then Some ''workflows'' else None)"
proof -
  note eval = initialise_empty init_sql_tables_def init_db_tables_def columns_of_def references_of_def
  show "columns_of (initialise [] s) ''tasks'' = declared_columns"
    by (cases s) (simp_all add: eval table_defs declared_columns_def del: initialise.simps)
  show "references_of (initialise [] s) ''tasks'' ''workflow_id'' = Some ''workflows''"
    by (cases s) (simp_all add: eval table_defs del: initialise.simps)
  show "references_of (initialise [] s) ''events'' ''workflow_id'' = (if s = Init_Sql then Some ''workflows'' else None)"
    by (cases s) (simp_all add: eval table_defs del: initialise.simps)
qed

text \<open>
  The statements of \<open>tasks/repository.py\<close>: the columns \<open>create\<close> gives, and those \<open>update_status\<close> sets.
\<close>

definition insert_columns :: "string list" where
  "insert_columns = [''id'', ''workflow_id'', ''status'', ''task_type'', ''payload'', ''provider'', ''max_attempts'']"

definition update_columns :: "(string, pyval) dict option \<Rightarrow> string option \<Rightarrow> int option \<Rightarrow> string list" where
  "update_columns res err att =
     [''status'', ''updated_at''] @ (if res \<noteq> None then [''result''] else []) @
     (if err \<noteq> None then [''error''] else []) @ (if att \<noteq> None then [''attempts''] else [])"

text \<open>The insert names only columns the table has, and every required column has a value or a default.\<close>

lemma insert_fits:
  "set insert_columns \<subseteq> set (columns_of (initialise [] s) ''tasks'')"
  "\<forall>col \<in> set tasks_table. sc_not_null col \<longrightarrow> sc_default col \<noteq> None \<or> sc_name col \<in> set insert_columns"
  by (simp_all add: initialised_tables insert_columns_def declared_columns_def table_defs)

text \<open>\<open>update_status\<close> is refused exactly if it names a column the table does not have.\<close>

lemma update_refused_iff:
  assumes "table_columns env = columns_of (initialise [] s) ''tasks''" "\<not> faulty env (pl_moment p)"
  shows "(\<exists>e q. update_status env i st res err att p = (Inl e, q)) \<longleftrightarrow>
    \<not> set (update_columns res err att) \<subseteq> set (table_columns env)"
  using assms by (auto simp: update_status_def interact_def Let_def initialised_tables declared_columns_def
      update_columns_def split: option.split)

section \<open>Schema, pipeline and listener together\<close>

text \<open>
  C19: Which script ran first decides whether the event log works. The table \<open>events\<close> keeps the
  declaration of the first script, whatever runs later. While no workflow is in its table, a
  listener whose database answers stores none of the pipeline's messages after \<open>init.sql\<close>, and
  after \<open>init_db.py\<close> every message, once, in order and under its task.
\<close>

theorem first_script_decides_events:
  assumes "p = run pipeline_do empty_pipeline steps"
    and "foreign_key env \<longleftrightarrow> references_of (run initialise [] (s # later)) ''events'' ''workflow_id'' \<noteq> None"
    and "db_faulty env = (\<lambda>_. False)" "workflow_ids db = []"
    and "\<forall>m \<in> set (bus_log p). storable_message env m"
  shows "event_rows (run (listen_round env) db (map message_on (bus_log p))) =
     event_rows db @ (case s of Init_Sql \<Rightarrow> [] | Init_Db \<Rightarrow> map (event_row_of env) (bus_log p))"
proof -
  have "run initialise [] (s # later) = initialise [] s" using initialise_again [of s later] by simp
  with assms(2) have key: "foreign_key env \<longleftrightarrow> s = Init_Sql" by (simp add: initialised_tables)
  have "announces empty_pipeline p" unfolding assms(1) by (rule pipeline_run_announces)
  then have said: "\<forall>m \<in> set (bus_log p). announcement m"
    by (auto simp: announces_def empty_pipeline_def list_all_iff)
  show ?thesis
  proof (cases s)
    case Init_Sql
    with key have "\<forall>m \<in> set (bus_log p). no_workflow_task env (workflow_ids db) m"
      by (auto simp: no_workflow_task_def assms(4) split: option.split pyval.split)
    moreover have "\<forall>m \<in> set (bus_log p). json_plain (PDict m)"
      using assms(5) by (simp add: storable_message_def)
    ultimately show ?thesis using listen_announcements [OF said] Init_Sql by simp
  next
    case Init_Db
    with key said assms(3,5) show ?thesis by (simp add: listen_storables)
  qed
qed

theorem first_script_decides_events_witness:
  "let env = sample_pipe_env (\<lambda>n. False) declared_columns; db = sample_db\<lparr>workflow_ids := []\<rparr>;
       p = run pipeline_do empty_pipeline [Create env (sample_job ''echo''), Poll env, Consume env];
       key = (\<lambda>s. references_of (run initialise [] (s # [Init_Sql, Init_Db])) ''events'' ''workflow_id'' \<noteq> None);
       log = (\<lambda>s. run (listen_round (sample_listener\<lparr>foreign_key := key s\<rparr>)) db (map message_on (bus_log p)))
   in event_rows (log Init_Sql) = [] \<and>
      map ev_type (event_rows (log Init_Db)) = [''task_scheduled'', ''task_completed'']"
proof -
  let ?env = "sample_pipe_env (\<lambda>n. False) declared_columns"
  let ?p = "run pipeline_do empty_pipeline [Create ?env (sample_job ''echo''), Poll ?env, Consume ?env]"
  let ?le = "\<lambda>k. sample_listener\<lparr>foreign_key := k\<rparr>"
  have types: "map (\<lambda>m. ev_type (event_row_of (?le k) m)) (bus_log ?p) =
      [''task_scheduled'', ''task_completed'']" for k
    by (simp add: pipeline_eval event_row_of_def)
  have storable: "\<forall>m \<in> set (bus_log ?p). storable_message (?le k) m" for k
    by (simp add: pipeline_eval payload_get_def dict_ok_def storable_message_def sample_listener_def)
  have sound: "db_faulty (?le k) = (\<lambda>_. False)" "workflow_ids (sample_db\<lparr>workflow_ids := []\<rparr>) = []"
      "(foreign_key (?le k) = k)" "event_rows (sample_db\<lparr>workflow_ids := []\<rparr>) = []" for k
    by (simp_all add: sample_listener_def sample_db_def)
  note use = first_script_decides_events [OF refl sound(3) sound(1,2) storable, where later = "[Init_Sql, Init_Db]"]
  from use [where s = Init_Sql] use [where s = Init_Db] types sound(4) show ?thesis
    by (simp add: Let_def comp_def del: foldl_Cons)
qed

end
