(* ===== verification/Spec2Isabelle.thy ===== *)
theory Spec2Isabelle
  imports
    Provider_Manager Routing Task_Chaining Self_Healing Workflows Task_Pipeline OpenClaw
    Runtime_State Catalogues Composition OpenAI_Adapter Provider_Persistence Event_Listener Configuration
    Lifecycle Services Runtime_API Scripts State_File Stored_Reports Contracts Wired_Runtime
    Overlapping_Calls Healing_Calls Database_Schema
begin

text \<open>
  A verification library for the AINE runtime (hookclose), a Python runtime that turns goals into
  tasks, lets language-model providers work on them and executes the results.

  \<^bold>\<open>The program.\<close> A task enters the database (\<open>tasks/repository.py\<close>), the scheduler
  (\<open>scheduler/main.py\<close>) pushes it to a Redis list, a worker (\<open>opencode-worker/main.py\<close>) pops and
  executes it (\<open>tasks/executor.py\<close>). The OpenClaw worker (\<open>workers/openclaw.py\<close>) executes a task in
  a workspace of its own, lets the code generator (\<open>workers/codegen.py\<close>) ask the provider manager
  (\<open>providers/manager.py\<close>) for files, and runs the steps of the task. The manager fails over between
  the providers of a registry, whose health is a circuit breaker (\<open>providers/base.py\<close>); the routing
  engine (\<open>providers/routing.py\<close>) ranks them by complexity and cost. Completed and failed tasks give
  follow-up tasks (\<open>orchestration/chaining.py\<close>, \<open>orchestration/graph.py\<close>), failures are classified
  and repaired within limits (\<open>orchestration/self_healing.py\<close>). The composition root
  (\<open>runtime/composition.py\<close>) assembles the runtime. Components announce what they do as events
  (\<open>events/\<close>); a listener (\<open>workflow-engine/main.py\<close>) copies the messages of the scheduler and the
  workers into a table. The API (\<open>runtime/api/\<close>), the command line and the queue application are
  scaffolds around the runtime.

  \<^bold>\<open>The theories.\<close>
  \<^item> \<open>Prelude\<close>, \<open>Errors\<close>, \<open>Interfaces\<close>, \<open>Effects\<close>, \<open>Py_Value\<close>: dictionaries with insertion order,
    rounding, exceptions as \<open>exn + 'a\<close>, the shared interfaces as locales, operations on a state that
    may raise, Python values with \<open>str\<close>, \<open>repr\<close>, \<open>int\<close> and timestamps. \<open>Json\<close>, \<open>Iso_Time\<close>: the parts
    of the standard library that write and read JSON and timestamps, with their round trips.
  \<^item> \<open>Events\<close>: every event class of \<open>events/domain/\<close>, the envelope, the registration.
  \<^item> \<open>Provider_State\<close>, \<open>Provider_Base\<close>, \<open>Provider_Registry\<close>, \<open>Provider_Store\<close>, \<open>Provider_Manager\<close>:
    \<open>providers/\<close>. The registry is also the heap in which the provider objects live.
    \<open>Manager_Calls\<close> cuts a call of the manager at its awaits; in \<open>Overlapping_Calls\<close> any number of calls
    overlap on one manager. \<open>Provider_Persistence\<close>: the dictionary form of health and the Redis store.
  \<^item> \<open>Routing\<close>: \<open>providers/routing.py\<close>. \<open>OpenAI_Adapter\<close>: \<open>adapters/llm/openai.py\<close>.
  \<^item> \<open>Dependency_Graph\<close>, \<open>Task_Models\<close>, \<open>Task_Chaining\<close>: \<open>orchestration/graph.py\<close>,
    \<open>tasks/models.py\<close>, \<open>orchestration/chaining.py\<close>.
  \<^item> \<open>Failure_Analysis\<close>, \<open>Self_Healing\<close>: \<open>orchestration/self_healing.py\<close>. \<open>Self_Healing\<close> has the handling
    of a failure as one operation, as if no other came between; \<open>Healing_Calls\<close> cuts it at its awaits, and
    any number of failures are handled at once.
  \<^item> \<open>Workflows\<close>: \<open>workflows/\<close>, the declared machines as graphs. No code of the repository interprets a
    machine, so there are no runs: the properties are of the declarations.
  \<^item> \<open>Task_Pipeline\<close>: repository, scheduler round, worker round and executor on one explicit state
    of table, queues and published messages. \<open>Event_Listener\<close>: one round of the listener and the table
    of events, composed with the pipeline.
  \<^item> \<open>Processes\<close>: the loops \<open>poll_pg\<close> and \<open>consume\<close> cut at their awaits, any number of processes that
    interleave, are cancelled and started again. \<open>Lifecycle\<close>: the abstract life of a task that every
    deployment with one scheduler refines, what a cancelled process loses, what several schedulers do,
    and what becomes of tasks while JSON columns arrive as text.
  \<^item> \<open>Services\<close>: the three \<open>main.py\<close> around these loops, with their settings, health answers, start-up,
    heartbeats and shutdown. \<open>Scripts\<close>: \<open>scripts/create_test_task.py\<close>.
    \<open>Database_Schema\<close>: the tables of \<open>scripts/init_db.py\<close> and \<open>infra/postgres/init.sql\<close>, composed with
    the repository and the listener.
  \<^item> \<open>Workspace\<close>, \<open>Code_Generation\<close>, \<open>OpenClaw\<close>, \<open>Architect\<close>: \<open>workers/\<close>. \<open>Stored_Reports\<close>: the
    JSON files of the reports.
  \<^item> \<open>Runtime_State\<close>, \<open>Catalogues\<close>, \<open>Composition\<close>: \<open>runtime/state.py\<close>, \<open>runtime/registry.py\<close> and
    \<open>agents/\<close>, \<open>runtime/composition.py\<close>. \<open>State_File\<close>: the JSON text of the state and its validation.
    \<open>Wired_Runtime\<close>: the assembled runtime over the adapters that are built from its keys.
  \<^item> \<open>Configuration\<close>, \<open>Contracts\<close>: settings, sandbox policy and outcomes, workflow states; the data
    that the ports exchange and the tables of \<open>memory/models.py\<close>.
  \<^item> \<open>Runtime_API\<close>: \<open>runtime/api/\<close>, \<open>runtime/lifecycle.py\<close>, \<open>runtime/bootstrap.py\<close>, \<open>runtime/cli.py\<close>,
    the queues and the queue application of \<open>tasks/\<close>.

  \<^bold>\<open>How state and operations correspond.\<close> An object with mutable fields is a record; a method is a
  function that returns its result with the updated record; a raised exception is the left of a sum
  and keeps the effects made before it. What lies outside the program is an argument, numbered by
  the interactions so far: the clock and the vendors (\<open>environment\<close>), generated identifiers
  (\<open>task_env\<close>), the database's and Redis' faults (\<open>pipe_env\<close>), processes and system calls
  (\<open>os_env\<close>), the faults of a file save (\<open>save_env\<close>), the digest and the rollback callback
  (\<open>healing_env\<close>), the listener's database (\<open>listener_env\<close>), what the calls of a service raise and
  when it is told to stop (\<open>service_env\<close>), the vendor's and Redis' clients. An interaction that raises
  has no effect. The workers take the JSON decoder as an argument, so their theorems hold for every
  decoder; that of \<open>Json\<close> is one of them. In \<open>Processes\<close> a process is the point where its loop waits,
  with the variables it holds there; a system is a list of processes over one pipeline, and a history
  is a list of events: a new task, a step of a process, its cancellation, its start. Likewise in
  \<open>Manager_Calls\<close> a call of a manager is the point where it waits, for the bus, the vendor or the store,
  and a history of overlapping calls is a list of calls begun, steps and cancellations; what the theorems
  say of a call's way (\<open>choice\<close>, \<open>turn\<close>) is read off that history. \<open>Healing_Calls\<close> is made the same way. The events table
  has its foreign key or not (\<open>foreign_key\<close>), as \<open>infra/postgres/init.sql\<close> and \<open>scripts/init_db.py\<close>
  create it; \<open>workflow_refused\<close> tells which workflows the foreign key of the tasks refuses.

  \<^bold>\<open>What the lemmas show.\<close>
  \<^item> Providers: the health logic refines a three-state breaker; a failed provider never recovers; the
    manager answers from the first working candidate, records the whole path, and fails only by
    exhaustion; an available local provider always answers; the adapter maps vendor errors to the
    statuses, and a runtime whose OpenRouter account is empty answers from OpenAI, each asked for its
    own model. Steps of a call without interruption are the call as one operation; however calls overlap,
    each takes its candidates in order and reports the path it took, asks a provider only while it is
    available, and ends within six steps per provider, and the store accounts for the usage, but a late
    answer revives a provider that the others found failed. Routing hands over every candidate once, by
    descending score and then by name, and only providers that fit. The Redis store refines the
    in-memory store, and what it loads is well typed exactly if the stored counts are.
  \<^item> Orchestration: the graph stays acyclic and never deadlocks; chains are bounded; repairs are
    bounded when failures are handled one by one, follow a fixed course, and exceed the bound by at most as
    many as overlap - which they can; a printed traceback is parsed back; the declared machines have no
    unreachable state and no dead end.
  \<^item> Pipeline: under arbitrary faults no task is queued twice and a settled task stays settled; which
    faults lose a task; how often a failing task is executed; which messages the listener stores, and
    that those of the pipeline are not among them (they are without the foreign key). If the driver decodes
    JSON columns, a task that the script creates is completed by one round of each process; with the
    driver's default no task is ever dispatched. The database keeps the tables of the script that
    ran first, which decides for good whether the events are stored.
  \<^item> Processes: undisturbed steps are exactly the rounds; with one scheduler a task has one owner, its
    status follows its state machine, and the system refines the life absent, waiting, queued, held,
    released; a cancelled process loses its task for good, and every scheduler that has read a task dispatches it,
    also after it was completed. These hold of drivers of both kinds, but say little while JSON columns
    arrive as text, when no scheduler ever reads a task.
  \<^item> Services: when \<open>main\<close> ends, and that a failed heartbeat ends it without closing anything; the health
    answer parses as HTTP with a JSON body.
  \<^item> Workers: attempts are bounded and accounted for by the events, reports tell what ran, the docker
    runner starts nothing but the configured image in the configured network on the working directory, and what the guard on patch paths does and does not exclude; reviews
    are stored with scores in range and announced exactly.
  \<^item> Runtime: the state file is saved atomically and loaded back through its JSON text; every configuration builds; which calls a built
    runtime always and never serves; a restart forgets the health of the providers; which
    requests the API answers with success, and which events its catalogue lists.

  The interfaces: \<open>guarded_registry\<close> and \<open>strict_registry\<close> are provided by the provider, agent, component
  and event registries, \<open>keyed_store\<close> by the state store, \<open>invariant_system\<close> and \<open>counted_system\<close> by
  every component with a step function, \<open>frame_relation\<close> (and its extensions \<open>plan_frame\<close> and
  \<open>execution_frame\<close>) by the relations that operations with effects keep.

  \<^bold>\<open>Termination.\<close> Only the JSON decoder uses fuel, twice the length of the text, and
  \<open>Json.json_value_fuel\<close> shows that more never changes the result. The graph search, the line splitter
  and the worker's draining loop have termination proofs (the stack and the unvisited nodes, the
  text, the waiting tasks); all other recursion is structural. The heartbeat loop of a service may run
  for ever and is a partial function into \<open>option\<close>; \<open>Services.mains_end_iff\<close> says exactly when it
  returns. The other endless loops of the processes are modelled by their rounds and steps, and the
  theorems range over all sequences of them.

  \<^bold>\<open>Not modelled.\<close> Floats are exact rationals, without rounding error, infinities or NaN, so what the
  code does with them is not seen (\<open>int\<close> of a score that decodes as an infinity raises). Strings have
  code points below 256, and typographic characters of literals are written in ASCII. The file system
  has no symbolic links. Steps of the scheduler and of the workers interleave, and so do calls of one
  provider manager and failures handled by one self-healing runtime; calls of one OpenClaw worker, chainer
  or architect do not. The event bus, and the state store of a provider manager, do not raise (in
  \<open>Healing_Calls\<close> an await that raises ends the handling there). Of the database only tables, columns and
  foreign keys are modelled, not indexes or triggers. JSON with \<open>NaN\<close> or code points from 256 up is refused by
  the model's decoder, and the round trips are for values without floats. What the settings library
  reads from the environment is an argument, as are the lenient conversions of the validation library.
  Of the web framework only the choice of the route and the validation of the body are modelled, not
  redirects, documentation pages or headers; of a health server only what it writes to a connection.
  Left out because they have no behaviour of their own: logging and telemetry, abstract ports and bases
  (\<open>contracts/\<close>, \<open>memory/\<close>, the executor of \<open>sandbox/\<close>, the other adapters), the dispatcher protocol
  and the orchestrator stub.
\<close>

end
